(* ===== verification/Prelude.thy ===== *)
theory Prelude
  imports Main "HOL-Library.Word"
begin

unbundle bit_operations_syntax

text \<open>
  Shared vocabulary of the development.

  JavaScript values are modelled as follows.
  \<^item> A \<open>Uint8Array\<close> is a list of 8-bit words (\<open>bytes\<close>). Reading past the end yields
    \<open>undefined\<close>, which every bit operator of the sources coerces to 0 (\<open>u8_at\<close>); writing
    past the end of a typed array is ignored, as \<open>list_update\<close> does.
  \<^item> A JavaScript string is modelled by its UTF-8 encoding, a \<open>string\<close> of 8-bit characters:
    \<open>TextEncoder.encode\<close> is \<open>utf8_encode\<close> and the fatal \<open>TextDecoder.decode\<close> is
    \<open>utf8_decode\<close>, which rejects ill-formed input and drops a leading byte order mark.
  \<^item> \<open>x >>> 0\<close> and the other 32-bit operators work on \<open>32 word\<close>; sizes and offsets, which
    the sources keep below \<open>2^53\<close>, are natural numbers.
  \<^item> A \<open>throw\<close> is the left injection of a sum type, with an error datatype per component.

  The collections \<open>buf_simps\<close> and \<open>wire_simps\<close> gather the rewrite rules with which the
  component theories turn offset-based buffer code into concatenations of wire fields.
\<close>

named_theorems buf_simps \<open>writes into a zero-filled buffer at the end of its filled prefix\<close>
named_theorems wire_simps \<open>reading wire fields back from a concatenation\<close>

type_synonym byte = "8 word"
type_synonym bytes = "byte list"
type_synonym u32 = "32 word"
type_synonym ('e, 'a) result = "'e + 'a"

text \<open>A JavaScript number where the sources test it: an integer, or anything else (a fraction,
  \<open>NaN\<close>, an infinity).\<close>

datatype js_number = JSInt int | JSOther

definition MAX_SAFE_INTEGER :: int where
  "MAX_SAFE_INTEGER = 2 ^ 53 - 1"

fun is_safe_integer :: "js_number \<Rightarrow> bool" where
  "is_safe_integer (JSInt n) = (- MAX_SAFE_INTEGER \<le> n \<and> n \<le> MAX_SAFE_INTEGER)"
| "is_safe_integer JSOther = False"

text \<open>Sequencing of code that may throw.\<close>

definition and_then :: "('e, 'a) result \<Rightarrow> ('a \<Rightarrow> ('e, 'b) result) \<Rightarrow> ('e, 'b) result" where
  "and_then r f = (case r of Inl e \<Rightarrow> Inl e | Inr x \<Rightarrow> f x)"

lemma and_then_simps [simp]: "and_then (Inl e) f = Inl e" "and_then (Inr x) f = f x"
  by (simp_all add: and_then_def)

lemma and_then_Inr_iff: "and_then r f = Inr y \<longleftrightarrow> (\<exists>x. r = Inr x \<and> f x = Inr y)"
  by (cases r) auto

subsection \<open>Typed arrays\<close>

definition u8_at :: "bytes \<Rightarrow> nat \<Rightarrow> byte" where
  "u8_at d i = (if i < length d then d ! i else 0)"

definition zeros :: "nat \<Rightarrow> bytes" where
  "zeros n = replicate n 0"

text \<open>\<open>target.set(source, offset)\<close>, for a source that fits (otherwise JavaScript raises a
  \<open>RangeError\<close>; the buffers of the sources are allocated to fit).\<close>

definition u8_set :: "bytes \<Rightarrow> bytes \<Rightarrow> nat \<Rightarrow> bytes" where
  "u8_set target source offset =
     take offset target @ source @ drop (offset + length source) target"

definition subarray :: "bytes \<Rightarrow> nat \<Rightarrow> nat \<Rightarrow> bytes" where
  "subarray d start stop = take (stop - start) (drop start d)"

lemma length_zeros [simp]: "length (zeros n) = n"
  by (simp add: zeros_def)

lemma zeros_0 [simp]: "zeros 0 = []"
  by (simp add: zeros_def)

lemma drop_zeros [simp]: "drop k (zeros n) = zeros (n - k)"
  by (simp add: zeros_def)

lemma length_u8_set [simp]:
  "offset + length source \<le> length target \<Longrightarrow> length (u8_set target source offset) = length target"
  by (simp add: u8_set_def)

lemma u8_set_append [buf_simps]:
  "off = length pre \<Longrightarrow> length src \<le> n \<Longrightarrow>
     u8_set (pre @ zeros n) src off = (pre @ src) @ zeros (n - length src)"
  by (simp add: u8_set_def)

lemma u8_set_zeros [buf_simps]:
  "length src \<le> n \<Longrightarrow> u8_set (zeros n) src 0 = src @ zeros (n - length src)"
  by (simp add: u8_set_def)

lemma two_part_buffer:
  "n = length a + length b \<Longrightarrow> k = length a \<Longrightarrow> u8_set (u8_set (zeros n) a 0) b k = a @ b"
  by (simp add: u8_set_zeros u8_set_append)

lemma upd_append [buf_simps]:
  "off = length pre \<Longrightarrow> 0 < n \<Longrightarrow> (pre @ zeros n)[off := b] = (pre @ [b]) @ zeros (n - 1)"
  by (cases n) (simp_all add: zeros_def)

lemma upd_zeros [buf_simps]: "0 < n \<Longrightarrow> (zeros n)[0 := b] = [b] @ zeros (n - 1)"
  by (cases n) (simp_all add: zeros_def)

lemma subarray_append [wire_simps]:
  "a = length pre \<Longrightarrow> b = length pre + length mid \<Longrightarrow> subarray (pre @ mid @ post) a b = mid"
  by (simp add: subarray_def)

lemma drop_subarray: "a \<le> b \<Longrightarrow> drop a d = subarray d a b @ drop b d"
  using append_take_drop_id [of "b - a" "drop a d"] by (simp add: subarray_def)

lemma length_subarray: "length (subarray d a b) = min (b - a) (length d - a)"
  by (auto simp: subarray_def)

subsection \<open>Big-endian 32-bit fields\<close>

text \<open>\<open>be32 v\<close> is the reference encoding of \<open>v mod 2^32\<close>.\<close>

definition be32 :: "nat \<Rightarrow> bytes" where
  "be32 v = [word_of_nat (drop_bit 24 v), word_of_nat (drop_bit 16 v),
             word_of_nat (drop_bit 8 v), word_of_nat v]"

definition be32_word :: "byte \<Rightarrow> byte \<Rightarrow> byte \<Rightarrow> byte \<Rightarrow> u32" where
  "be32_word a b c d = push_bit 24 (ucast a) OR push_bit 16 (ucast b) OR push_bit 8 (ucast c) OR ucast d"

lemma length_be32 [simp]: "length (be32 v) = 4"
  by (simp add: be32_def)

lemma be32_neq_Nil [simp]: "be32 v \<noteq> []"
  by (simp add: be32_def)

lemma byte_of_u32:
  assumes "k \<le> 24"
  shows "ucast (drop_bit k (word_of_nat v :: u32) AND 0xff) = (word_of_nat (drop_bit k v) :: byte)"
proof (rule bit_word_eqI)
  fix n assume n: "n < LENGTH(8)"
  have m: "(0xff :: u32) = mask 8" by (simp add: mask_eq_exp_minus_1)
  show "bit (ucast (drop_bit k (word_of_nat v :: u32) AND 0xff) :: byte) n
      = bit (word_of_nat (drop_bit k v) :: byte) n"
    using assms n unfolding m by (auto simp: bit_simps)
qed

lemma byte_of_u32_0: "ucast ((word_of_nat v :: u32) AND 0xff) = (word_of_nat v :: byte)"
  using byte_of_u32 [of 0 v] by simp

lemma be32_word_of_nat:
  "be32_word (word_of_nat (drop_bit 24 v)) (word_of_nat (drop_bit 16 v))
     (word_of_nat (drop_bit 8 v)) (word_of_nat v) = (word_of_nat v :: u32)"
proof (rule bit_word_eqI)
  fix n assume n: "n < LENGTH(32)"
  consider "n < 8" | "8 \<le> n" "n < 16" | "16 \<le> n" "n < 24" | "24 \<le> n" by linarith
  then show "bit (be32_word (word_of_nat (drop_bit 24 v)) (word_of_nat (drop_bit 16 v))
     (word_of_nat (drop_bit 8 v)) (word_of_nat v)) n = bit (word_of_nat v :: u32) n"
    using n by cases (auto simp: be32_word_def bit_simps)
qed

lemma be32_word_inverse:
  "be32 (unat (be32_word a b c d)) = [a, b, c, d]"
proof -
  have byte: "word_of_nat (drop_bit k (unat (be32_word a b c d))) = x"
    if "\<And>n. n < 8 \<Longrightarrow> bit (be32_word a b c d) (k + n) = bit x n" for k and x :: byte
    using that by (intro bit_word_eqI) (auto simp: bit_simps)
  have "word_of_nat (drop_bit 24 (unat (be32_word a b c d))) = a"
    by (rule byte) (auto simp: be32_word_def bit_simps dest: bit_imp_le_length)
  moreover have "word_of_nat (drop_bit 16 (unat (be32_word a b c d))) = b"
    by (rule byte) (auto simp: be32_word_def bit_simps dest: bit_imp_le_length)
  moreover have "word_of_nat (drop_bit 8 (unat (be32_word a b c d))) = c"
    by (rule byte) (auto simp: be32_word_def bit_simps dest: bit_imp_le_length)
  moreover have "word_of_nat (drop_bit 0 (unat (be32_word a b c d))) = d"
    by (rule byte) (auto simp: be32_word_def bit_simps dest: bit_imp_le_length)
  ultimately show ?thesis by (simp add: be32_def)
qed

lemma byte_of_nat_mod [simp]: "(word_of_nat (n mod 256) :: byte) = word_of_nat n"
  by (simp add: word_of_nat_eq_iff take_bit_eq_mod)

lemma unat_byte_less: "unat (b :: byte) < 256"
  using unsigned_less [of b] by simp

lemma byte_plus_1:
  fixes b :: byte
  shows "word_of_nat (unat b + 1) = b + 1" "b + 1 = 0 \<longleftrightarrow> (unat b + 1) div 256 = 1"
    "b + 1 \<noteq> 0 \<longleftrightarrow> (unat b + 1) div 256 = 0"
proof -
  show w: "word_of_nat (unat b + 1) = b + 1" by simp
  have "b + 1 = 0 \<longleftrightarrow> b = - 1" by (rule add_eq_0_iff2)
  also have "\<dots> \<longleftrightarrow> unat b = unat (- 1 :: byte)" by (rule word_eq_iff_unsigned)
  also have "\<dots> \<longleftrightarrow> unat b = 255" by (simp add: unsigned_minus_1_eq_mask mask_eq_exp_minus_1)
  finally have "b + 1 = 0 \<longleftrightarrow> unat b = 255" .
  then show "b + 1 = 0 \<longleftrightarrow> (unat b + 1) div 256 = 1" "b + 1 \<noteq> 0 \<longleftrightarrow> (unat b + 1) div 256 = 0"
    using unat_byte_less [of b] by auto
qed

subsection \<open>Strings\<close>

definition utf8_encode :: "string \<Rightarrow> bytes" where
  "utf8_encode s = map of_char s"

definition byte_char :: "byte \<Rightarrow> char" where
  "byte_char b = char_of (unat b)"

definition is_cont :: "byte \<Rightarrow> bool" where
  "is_cont b \<longleftrightarrow> 0x80 \<le> b \<and> b \<le> 0xBF"

text \<open>Well-formed UTF-8 in the sense of the Encoding Standard: no overlong forms, no surrogates,
  nothing above U+10FFFF.\<close>

fun utf8_ok :: "bytes \<Rightarrow> bool" where
  "utf8_ok [] = True"
| "utf8_ok (a # rest) =
     (if a \<le> 0x7F then utf8_ok rest
      else if 0xC2 \<le> a \<and> a \<le> 0xDF then
        (case rest of b # r \<Rightarrow> is_cont b \<and> utf8_ok r | _ \<Rightarrow> False)
      else if 0xE0 \<le> a \<and> a \<le> 0xEF then
        (case rest of b # c # r \<Rightarrow>
           is_cont b \<and> is_cont c \<and> (a = 0xE0 \<longrightarrow> 0xA0 \<le> b) \<and> (a = 0xED \<longrightarrow> b \<le> 0x9F) \<and> utf8_ok r
         | _ \<Rightarrow> False)
      else if 0xF0 \<le> a \<and> a \<le> 0xF4 then
        (case rest of b # c # d # r \<Rightarrow>
           is_cont b \<and> is_cont c \<and> is_cont d \<and> (a = 0xF0 \<longrightarrow> 0x90 \<le> b) \<and> (a = 0xF4 \<longrightarrow> b \<le> 0x8F)
           \<and> utf8_ok r
         | _ \<Rightarrow> False)
      else False)"

definition strip_bom :: "bytes \<Rightarrow> bytes" where
  "strip_bom bs = (if take 3 bs = [0xEF, 0xBB, 0xBF] then drop 3 bs else bs)"

definition utf8_decode :: "bytes \<Rightarrow> string option" where
  "utf8_decode bs = (if utf8_ok bs then Some (map byte_char (strip_bom bs)) else None)"

lemma length_utf8_encode [simp]: "length (utf8_encode s) = length s"
  by (simp add: utf8_encode_def)

lemma unat_of_char: "unat (of_char c :: byte) = of_char c"
proof -
  have "(of_char c :: byte) = word_of_nat (of_char c)" by (rule of_nat_of_char [symmetric])
  moreover have "of_char c < (256 :: nat)" by (rule nat_of_char_less_256)
  ultimately show ?thesis by (simp add: unat_of_nat del: of_nat_of_char)
qed

lemma byte_char_of_char [simp]: "byte_char (of_char c) = c"
  by (simp add: byte_char_def unat_of_char)

lemma of_char_byte_char [simp]: "of_char (byte_char b) = b"
proof -
  have "unat b < 256" using unsigned_less [of b] by simp
  then have "(of_char (byte_char b) :: nat) = unat b" by (simp add: byte_char_def)
  then have "(of_char (byte_char b) :: byte) = word_of_nat (unat b)" by (metis of_nat_of_char)
  then show ?thesis by simp
qed

text \<open>A string is a valid text value when it is the encoding of some sequence of scalar values
  and does not start with a byte order mark (which decoding removes).\<close>

definition text_ok :: "string \<Rightarrow> bool" where
  "text_ok s \<longleftrightarrow> utf8_ok (utf8_encode s) \<and> take 3 (utf8_encode s) \<noteq> [0xEF, 0xBB, 0xBF]"

lemma utf8_decode_encode [wire_simps]: "text_ok s \<Longrightarrow> utf8_decode (utf8_encode s) = Some s"
  by (simp add: text_ok_def utf8_decode_def strip_bom_def utf8_encode_def comp_def)

definition ascii :: "string \<Rightarrow> bool" where
  "ascii s \<longleftrightarrow> (\<forall>c \<in> set s. of_char c < (128::nat))"

lemma ascii_byte: "of_char c < (128::nat) \<Longrightarrow> (of_char c :: byte) \<le> 0x7F"
  by (simp add: word_le_nat_alt unat_of_char)

lemma ascii_text_ok: "ascii s \<Longrightarrow> text_ok s"
proof -
  assume a: "ascii s"
  have ok: "utf8_ok (utf8_encode s)" if "ascii s" for s
    using that by (induction s) (auto simp: utf8_encode_def ascii_def ascii_byte)
  have "take 3 (utf8_encode s) \<noteq> [0xEF, 0xBB, 0xBF]"
  proof (cases s)
    case (Cons c cs)
    with a have "(of_char c :: byte) \<le> 0x7F" by (simp add: ascii_def ascii_byte)
    then have "(of_char c :: byte) \<noteq> 0xEF" by auto
    with Cons show ?thesis by (simp add: utf8_encode_def)
  qed (simp add: utf8_encode_def)
  with ok [OF a] show ?thesis by (simp add: text_ok_def)
qed

subsection \<open>String operations of the sources\<close>

text \<open>\<open>s.split(',')\<close>: always at least one piece.\<close>

fun split_on :: "'a \<Rightarrow> 'a list \<Rightarrow> 'a list list" where
  "split_on c [] = [[]]"
| "split_on c (x # xs) =
     (if x = c then [] # split_on c xs
      else (case split_on c xs of [] \<Rightarrow> [[x]] | p # ps \<Rightarrow> (x # p) # ps))"

text \<open>\<open>parts.join(sep)\<close>.\<close>

fun join_with :: "'a list \<Rightarrow> 'a list list \<Rightarrow> 'a list" where
  "join_with sep [] = []"
| "join_with sep [p] = p"
| "join_with sep (p # ps) = p @ sep @ join_with sep ps"

lemma split_on_neq_Nil [simp]: "split_on c xs \<noteq> []"
  by (induction xs) (auto split: list.splits)

lemma split_on_no_sep: "c \<notin> set p \<Longrightarrow> split_on c p = [p]"
  by (induction p) auto

lemma split_on_append_sep:
  "c \<notin> set p \<Longrightarrow> split_on c (p @ c # rest) = p # split_on c rest"
  by (induction p) auto

lemma split_on_join_with:
  "ps \<noteq> [] \<Longrightarrow> \<forall>p \<in> set ps. c \<notin> set p \<Longrightarrow> split_on c (join_with [c] ps) = ps"
  by (induction "[c]" ps rule: join_with.induct) (auto simp: split_on_no_sep split_on_append_sep)

definition starts_with :: "'a list \<Rightarrow> 'a list \<Rightarrow> bool" where
  "starts_with p s \<longleftrightarrow> take (length p) s = p"

definition ends_with :: "'a list \<Rightarrow> 'a list \<Rightarrow> bool" where
  "ends_with suffix xs \<longleftrightarrow> starts_with (rev suffix) (rev xs)"

text \<open>\<open>[A-Za-z0-9@._+-]\<close>, the character class of algorithm and subsystem names.\<close>

definition name_char :: "char \<Rightarrow> bool" where
  "name_char c \<longleftrightarrow>
     (let n = (of_char c :: nat) in
      (65 \<le> n \<and> n \<le> 90) \<or> (97 \<le> n \<and> n \<le> 122) \<or> (48 \<le> n \<and> n \<le> 57)
      \<or> c = CHR ''@'' \<or> c = CHR ''.'' \<or> c = CHR ''_'' \<or> c = CHR ''+'' \<or> c = CHR ''-'')"

subsection \<open>Decimal numerals\<close>

text \<open>\<open>BigInt(s)\<close> of a string of digits, and \<open>toString(10)\<close>.\<close>

definition digit_char :: "char \<Rightarrow> bool" where
  "digit_char c \<longleftrightarrow> 48 \<le> (of_char c :: nat) \<and> (of_char c :: nat) \<le> 57"

fun decimal_acc :: "nat \<Rightarrow> string \<Rightarrow> nat" where
  "decimal_acc n [] = n"
| "decimal_acc n (c # cs) = decimal_acc (10 * n + (of_char c - 48)) cs"

definition decimal_value :: "string \<Rightarrow> nat" where
  "decimal_value s = decimal_acc 0 s"

fun show_nat :: "nat \<Rightarrow> string" where
  "show_nat n = (if n < 10 then [char_of (48 + n)] else show_nat (n div 10) @ [char_of (48 + n mod 10)])"

declare show_nat.simps [simp del]

lemma decimal_acc_append: "decimal_acc n (xs @ ys) = decimal_acc (decimal_acc n xs) ys"
  by (induction xs arbitrary: n) auto

lemma of_char_digit: "d < 10 \<Longrightarrow> (of_char (char_of (48 + d :: nat)) :: nat) = 48 + d"
  by (simp add: of_char_of)

lemma digit_char_digit: "d < 10 \<Longrightarrow> digit_char (char_of (48 + d :: nat))"
  using of_char_digit [of d] by (simp add: digit_char_def)

lemma decimal_value_show: "decimal_value (show_nat n) = n"
proof (induction n rule: show_nat.induct)
  case (1 n)
  show ?case
    using 1 of_char_digit [of n] of_char_digit [of "n mod 10"]
    by (subst show_nat.simps) (auto simp: decimal_value_def decimal_acc_append)
qed

lemma show_nat_digits: "list_all digit_char (show_nat n)" "show_nat n \<noteq> []"
proof (induction n rule: show_nat.induct)
  case (1 n)
  {
    case 1
    show ?case
      using "1.IH" by (subst show_nat.simps) (auto simp: digit_char_digit)
  next
    case 2
    show ?case by (subst show_nat.simps) simp
  }
qed

subsection \<open>Counting modulo a bound\<close>

lemma mod_add_eq_imp_eq:
  fixes v i j m :: nat
  assumes "(v + i) mod m = (v + j) mod m" "i < m" "j < m"
  shows "i = j"
proof -
  have le: "i = j" if "i \<le> j" "(v + i) mod m = (v + j) mod m" "j < m" for i j
  proof -
    have "m dvd (v + j) - (v + i)" using that mod_eq_dvd_iff_nat [of "v + i" "v + j" m] by simp
    then have "m dvd j - i" by simp
    with that show ?thesis by (auto dest: dvd_imp_le)
  qed
  show ?thesis using le [of i j] le [of j i] assms by (cases "i \<le> j") auto
qed

end
