(* ===== verification/Ssh_Utils.thy ===== *)
theory Ssh_Utils
  imports Prelude
begin

text \<open>
  The byte helpers of \<^verbatim>\<open>worker/src/webssh/ssh/utils.ts\<close>: reading and writing big-endian
  32-bit fields, concatenation, SSH strings and SSH multiple-precision integers. Each routine is
  shown to produce the wire format of RFC 4251 (section 5), and the readers invert the writers.
\<close>

unbundle bit_operations_syntax

subsection \<open>Definitions\<close>

definition readUint32 :: "bytes \<Rightarrow> nat \<Rightarrow> nat" where
  "readUint32 data offset =
     unat (be32_word (u8_at data offset) (u8_at data (offset + 1))
                     (u8_at data (offset + 2)) (u8_at data (offset + 3)))"

definition writeUint32 :: "bytes \<Rightarrow> nat \<Rightarrow> nat \<Rightarrow> bytes" where
  "writeUint32 data offset value =
     (let w = (word_of_nat value :: u32) in
      data[offset := ucast (drop_bit 24 w AND 0xff),
           offset + 1 := ucast (drop_bit 16 w AND 0xff),
           offset + 2 := ucast (drop_bit 8 w AND 0xff),
           offset + 3 := ucast (w AND 0xff)])"

definition encodeUint32 :: "nat \<Rightarrow> bytes" where
  "encodeUint32 value = writeUint32 (zeros 4) 0 value"

text \<open>The two loops of \<open>concat\<close>: the total length, then one copy per array.\<close>

fun total_length :: "bytes list \<Rightarrow> nat \<Rightarrow> nat" where
  "total_length [] n = n"
| "total_length (arr # arrays) n = total_length arrays (n + length arr)"

fun copy_arrays :: "bytes list \<Rightarrow> bytes \<Rightarrow> nat \<Rightarrow> bytes" where
  "copy_arrays [] result offset = result"
| "copy_arrays (arr # arrays) result offset =
     copy_arrays arrays (u8_set result arr offset) (offset + length arr)"

definition concat_arrays :: "bytes list \<Rightarrow> bytes" where
  "concat_arrays arrays = copy_arrays arrays (zeros (total_length arrays 0)) 0"

text \<open>\<open>encodeString\<close> on a byte array; on a JavaScript string it encodes the text first.\<close>

definition encodeString :: "bytes \<Rightarrow> bytes" where
  "encodeString encoded =
     u8_set (writeUint32 (zeros (4 + length encoded)) 0 (length encoded)) encoded 4"

definition encodeStringText :: "string \<Rightarrow> bytes" where
  "encodeStringText input = encodeString (utf8_encode input)"

function mpint_start :: "bytes \<Rightarrow> nat \<Rightarrow> nat" where
  "mpint_start data start =
     (if start + 1 < length data \<and> u8_at data start = 0 then mpint_start data (start + 1) else start)"
  by pat_completeness auto
termination
  by (relation "measure (\<lambda>(data, start). length data - start)") auto

declare mpint_start.simps [simp del]

definition toSSHMPInt :: "bytes \<Rightarrow> bytes" where
  "toSSHMPInt data =
     (let significant = drop (mpint_start data 0) data;
          needsLeadingZero = (significant \<noteq> [] \<and> u8_at significant 0 AND 0x80 \<noteq> 0);
          valueOffset = (if needsLeadingZero then 5 else 4);
          result = zeros (valueOffset + length significant);
          result = writeUint32 result 0 (length significant + (if needsLeadingZero then 1 else 0))
      in u8_set result significant valueOffset)"

datatype utils_error = BadSecretLength nat

definition x25519SecretToSSHMPInt :: "bytes \<Rightarrow> (utils_error, bytes) result" where
  "x25519SecretToSSHMPInt data =
     (if length data \<noteq> 32 then Inl (BadSecretLength (length data)) else Inr (toSSHMPInt data))"

subsection \<open>Reading and writing 32-bit fields\<close>

lemma readUint32_bound: "readUint32 d off < 2 ^ 32"
  unfolding readUint32_def using unsigned_less [of "be32_word (u8_at d off) (u8_at d (off + 1))
    (u8_at d (off + 2)) (u8_at d (off + 3)) :: u32"] by simp

lemma readUint32_be32 [wire_simps]:
  "off = length pre \<Longrightarrow> readUint32 (pre @ be32 v @ post) off = v mod 2 ^ 32"
  by (simp add: readUint32_def u8_at_def be32_def nth_append be32_word_of_nat unat_of_nat)

lemma readUint32_be32_0 [wire_simps]: "readUint32 (be32 v @ post) 0 = v mod 2 ^ 32"
  using readUint32_be32 [of 0 "[]" v post] by simp

lemma be32_readUint32:
  assumes "off + 4 \<le> length d"
  shows "be32 (readUint32 d off) = subarray d off (off + 4)"
proof -
  from assms have "subarray d off (off + 4) = [d ! off, d ! (off + 1), d ! (off + 2), d ! (off + 3)]"
    by (intro nth_equalityI) (auto simp: subarray_def numeral_eq_Suc nth_Cons' less_Suc_eq)
  then show ?thesis using assms by (simp add: readUint32_def u8_at_def be32_word_inverse)
qed

lemma readUint32_take:
  assumes "off + 4 \<le> n"
  shows "readUint32 (take n d) off = readUint32 d off"
  using assms by (simp add: readUint32_def u8_at_def)

lemma u8_at_drop: "u8_at (drop n d) k = u8_at d (n + k)"
  by (auto simp: u8_at_def)

lemma readUint32_drop: "readUint32 (drop n d) k = readUint32 d (n + k)"
  by (simp add: readUint32_def u8_at_drop add.assoc)

lemma writeUint32_split:
  "off = length pre \<Longrightarrow> writeUint32 (pre @ a # b # c # e # post) off v = pre @ be32 v @ post"
  by (simp add: writeUint32_def Let_def list_update_append be32_def byte_of_u32_0 byte_of_u32)

lemma writeUint32_append [buf_simps]:
  assumes "off = length pre" and "4 \<le> n"
  shows "writeUint32 (pre @ zeros n) off v = (pre @ be32 v) @ zeros (n - 4)"
proof -
  from assms(2) obtain m where n: "n = 4 + m" by (rule le_Suc_ex [THEN exE])
  have "zeros (4 + m) = 0 # 0 # 0 # 0 # zeros m" by (simp add: zeros_def numeral_eq_Suc)
  with assms(1) n show ?thesis by (simp add: writeUint32_split)
qed

lemma writeUint32_zeros [buf_simps]: "4 \<le> n \<Longrightarrow> writeUint32 (zeros n) 0 v = be32 v @ zeros (n - 4)"
  using writeUint32_append [of 0 "[]" n v] by simp

lemma length_writeUint32 [simp]: "length (writeUint32 d off v) = length d"
  by (simp add: writeUint32_def Let_def)

lemma encodeUint32_be32: "encodeUint32 v = be32 v"
  by (simp add: encodeUint32_def buf_simps)

subsection \<open>Concatenation and strings\<close>

lemma total_length_eq: "total_length arrays n = n + length (concat arrays)"
  by (induction arrays arbitrary: n) auto

lemma copy_arrays_eq:
  "length pre = off \<Longrightarrow> copy_arrays arrays (pre @ zeros (length (concat arrays) + k)) off
     = pre @ concat arrays @ zeros k"
proof (induction arrays arbitrary: pre off)
  case (Cons arr arrays)
  then show ?case using Cons.IH [of "pre @ arr"] by (simp add: buf_simps)
qed simp

lemma concat_arrays_concat: "concat_arrays arrays = concat arrays"
  using copy_arrays_eq [of "[]" 0 arrays 0] by (simp add: concat_arrays_def total_length_eq)

lemma encodeString_eq: "encodeString d = be32 (length d) @ d"
  by (simp add: encodeString_def buf_simps)

lemma length_encodeString [simp]: "length (encodeString d) = 4 + length d"
  by (simp add: encodeString_eq)

subsection \<open>Multiple-precision integers\<close>

text \<open>The unsigned big-endian value of a byte string, and the value that RFC 4251 gives to the
  body of an \<open>mpint\<close> whose top bit is clear.\<close>

fun be_value :: "bytes \<Rightarrow> nat" where
  "be_value [] = 0"
| "be_value (b # bs) = unat b * 256 ^ length bs + be_value bs"

lemma be_value_append: "be_value (xs @ ys) = be_value xs * 256 ^ length ys + be_value ys"
  by (induction xs) (simp_all add: power_add algebra_simps)

lemma mpint_start_bound: "data \<noteq> [] \<Longrightarrow> start < length data \<Longrightarrow> mpint_start data start < length data"
  by (induction data start rule: mpint_start.induct) (subst mpint_start.simps, auto)

lemma be_value_drop_mpint_start:
  "start \<le> length data \<Longrightarrow> be_value (drop (mpint_start data start) data) = be_value (drop start data)"
proof (induction data start rule: mpint_start.induct)
  case (1 data start)
  show ?case
  proof (cases "start + 1 < length data \<and> u8_at data start = 0")
    case True
    then have "drop start data = 0 # drop (start + 1) data"
      using Cons_nth_drop_Suc [of start data] by (auto simp: u8_at_def)
    then have "be_value (drop start data) = be_value (drop (start + 1) data)" by simp
    with 1 True show ?thesis by (simp add: mpint_start.simps [of data start])
  next
    case False
    then show ?thesis by (auto simp: mpint_start.simps [of data start])
  qed
qed

lemma mpint_start_minimal:
  "let s = drop (mpint_start data start) data in length s \<le> 1 \<or> u8_at s 0 \<noteq> 0"
proof (induction data start rule: mpint_start.induct)
  case (1 data start)
  then show ?case
    by (cases "start + 1 < length data \<and> u8_at data start = 0")
      (auto simp: mpint_start.simps [of data start] Let_def u8_at_def)
qed

lemma mpint_write_plain:
  "u8_set (writeUint32 (zeros (4 + length s)) 0 v) s 4 = be32 v @ s"
  by (simp add: buf_simps)

lemma mpint_write_padded:
  "u8_set (writeUint32 (zeros (5 + length s)) 0 v) s 5 = be32 v @ 0 # s"
proof -
  have "writeUint32 (zeros (5 + length s)) 0 v = be32 v @ zeros (1 + length s)"
    by (simp add: buf_simps)
  also have "\<dots> = (be32 v @ [0]) @ zeros (length s)" by (simp add: zeros_def)
  finally show ?thesis using u8_set_append [of 5 "be32 v @ [0]" s "length s"] by simp
qed

lemma toSSHMPInt_eq:
  "toSSHMPInt data =
     (let s = drop (mpint_start data 0) data;
          body = (if s \<noteq> [] \<and> u8_at s 0 AND 0x80 \<noteq> 0 then 0 # s else s)
      in be32 (length body) @ body)"
  unfolding toSSHMPInt_def Let_def
  using mpint_write_plain [of "drop (mpint_start data 0) data"]
    mpint_write_padded [of "drop (mpint_start data 0) data"] mpint_write_plain [of "[]" 0]
  by (simp del: drop_eq_Nil length_drop)

lemma toSSHMPInt_correct:
  fixes data :: bytes
  defines "body \<equiv> drop 4 (toSSHMPInt data)"
  shows "toSSHMPInt data = be32 (length body) @ body"
    and "be_value body = be_value data"
    and "body \<noteq> [] \<Longrightarrow> \<not> bit (hd body) 7"
    and "2 \<le> length body \<Longrightarrow> hd body = 0 \<Longrightarrow> bit (body ! 1) 7"
proof -
  define s where "s = drop (mpint_start data 0) data"
  have body: "body = (if s \<noteq> [] \<and> u8_at s 0 AND 0x80 \<noteq> 0 then 0 # s else s)"
    unfolding body_def toSSHMPInt_eq Let_def s_def by simp
  have top: "(b AND 0x80 \<noteq> 0) = bit b 7" for b :: byte
  proof -
    have "(0x80 :: byte) = push_bit 7 1" by simp
    then show ?thesis by (metis and_exp_eq_0_iff_not_bit push_bit_of_1)
  qed
  have v: "be_value s = be_value data"
    using be_value_drop_mpint_start [of 0 data] by (simp add: s_def)
  have m: "length s \<le> 1 \<or> u8_at s 0 \<noteq> 0"
    using mpint_start_minimal [of data 0] by (simp add: Let_def s_def)
  show "toSSHMPInt data = be32 (length body) @ body"
    unfolding body toSSHMPInt_eq Let_def s_def by simp
  show "be_value body = be_value data" using v by (simp add: body)
  show "\<not> bit (hd body) 7" if "body \<noteq> []"
    using that by (auto simp: body top u8_at_def hd_conv_nth split: if_splits)
  show "bit (body ! 1) 7" if "2 \<le> length body" "hd body = 0"
    using that m by (auto simp: body top u8_at_def hd_conv_nth split: if_splits)
qed

subsection \<open>Properties\<close>

text \<open>\<open>toSSHMPInt\<close> produces a length-prefixed body that denotes the same number as the input,
  is never read as negative, and carries no superfluous leading zero byte except the single one that
  stands for the number zero.\<close>

lemma toSSHMPInt_mpint:
  "\<exists>body. toSSHMPInt data = be32 (length body) @ body \<and> be_value body = be_value data
    \<and> (body \<noteq> [] \<longrightarrow> \<not> bit (hd body) 7)
    \<and> (2 \<le> length body \<longrightarrow> hd body = 0 \<longrightarrow> bit (body ! 1) 7)
    \<and> length body \<le> length data + 1"
proof (intro exI conjI impI)
  note c = toSSHMPInt_correct [of data]
  show "toSSHMPInt data = be32 (length (drop 4 (toSSHMPInt data))) @ drop 4 (toSSHMPInt data)"
    "be_value (drop 4 (toSSHMPInt data)) = be_value data" using c(1,2) .
  show "\<not> bit (hd (drop 4 (toSSHMPInt data))) 7" if "drop 4 (toSSHMPInt data) \<noteq> []" using c(3) that .
  show "bit (drop 4 (toSSHMPInt data) ! 1) 7"
    if "2 \<le> length (drop 4 (toSSHMPInt data))" "hd (drop 4 (toSSHMPInt data)) = 0" using c(4) that .
  show "length (drop 4 (toSSHMPInt data)) \<le> length data + 1" by (auto simp: toSSHMPInt_eq Let_def)
qed

end
