(* ===== verification/Sftp_Codec.thy ===== *)
theory Sftp_Codec
  imports Ssh_Utils
begin

text \<open>
  The SFTP version 3 wire codec: \<^verbatim>\<open>worker/src/webssh/ssh/sftp-types.ts\<close> and the functions
  and the \<open>Reader\<close> class of \<^verbatim>\<open>sftp.ts\<close>. Every encoder and every reader method is a
  definition; a thrown error is a value of \<open>sftp_error\<close> with the label the source gives it. The lemmas
  show that the readers invert the encoders, for attribute blocks with any combination of optional
  fields and for 64-bit sizes in both of their display forms.
\<close>

unbundle bit_operations_syntax

subsection \<open>Types and constants\<close>

datatype sftp_error =
    SProtocol string
  | SRange string
  | SType string
  | SStatus nat nat string string
  | STimeout nat
  | SState string

definition SFTP_VERSION :: nat where "SFTP_VERSION = 3"

definition SFTP_INIT :: byte where "SFTP_INIT = 1"
definition SFTP_VERSION_PACKET :: byte where "SFTP_VERSION_PACKET = 2"
definition SFTP_OPEN :: byte where "SFTP_OPEN = 3"
definition SFTP_CLOSE :: byte where "SFTP_CLOSE = 4"
definition SFTP_READ :: byte where "SFTP_READ = 5"
definition SFTP_WRITE :: byte where "SFTP_WRITE = 6"
definition SFTP_OPENDIR :: byte where "SFTP_OPENDIR = 11"
definition SFTP_READDIR :: byte where "SFTP_READDIR = 12"
definition SFTP_REMOVE :: byte where "SFTP_REMOVE = 13"
definition SFTP_MKDIR :: byte where "SFTP_MKDIR = 14"
definition SFTP_RMDIR :: byte where "SFTP_RMDIR = 15"
definition SFTP_REALPATH :: byte where "SFTP_REALPATH = 16"
definition SFTP_STAT :: byte where "SFTP_STAT = 17"
definition SFTP_RENAME :: byte where "SFTP_RENAME = 18"
definition SFTP_STATUS_PACKET :: byte where "SFTP_STATUS_PACKET = 101"
definition SFTP_HANDLE :: byte where "SFTP_HANDLE = 102"
definition SFTP_DATA :: byte where "SFTP_DATA = 103"
definition SFTP_NAME :: byte where "SFTP_NAME = 104"
definition SFTP_ATTRS :: byte where "SFTP_ATTRS = 105"

lemmas sftp_packet_types = SFTP_INIT_def SFTP_VERSION_PACKET_def SFTP_OPEN_def SFTP_CLOSE_def SFTP_READ_def
  SFTP_WRITE_def SFTP_OPENDIR_def SFTP_READDIR_def SFTP_REMOVE_def SFTP_MKDIR_def SFTP_RMDIR_def
  SFTP_REALPATH_def SFTP_STAT_def SFTP_RENAME_def SFTP_STATUS_PACKET_def SFTP_HANDLE_def SFTP_DATA_def
  SFTP_NAME_def SFTP_ATTRS_def

definition STATUS_OK :: nat where "STATUS_OK = 0"
definition STATUS_EOF :: nat where "STATUS_EOF = 1"

definition ATTR_SIZE :: u32 where "ATTR_SIZE = 0x00000001"
definition ATTR_UID_GID :: u32 where "ATTR_UID_GID = 0x00000002"
definition ATTR_PERMISSIONS :: u32 where "ATTR_PERMISSIONS = 0x00000004"
definition ATTR_ACCESS_MODIFY_TIME :: u32 where "ATTR_ACCESS_MODIFY_TIME = 0x00000008"
definition ATTR_EXTENDED :: u32 where "ATTR_EXTENDED = 0x80000000"

definition KNOWN_ATTR_FLAGS :: u32 where
  "KNOWN_ATTR_FLAGS = ATTR_SIZE OR ATTR_UID_GID OR ATTR_PERMISSIONS OR ATTR_ACCESS_MODIFY_TIME OR ATTR_EXTENDED"

lemmas attr_flag_defs = ATTR_SIZE_def ATTR_UID_GID_def ATTR_PERMISSIONS_def ATTR_ACCESS_MODIFY_TIME_def
  ATTR_EXTENDED_def

datatype SFTPUint64Input = U64Number js_number | U64BigInt int | U64String string
datatype SFTPSize = SizeNumber nat | SizeText string
datatype ext_data = ExtText string | ExtBytes bytes

record SFTPAttrs =
  attr_flags :: u32
  attr_size :: "SFTPSize option"
  attr_uid :: "nat option"
  attr_gid :: "nat option"
  attr_permissions :: "nat option"
  attr_atime :: "nat option"
  attr_mtime :: "nat option"
  attr_extended :: "(string \<times> bytes) list option"

record SFTPAttrsInput =
  in_size :: "SFTPUint64Input option"
  in_uid :: "js_number option"
  in_gid :: "js_number option"
  in_permissions :: "js_number option"
  in_atime :: "js_number option"
  in_mtime :: "js_number option"
  in_extended :: "(string \<times> ext_data) list option"

record SFTPDirEntry =
  entry_filename :: string
  entry_longname :: string
  entry_attrs :: SFTPAttrs

subsection \<open>Numbers\<close>

definition U32_MAX :: int where "U32_MAX = 0xffffffff"
definition UINT64_MAX :: int where "UINT64_MAX = 2 ^ 64 - 1"

fun uint32 :: "js_number \<Rightarrow> string \<Rightarrow> (sftp_error, nat) result" where
  "uint32 (JSInt v) label = (if v < 0 \<or> U32_MAX < v then Inl (SRange label) else Inr (nat v))"
| "uint32 JSOther label = Inl (SRange label)"

fun positiveInteger :: "js_number \<Rightarrow> string \<Rightarrow> (sftp_error, nat) result" where
  "positiveInteger (JSInt v) label =
     (if \<not> is_safe_integer (JSInt v) \<or> v \<le> 0 then Inl (SRange label) else Inr (nat v))"
| "positiveInteger JSOther label = Inl (SRange label)"

definition check_uint64 :: "int \<Rightarrow> string \<Rightarrow> (sftp_error, nat) result" where
  "check_uint64 v label = (if v < 0 \<or> UINT64_MAX < v then Inl (SRange label) else Inr (nat v))"

fun toUint64 :: "SFTPUint64Input \<Rightarrow> string \<Rightarrow> (sftp_error, nat) result" where
  "toUint64 (U64BigInt v) label = check_uint64 v label"
| "toUint64 (U64Number n) label =
     (case n of
        JSInt v \<Rightarrow> if \<not> is_safe_integer (JSInt v) then Inl (SRange label) else check_uint64 v label
      | JSOther \<Rightarrow> Inl (SRange label))"
| "toUint64 (U64String s) label =
     (if \<not> (s \<noteq> [] \<and> list_all digit_char s) then Inl (SRange label)
      else check_uint64 (int (decimal_value s)) label)"

definition displayUint64 :: "nat \<Rightarrow> SFTPSize" where
  "displayUint64 value = (if int value \<le> MAX_SAFE_INTEGER then SizeNumber value else SizeText (show_nat value))"

subsection \<open>Encoders\<close>

text \<open>\<open>DataView.setUint32\<close> on a fresh buffer.\<close>

definition encodeUint32L :: "js_number \<Rightarrow> string \<Rightarrow> (sftp_error, bytes) result" where
  "encodeUint32L value label = and_then (uint32 value label) (\<lambda>v. Inr (writeUint32 (zeros 4) 0 v))"

definition encodeUint64 :: "SFTPUint64Input \<Rightarrow> string \<Rightarrow> (sftp_error, bytes) result" where
  "encodeUint64 value label =
     and_then (toUint64 value label) (\<lambda>integer.
       Inr (writeUint32 (writeUint32 (zeros 8) 0 (integer div 2 ^ 32)) 4 (integer mod 2 ^ 32)))"

definition encodeBytesL :: "bytes \<Rightarrow> string \<Rightarrow> (sftp_error, bytes) result" where
  "encodeBytesL d label =
     (if U32_MAX < int (length d) then Inl (SRange label)
      else Inr (u8_set (writeUint32 (zeros (4 + length d)) 0 (length d)) d 4))"

definition encodeTextL :: "string \<Rightarrow> string \<Rightarrow> (sftp_error, bytes) result" where
  "encodeTextL s label = encodeBytesL (utf8_encode s) label"

text \<open>\<open>join\<close>: the safe-integer test on the running length cannot fail for arrays in memory.\<close>

definition join :: "bytes list \<Rightarrow> bytes" where
  "join parts = concat_arrays parts"

fun ext_bytes :: "ext_data \<Rightarrow> bytes" where
  "ext_bytes (ExtText s) = utf8_encode s"
| "ext_bytes (ExtBytes d) = d"

fun encode_extensions :: "(string \<times> ext_data) list \<Rightarrow> (sftp_error, bytes list) result" where
  "encode_extensions [] = Inr []"
| "encode_extensions ((type, data) # es) =
     and_then (encodeTextL type ''extended attribute type'') (\<lambda>a.
     and_then (encodeBytesL (ext_bytes data) ''extended attribute data'') (\<lambda>b.
     and_then (encode_extensions es) (\<lambda>rest. Inr (a # b # rest))))"

definition encode_pair ::
  "js_number option \<Rightarrow> string \<Rightarrow> js_number option \<Rightarrow> string \<Rightarrow> u32 \<Rightarrow> u32 \<times> bytes list
   \<Rightarrow> (sftp_error, u32 \<times> bytes list) result" where
  "encode_pair a labelA b labelB flag acc =
     (case (a, b) of
        (Some x, Some y) \<Rightarrow>
          and_then (encodeUint32L x labelA) (\<lambda>p.
          and_then (encodeUint32L y labelB) (\<lambda>q. Inr (fst acc OR flag, snd acc @ [p, q])))
      | _ \<Rightarrow> Inr acc)"

definition encodeAttrs :: "SFTPAttrsInput option \<Rightarrow> nat \<Rightarrow> (sftp_error, bytes) result" where
  "encodeAttrs input maxExtended =
     (case input of
        None \<Rightarrow> encodeUint32L (JSInt 0) ''attribute flags''
      | Some attrs \<Rightarrow>
          and_then
            (case in_size attrs of
               None \<Rightarrow> Inr (0, [])
             | Some v \<Rightarrow> and_then (encodeUint64 v ''file size'') (\<lambda>b. Inr (ATTR_SIZE, [b]))) (\<lambda>acc.
          if (in_uid attrs = None) \<noteq> (in_gid attrs = None) then Inl (SType ''uid and gid'')
          else and_then (encode_pair (in_uid attrs) ''uid'' (in_gid attrs) ''gid'' ATTR_UID_GID acc) (\<lambda>acc.
          and_then
            (case in_permissions attrs of
               None \<Rightarrow> Inr acc
             | Some v \<Rightarrow> and_then (encodeUint32L v ''permissions'')
                 (\<lambda>b. Inr (fst acc OR ATTR_PERMISSIONS, snd acc @ [b]))) (\<lambda>acc.
          if (in_atime attrs = None) \<noteq> (in_mtime attrs = None) then Inl (SType ''atime and mtime'')
          else and_then (encode_pair (in_atime attrs) ''access time'' (in_mtime attrs) ''modification time''
                           ATTR_ACCESS_MODIFY_TIME acc) (\<lambda>acc.
          and_then
            (case in_extended attrs of
               None \<Rightarrow> Inr acc
             | Some es \<Rightarrow>
                 if maxExtended < length es then Inl (SRange ''extended attributes'')
                 else and_then (encodeUint32L (JSInt (int (length es))) ''extended attribute count'') (\<lambda>n.
                      and_then (encode_extensions es) (\<lambda>bs.
                      Inr (fst acc OR ATTR_EXTENDED, snd acc @ [n] @ bs)))) (\<lambda>acc.
          and_then (encodeUint32L (JSInt (int (unat (fst acc)))) ''attribute flags'') (\<lambda>f.
          Inr (join (f # snd acc)))))))))"

subsection \<open>The reader\<close>

record Reader =
  rd_data :: bytes
  rd_offset :: nat

definition new_Reader :: "bytes \<Rightarrow> Reader" where
  "new_Reader data = \<lparr>rd_data = data, rd_offset = 0\<rparr>"

definition remaining :: "Reader \<Rightarrow> nat" where
  "remaining r = length (rd_data r) - rd_offset r"

definition require :: "Reader \<Rightarrow> nat \<Rightarrow> string \<Rightarrow> (sftp_error, unit) result" where
  "require r n label = (if remaining r < n then Inl (SProtocol label) else Inr ())"

definition rd_byte :: "Reader \<Rightarrow> string \<Rightarrow> (sftp_error, byte \<times> Reader) result" where
  "rd_byte r label =
     and_then (require r 1 label) (\<lambda>_. Inr (rd_data r ! rd_offset r, r\<lparr>rd_offset := rd_offset r + 1\<rparr>))"

definition rd_uint32 :: "Reader \<Rightarrow> string \<Rightarrow> (sftp_error, nat \<times> Reader) result" where
  "rd_uint32 r label =
     and_then (require r 4 label)
       (\<lambda>_. Inr (readUint32 (rd_data r) (rd_offset r), r\<lparr>rd_offset := rd_offset r + 4\<rparr>))"

definition rd_uint64 :: "Reader \<Rightarrow> string \<Rightarrow> (sftp_error, nat \<times> Reader) result" where
  "rd_uint64 r label =
     and_then (rd_uint32 r label) (\<lambda>(high, r). and_then (rd_uint32 r label) (\<lambda>(low, r). Inr (high * 2 ^ 32 + low, r)))"

definition rd_bytes :: "Reader \<Rightarrow> nat \<Rightarrow> string \<Rightarrow> (sftp_error, bytes \<times> Reader) result" where
  "rd_bytes r n label =
     and_then (require r n label)
       (\<lambda>_. Inr (subarray (rd_data r) (rd_offset r) (rd_offset r + n), r\<lparr>rd_offset := rd_offset r + n\<rparr>))"

definition rd_string_bytes :: "Reader \<Rightarrow> string \<Rightarrow> (sftp_error, bytes \<times> Reader) result" where
  "rd_string_bytes r label = and_then (rd_uint32 r (label @ '' length'')) (\<lambda>(n, r). rd_bytes r n label)"

definition rd_text :: "Reader \<Rightarrow> string \<Rightarrow> (sftp_error, string \<times> Reader) result" where
  "rd_text r label =
     and_then (rd_string_bytes r label) (\<lambda>(d, r).
       case utf8_decode d of None \<Rightarrow> Inl (SProtocol label) | Some s \<Rightarrow> Inr (s, r))"

definition assert_end :: "Reader \<Rightarrow> string \<Rightarrow> (sftp_error, unit) result" where
  "assert_end r label = (if remaining r \<noteq> 0 then Inl (SProtocol label) else Inr ())"

fun rd_extensions :: "nat \<Rightarrow> Reader \<Rightarrow> (sftp_error, (string \<times> bytes) list \<times> Reader) result" where
  "rd_extensions 0 r = Inr ([], r)"
| "rd_extensions (Suc n) r =
     and_then (rd_text r ''extended attribute type'') (\<lambda>(type, r).
     and_then (rd_string_bytes r ''extended attribute data'') (\<lambda>(data, r).
     and_then (rd_extensions n r) (\<lambda>(es, r). Inr ((type, data) # es, r))))"

text \<open>An optional field: read when its flag is set.\<close>

definition rd_when ::
  "u32 \<Rightarrow> u32 \<Rightarrow> (Reader \<Rightarrow> (sftp_error, 'a \<times> Reader) result) \<Rightarrow> Reader \<Rightarrow> (sftp_error, 'a option \<times> Reader) result" where
  "rd_when flags flag rd r =
     (if flags AND flag \<noteq> 0 then and_then (rd r) (\<lambda>(v, r). Inr (Some v, r)) else Inr (None, r))"

definition rd_pair :: "string \<Rightarrow> string \<Rightarrow> Reader \<Rightarrow> (sftp_error, (nat \<times> nat) \<times> Reader) result" where
  "rd_pair a b r = and_then (rd_uint32 r a) (\<lambda>(x, r). and_then (rd_uint32 r b) (\<lambda>(y, r). Inr ((x, y), r)))"

definition rd_extended :: "nat \<Rightarrow> Reader \<Rightarrow> (sftp_error, (string \<times> bytes) list \<times> Reader) result" where
  "rd_extended maxExtended r =
     and_then (rd_uint32 r ''extended attribute count'') (\<lambda>(count, r).
       if maxExtended < count \<or> remaining r div 8 < count then Inl (SProtocol ''extended attribute count'')
       else rd_extensions count r)"

definition parseAttrs :: "Reader \<Rightarrow> nat \<Rightarrow> (sftp_error, SFTPAttrs \<times> Reader) result" where
  "parseAttrs r maxExtended =
     and_then (rd_uint32 r ''attribute flags'') (\<lambda>(n, r).
     let flags = word_of_nat n in
     if flags AND NOT KNOWN_ATTR_FLAGS \<noteq> 0 then Inl (SProtocol ''attribute flags'')
     else and_then (rd_when flags ATTR_SIZE (\<lambda>r. rd_uint64 r ''file size'') r) (\<lambda>(size, r).
     and_then (rd_when flags ATTR_UID_GID (rd_pair ''uid'' ''gid'') r) (\<lambda>(ids, r).
     and_then (rd_when flags ATTR_PERMISSIONS (\<lambda>r. rd_uint32 r ''permissions'') r) (\<lambda>(permissions, r).
     and_then (rd_when flags ATTR_ACCESS_MODIFY_TIME (rd_pair ''access time'' ''modification time'') r) (\<lambda>(times, r).
     and_then (rd_when flags ATTR_EXTENDED (rd_extended maxExtended) r) (\<lambda>(extended, r).
     Inr (\<lparr>attr_flags = flags, attr_size = map_option displayUint64 size,
            attr_uid = map_option fst ids, attr_gid = map_option snd ids, attr_permissions = permissions,
            attr_atime = map_option fst times, attr_mtime = map_option snd times, attr_extended = extended\<rparr>, r)))))))"

definition parseStatus :: "Reader \<Rightarrow> (sftp_error, nat \<times> string \<times> string) result" where
  "parseStatus r =
     and_then (rd_uint32 r ''status code'') (\<lambda>(code, r).
     and_then (rd_text r ''status description'') (\<lambda>(description, r).
     and_then (rd_text r ''status language'') (\<lambda>(language, r).
     and_then (assert_end r ''STATUS packet'') (\<lambda>_. Inr (code, description, language)))))"

subsection \<open>File modes\<close>

datatype SFTPFileKind = FileKind | DirectoryKind | SymlinkKind | SocketKind | BlockDevice | CharacterDevice | Fifo | UnknownKind

text \<open>\<open>value & 0o170000\<close> on a 32-bit integer; \<open>None\<close> is \<open>undefined\<close>.\<close>

definition MODE_TYPE_MASK :: u32 where "MODE_TYPE_MASK = 0xF000"

definition getSFTPFileKind :: "u32 option \<Rightarrow> SFTPFileKind" where
  "getSFTPFileKind value =
     (case value of
        None \<Rightarrow> UnknownKind
      | Some permissions \<Rightarrow>
          let m = permissions AND MODE_TYPE_MASK in
          if m = 0x8000 then FileKind
          else if m = 0x4000 then DirectoryKind
          else if m = 0xA000 then SymlinkKind
          else if m = 0xC000 then SocketKind
          else if m = 0x6000 then BlockDevice
          else if m = 0x2000 then CharacterDevice
          else if m = 0x1000 then Fifo
          else UnknownKind)"

definition kind_prefix :: "SFTPFileKind \<Rightarrow> char" where
  "kind_prefix k =
     (case k of FileKind \<Rightarrow> CHR ''-'' | DirectoryKind \<Rightarrow> CHR ''d'' | SymlinkKind \<Rightarrow> CHR ''l'' | SocketKind \<Rightarrow> CHR ''s''
      | BlockDevice \<Rightarrow> CHR ''b'' | CharacterDevice \<Rightarrow> CHR ''c'' | Fifo \<Rightarrow> CHR ''p'' | UnknownKind \<Rightarrow> CHR ''?'')"

definition flag_char :: "u32 \<Rightarrow> u32 \<Rightarrow> char \<Rightarrow> char" where
  "flag_char permissions m c = (if permissions AND m \<noteq> 0 then c else CHR ''-'')"

definition formatSFTPPermissions :: "u32 option \<Rightarrow> string" where
  "formatSFTPPermissions value =
     (case value of
        None \<Rightarrow> ''??????????''
      | Some p \<Rightarrow>
          let bits = [flag_char p 256 CHR ''r'', flag_char p 128 CHR ''w'', flag_char p 64 CHR ''x'',
                      flag_char p 32 CHR ''r'', flag_char p 16 CHR ''w'', flag_char p 8 CHR ''x'',
                      flag_char p 4 CHR ''r'', flag_char p 2 CHR ''w'', flag_char p 1 CHR ''x''];
              bits = (if p AND 2048 \<noteq> 0 then bits[2 := if p AND 64 \<noteq> 0 then CHR ''s'' else CHR ''S''] else bits);
              bits = (if p AND 1024 \<noteq> 0 then bits[5 := if p AND 8 \<noteq> 0 then CHR ''s'' else CHR ''S''] else bits);
              bits = (if p AND 512 \<noteq> 0 then bits[8 := if p AND 1 \<noteq> 0 then CHR ''t'' else CHR ''T''] else bits)
          in kind_prefix (getSFTPFileKind (Some p)) # bits)"

subsection \<open>Readers invert encoders\<close>

text \<open>A reader that has consumed \<open>pre\<close> and has \<open>rest\<close> ahead of it.\<close>

definition reader :: "bytes \<Rightarrow> bytes \<Rightarrow> Reader" where
  "reader pre rest = \<lparr>rd_data = pre @ rest, rd_offset = length pre\<rparr>"

lemma new_Reader_reader: "new_Reader d = reader [] d"
  by (simp add: new_Reader_def reader_def)

lemma remaining_reader [simp]: "remaining (reader pre rest) = length rest"
  by (simp add: remaining_def reader_def)

lemma rd_uint32_reader [wire_simps]:
  "v < 2 ^ 32 \<Longrightarrow> rd_uint32 (reader pre (be32 v @ rest)) label = Inr (v, reader (pre @ be32 v) rest)"
  by (simp add: rd_uint32_def require_def remaining_def reader_def readUint32_be32)

lemma rd_byte_reader [wire_simps]: "rd_byte (reader pre (b # rest)) label = Inr (b, reader (pre @ [b]) rest)"
  by (simp add: rd_byte_def require_def remaining_def reader_def)

lemma rd_bytes_reader [wire_simps]:
  "n = length d \<Longrightarrow> rd_bytes (reader pre (d @ rest)) n label = Inr (d, reader (pre @ d) rest)"
  by (simp add: rd_bytes_def require_def remaining_def reader_def subarray_def)

lemma rd_uint64_reader [wire_simps]:
  assumes "v < 2 ^ 64"
  shows "rd_uint64 (reader pre (be32 (v div 2 ^ 32) @ be32 (v mod 2 ^ 32) @ rest)) label
       = Inr (v, reader (pre @ be32 (v div 2 ^ 32) @ be32 (v mod 2 ^ 32)) rest)"
proof -
  have "v div 2 ^ 32 < 2 ^ 32" "v mod 2 ^ 32 < 2 ^ 32" using assms by (auto simp: less_mult_imp_div_less)
  moreover have "v div 2 ^ 32 * 2 ^ 32 + v mod 2 ^ 32 = v" by (rule div_mult_mod_eq)
  ultimately show ?thesis unfolding rd_uint64_def by (simp only: rd_uint32_reader and_then_simps prod.case append_assoc)
qed

lemma rd_string_bytes_reader [wire_simps]:
  "length d < 2 ^ 32 \<Longrightarrow> rd_string_bytes (reader pre (encodeString d @ rest)) label
     = Inr (d, reader (pre @ encodeString d) rest)"
  by (simp add: rd_string_bytes_def encodeString_eq rd_uint32_reader rd_bytes_reader)

lemma rd_text_reader [wire_simps]:
  "length s < 2 ^ 32 \<Longrightarrow> text_ok s \<Longrightarrow> rd_text (reader pre (encodeStringText s @ rest)) label
     = Inr (s, reader (pre @ encodeStringText s) rest)"
  by (simp add: rd_text_def encodeStringText_def rd_string_bytes_reader utf8_decode_encode)

lemma encodeUint32L_eq:
  "encodeUint32L x label = Inr b \<longleftrightarrow> (\<exists>v. x = JSInt (int v) \<and> v < 2 ^ 32 \<and> b = be32 v)"
  by (cases x) (auto simp: encodeUint32L_def and_then_Inr_iff buf_simps U32_MAX_def intro!: exI [of _ "nat _"])

lemma encodeBytesL_eq: "encodeBytesL d label = Inr b \<longleftrightarrow> length d < 2 ^ 32 \<and> b = encodeString d"
  by (auto simp: encodeBytesL_def encodeString_def U32_MAX_def)

lemma encodeTextL_eq: "encodeTextL s label = Inr b \<longleftrightarrow> length s < 2 ^ 32 \<and> b = encodeStringText s"
  by (simp add: encodeTextL_def encodeBytesL_eq encodeStringText_def)

lemma toUint64_bound: "toUint64 x label = Inr v \<Longrightarrow> v < 2 ^ 64"
  by (cases x; cases "case x of U64Number n \<Rightarrow> n | _ \<Rightarrow> JSOther")
    (auto simp: check_uint64_def UINT64_MAX_def nat_less_iff split: if_splits js_number.splits)

lemma encodeUint64_eq:
  "encodeUint64 x label = Inr b \<longleftrightarrow>
     (\<exists>v. toUint64 x label = Inr v \<and> v < 2 ^ 64 \<and> b = be32 (v div 2 ^ 32) @ be32 (v mod 2 ^ 32))"
  by (auto simp: encodeUint64_def and_then_Inr_iff buf_simps dest: toUint64_bound [simplified])

text \<open>The wire form of an attribute block, field by field.\<close>

definition ext_wire :: "(string \<times> ext_data) list \<Rightarrow> bytes" where
  "ext_wire es = concat (map (\<lambda>(t, d). encodeStringText t @ encodeString (ext_bytes d)) es)"

lemma encode_extensions_eq:
  "encode_extensions es = Inr bs \<Longrightarrow>
     concat bs = ext_wire es \<and> (\<forall>(t, d) \<in> set es. length t < 2 ^ 32 \<and> length (ext_bytes d) < 2 ^ 32)"
  by (induction es arbitrary: bs rule: encode_extensions.induct)
    (fastforce simp: and_then_Inr_iff encodeBytesL_eq encodeTextL_eq ext_wire_def)+

lemma ext_wire_length: "8 * length es \<le> length (ext_wire es)"
  by (induction es) (auto simp: ext_wire_def encodeStringText_def)

lemma rd_extensions_wire:
  "\<forall>(t, d) \<in> set es. length t < 2 ^ 32 \<and> length (ext_bytes d) < 2 ^ 32 \<and> text_ok t \<Longrightarrow>
   rd_extensions (length es) (reader pre (ext_wire es @ rest))
     = Inr (map (\<lambda>(t, d). (t, ext_bytes d)) es, reader (pre @ ext_wire es) rest)"
proof (induction es arbitrary: pre)
  case Nil
  then show ?case by (simp add: ext_wire_def)
next
  case (Cons e es)
  obtain t d where e: "e = (t, d)" by fastforce
  have w: "ext_wire (e # es) = encodeStringText t @ encodeString (ext_bytes d) @ ext_wire es"
    by (simp add: e ext_wire_def)
  show ?case unfolding w
    using Cons by (simp add: e rd_text_reader rd_string_bytes_reader)
qed

definition flag_word :: "bool \<Rightarrow> bool \<Rightarrow> bool \<Rightarrow> bool \<Rightarrow> bool \<Rightarrow> u32" where
  "flag_word a b c d e =
     (if a then ATTR_SIZE else 0) OR (if b then ATTR_UID_GID else 0) OR (if c then ATTR_PERMISSIONS else 0)
     OR (if d then ATTR_ACCESS_MODIFY_TIME else 0) OR (if e then ATTR_EXTENDED else 0)"

lemma flag_word_tests:
  "flag_word a b c d e AND ATTR_SIZE \<noteq> 0 \<longleftrightarrow> a"
  "flag_word a b c d e AND ATTR_UID_GID \<noteq> 0 \<longleftrightarrow> b"
  "flag_word a b c d e AND ATTR_PERMISSIONS \<noteq> 0 \<longleftrightarrow> c"
  "flag_word a b c d e AND ATTR_ACCESS_MODIFY_TIME \<noteq> 0 \<longleftrightarrow> d"
  "flag_word a b c d e AND ATTR_EXTENDED \<noteq> 0 \<longleftrightarrow> e"
  "flag_word a b c d e AND NOT KNOWN_ATTR_FLAGS = 0"
  by (cases a; cases b; cases c; cases d; cases e; simp add: flag_word_def attr_flag_defs KNOWN_ATTR_FLAGS_def)+

text \<open>What each optional field puts on the wire.\<close>

definition opt_wire :: "'a option \<Rightarrow> ('a \<Rightarrow> bytes) \<Rightarrow> bytes" where
  "opt_wire x f = (case x of None \<Rightarrow> [] | Some v \<Rightarrow> f v)"

definition u64_wire :: "nat \<Rightarrow> bytes" where
  "u64_wire v = be32 (v div 2 ^ 32) @ be32 (v mod 2 ^ 32)"

definition pair_wire :: "nat \<times> nat \<Rightarrow> bytes" where
  "pair_wire p = be32 (fst p) @ be32 (snd p)"

text \<open>The numbers an input denotes; \<open>None\<close> for a field that is absent.\<close>

definition num_of :: "js_number \<Rightarrow> nat" where
  "num_of x = (case x of JSInt v \<Rightarrow> nat v | JSOther \<Rightarrow> 0)"

definition size_of_input :: "SFTPUint64Input \<Rightarrow> nat" where
  "size_of_input x = (case toUint64 x [] of Inr v \<Rightarrow> v | Inl _ \<Rightarrow> 0)"

definition pair_of :: "js_number option \<Rightarrow> js_number option \<Rightarrow> (nat \<times> nat) option" where
  "pair_of a b = (case (a, b) of (Some x, Some y) \<Rightarrow> Some (num_of x, num_of y) | _ \<Rightarrow> None)"

definition attrs_of_input :: "SFTPAttrsInput \<Rightarrow> SFTPAttrs" where
  "attrs_of_input a =
     \<lparr>attr_flags = flag_word (in_size a \<noteq> None) (in_uid a \<noteq> None) (in_permissions a \<noteq> None) (in_atime a \<noteq> None)
        (in_extended a \<noteq> None),
      attr_size = map_option (\<lambda>x. displayUint64 (size_of_input x)) (in_size a),
      attr_uid = map_option num_of (in_uid a), attr_gid = map_option num_of (in_gid a),
      attr_permissions = map_option num_of (in_permissions a),
      attr_atime = map_option num_of (in_atime a), attr_mtime = map_option num_of (in_mtime a),
      attr_extended = map_option (map (\<lambda>(t, d). (t, ext_bytes d))) (in_extended a)\<rparr>"

definition attrs_wire :: "SFTPAttrsInput \<Rightarrow> bytes" where
  "attrs_wire a =
     be32 (unat (attr_flags (attrs_of_input a))) @ opt_wire (in_size a) (\<lambda>x. u64_wire (size_of_input x))
     @ opt_wire (pair_of (in_uid a) (in_gid a)) pair_wire @ opt_wire (in_permissions a) (\<lambda>x. be32 (num_of x))
     @ opt_wire (pair_of (in_atime a) (in_mtime a)) pair_wire
     @ opt_wire (in_extended a) (\<lambda>es. be32 (length es) @ ext_wire es)"

definition attrs_fit :: "SFTPAttrsInput \<Rightarrow> nat \<Rightarrow> bool" where
  "attrs_fit a maxExtended \<longleftrightarrow>
     (\<forall>x. in_size a = Some x \<longrightarrow> size_of_input x < 2 ^ 64)
     \<and> (in_uid a = None \<longleftrightarrow> in_gid a = None) \<and> (in_atime a = None \<longleftrightarrow> in_mtime a = None)
     \<and> (\<forall>x \<in> set_option (in_uid a) \<union> set_option (in_gid a) \<union> set_option (in_permissions a)
          \<union> set_option (in_atime a) \<union> set_option (in_mtime a). num_of x < 2 ^ 32)
     \<and> (\<forall>es. in_extended a = Some es \<longrightarrow> length es \<le> maxExtended \<and> length es < 2 ^ 32
          \<and> (\<forall>(t, d) \<in> set es. length t < 2 ^ 32 \<and> length (ext_bytes d) < 2 ^ 32))"

lemma toUint64_label: "toUint64 x l = Inr v \<Longrightarrow> toUint64 x l' = Inr v"
  by (cases x) (auto simp: check_uint64_def split: if_splits js_number.splits)

lemma guard_Inr_iff: "(if P then Inl e else r) = Inr x \<longleftrightarrow> \<not> P \<and> r = Inr x"
  by simp

lemma encodeAttrs_size:
  "(case s of None \<Rightarrow> Inr (0, []) | Some v \<Rightarrow> and_then (encodeUint64 v label) (\<lambda>b. Inr (ATTR_SIZE, [b]))) = Inr acc \<Longrightarrow>
   fst acc = (if s \<noteq> None then ATTR_SIZE else 0) \<and> concat (snd acc) = opt_wire s (\<lambda>x. u64_wire (size_of_input x))
   \<and> (\<forall>x. s = Some x \<longrightarrow> size_of_input x < 2 ^ 64)"
  by (auto simp: and_then_Inr_iff encodeUint64_eq opt_wire_def u64_wire_def size_of_input_def
      dest: toUint64_label [where l' = "[]"] split: option.splits sum.splits)

lemma encode_pair_eq:
  "encode_pair a l b m flag acc = Inr acc' \<Longrightarrow> (a = None) = (b = None) \<Longrightarrow>
   fst acc' = fst acc OR (if a \<noteq> None then flag else 0) \<and> concat (snd acc') = concat (snd acc) @ opt_wire (pair_of a b) pair_wire
   \<and> (\<forall>x \<in> set_option a \<union> set_option b. num_of x < 2 ^ 32)"
  by (auto simp: encode_pair_def and_then_Inr_iff encodeUint32L_eq opt_wire_def pair_wire_def pair_of_def num_of_def
      split: option.splits)

lemma encodeAttrs_wire:
  assumes "encodeAttrs (Some a) maxExtended = Inr bs"
  shows "bs = attrs_wire a \<and> attrs_fit a maxExtended"
proof -
  from assms obtain a1 a2 a3 a4 a5 f where
    1: "(case in_size a of None \<Rightarrow> Inr (0, []) | Some v \<Rightarrow> and_then (encodeUint64 v ''file size'') (\<lambda>b. Inr (ATTR_SIZE, [b]))) = Inr a1"
    and g1: "(in_uid a = None) = (in_gid a = None)"
    and 2: "encode_pair (in_uid a) ''uid'' (in_gid a) ''gid'' ATTR_UID_GID a1 = Inr a2"
    and 3: "(case in_permissions a of None \<Rightarrow> Inr a2 | Some v \<Rightarrow> and_then (encodeUint32L v ''permissions'')
                 (\<lambda>b. Inr (fst a2 OR ATTR_PERMISSIONS, snd a2 @ [b]))) = Inr a3"
    and g2: "(in_atime a = None) = (in_mtime a = None)"
    and 4: "encode_pair (in_atime a) ''access time'' (in_mtime a) ''modification time'' ATTR_ACCESS_MODIFY_TIME a3 = Inr a4"
    and 5: "(case in_extended a of None \<Rightarrow> Inr a4
             | Some es \<Rightarrow>
                 if maxExtended < length es then Inl (SRange ''extended attributes'')
                 else and_then (encodeUint32L (JSInt (int (length es))) ''extended attribute count'') (\<lambda>n.
                      and_then (encode_extensions es) (\<lambda>bs. Inr (fst a4 OR ATTR_EXTENDED, snd a4 @ [n] @ bs)))) = Inr a5"
    and f: "encodeUint32L (JSInt (int (unat (fst a5)))) ''attribute flags'' = Inr f" and "(Inr (join (f # snd a5)) :: (sftp_error, bytes) result) = Inr bs"
    unfolding encodeAttrs_def option.case and_then_Inr_iff guard_Inr_iff not_not by (elim exE conjE) (rule that)
  then have bs: "bs = join (f # snd a5)" by simp
  note e1 = encodeAttrs_size [OF 1] and e2 = encode_pair_eq [OF 2 g1] and e4 = encode_pair_eq [OF 4 g2]
  have e3: "fst a3 = fst a2 OR (if in_permissions a \<noteq> None then ATTR_PERMISSIONS else 0)
      \<and> concat (snd a3) = concat (snd a2) @ opt_wire (in_permissions a) (\<lambda>x. be32 (num_of x))
      \<and> (\<forall>x \<in> set_option (in_permissions a). num_of x < 2 ^ 32)"
    using 3 by (auto simp: and_then_Inr_iff encodeUint32L_eq opt_wire_def num_of_def split: option.splits)
  have e5: "fst a5 = fst a4 OR (if in_extended a \<noteq> None then ATTR_EXTENDED else 0)
      \<and> concat (snd a5) = concat (snd a4) @ opt_wire (in_extended a) (\<lambda>es. be32 (length es) @ ext_wire es)
      \<and> (\<forall>es. in_extended a = Some es \<longrightarrow> length es \<le> maxExtended \<and> length es < 2 ^ 32
          \<and> (\<forall>(t, d) \<in> set es. length t < 2 ^ 32 \<and> length (ext_bytes d) < 2 ^ 32))"
    using 5 by (auto simp: and_then_Inr_iff encodeUint32L_eq opt_wire_def split: option.splits if_splits dest!: encode_extensions_eq)
  have flags: "fst a5 = attr_flags (attrs_of_input a)"
    using e1 e2 e3 e4 e5 by (simp add: attrs_of_input_def flag_word_def or.assoc)
  have ff: "f = be32 (unat (attr_flags (attrs_of_input a)))"
    using f flags unfolding encodeUint32L_eq by (metis js_number.inject of_nat_eq_iff)
  have "concat (snd a5) = opt_wire (in_size a) (\<lambda>x. u64_wire (size_of_input x)) @ opt_wire (pair_of (in_uid a) (in_gid a)) pair_wire
      @ opt_wire (in_permissions a) (\<lambda>x. be32 (num_of x)) @ opt_wire (pair_of (in_atime a) (in_mtime a)) pair_wire
      @ opt_wire (in_extended a) (\<lambda>es. be32 (length es) @ ext_wire es)"
    using e1 e2 e3 e4 e5 by simp
  then have "bs = attrs_wire a" by (simp add: bs ff join_def concat_arrays_concat attrs_wire_def)
  moreover have "attrs_fit a maxExtended"
    unfolding attrs_fit_def using e1 e2 e3 e4 e5 g1 g2 by blast
  ultimately show ?thesis by blast
qed

lemma rd_when_reader:
  assumes "flags AND flag \<noteq> 0 \<longleftrightarrow> x \<noteq> None"
    and "\<And>v. x = Some v \<Longrightarrow> rd (reader pre (f v @ rest)) = Inr (g v, reader (pre @ f v) rest)"
  shows "rd_when flags flag rd (reader pre (opt_wire x f @ rest)) = Inr (map_option g x, reader (pre @ opt_wire x f) rest)"
  using assms by (cases x) (auto simp: rd_when_def opt_wire_def)

lemma parseAttrs_wire:
  assumes fit: "attrs_fit a maxExtended"
    and texts: "\<forall>es. in_extended a = Some es \<longrightarrow> (\<forall>(t, d) \<in> set es. text_ok t)"
  shows "parseAttrs (reader pre (attrs_wire a @ rest)) maxExtended = Inr (attrs_of_input a, reader (pre @ attrs_wire a) rest)"
proof -
  let ?flags = "attr_flags (attrs_of_input a)"
  let ?s = "opt_wire (in_size a) (\<lambda>x. u64_wire (size_of_input x))" and ?i = "opt_wire (pair_of (in_uid a) (in_gid a)) pair_wire"
    and ?p = "opt_wire (in_permissions a) (\<lambda>x. be32 (num_of x))" and ?t = "opt_wire (pair_of (in_atime a) (in_mtime a)) pair_wire"
    and ?e = "opt_wire (in_extended a) (\<lambda>es. be32 (length es) @ ext_wire es)"
  have pairs: "pair_of (in_uid a) (in_gid a) \<noteq> None \<longleftrightarrow> in_uid a \<noteq> None"
    "pair_of (in_atime a) (in_mtime a) \<noteq> None \<longleftrightarrow> in_atime a \<noteq> None"
    using fit by (auto simp: attrs_fit_def pair_of_def split: option.splits)
  have fl: "?flags = flag_word (in_size a \<noteq> None) (in_uid a \<noteq> None) (in_permissions a \<noteq> None) (in_atime a \<noteq> None) (in_extended a \<noteq> None)"
    by (simp add: attrs_of_input_def)
  note tests = flag_word_tests [of "in_size a \<noteq> None" "in_uid a \<noteq> None" "in_permissions a \<noteq> None" "in_atime a \<noteq> None"
      "in_extended a \<noteq> None", folded fl]
  have 1: "rd_when ?flags ATTR_SIZE (\<lambda>r. rd_uint64 r ''file size'') (reader pr (?s @ rst))
      = Inr (map_option size_of_input (in_size a), reader (pr @ ?s) rst)" for pr rst
    by (rule rd_when_reader) (use tests fit rd_uint64_reader in \<open>auto simp: attrs_fit_def u64_wire_def\<close>)
  have 2: "rd_when ?flags ATTR_UID_GID (rd_pair ''uid'' ''gid'') (reader pr (?i @ rst))
      = Inr (map_option id (pair_of (in_uid a) (in_gid a)), reader (pr @ ?i) rst)" for pr rst
    by (rule rd_when_reader) (use tests pairs fit in \<open>auto simp: attrs_fit_def pair_wire_def rd_pair_def rd_uint32_reader
        pair_of_def split: option.splits\<close>)
  have 3: "rd_when ?flags ATTR_PERMISSIONS (\<lambda>r. rd_uint32 r ''permissions'') (reader pr (?p @ rst))
      = Inr (map_option num_of (in_permissions a), reader (pr @ ?p) rst)" for pr rst
    by (rule rd_when_reader) (use tests fit in \<open>auto simp: attrs_fit_def rd_uint32_reader\<close>)
  have 4: "rd_when ?flags ATTR_ACCESS_MODIFY_TIME (rd_pair ''access time'' ''modification time'') (reader pr (?t @ rst))
      = Inr (map_option id (pair_of (in_atime a) (in_mtime a)), reader (pr @ ?t) rst)" for pr rst
    by (rule rd_when_reader) (use tests pairs fit in \<open>auto simp: attrs_fit_def pair_wire_def rd_pair_def rd_uint32_reader
        pair_of_def split: option.splits\<close>)
  have ext: "rd_extended maxExtended (reader pr ((be32 (length es) @ ext_wire es) @ rst))
      = Inr (map (\<lambda>(t, d). (t, ext_bytes d)) es, reader (pr @ be32 (length es) @ ext_wire es) rst)"
    if "in_extended a = Some es" for pr rst es
  proof -
    have "length es \<le> maxExtended" "length es < 2 ^ 32" "\<forall>(t, d) \<in> set es. length t < 2 ^ 32 \<and> length (ext_bytes d) < 2 ^ 32 \<and> text_ok t"
      using fit texts that by (auto simp: attrs_fit_def)
    then show ?thesis
      using ext_wire_length [of es] rd_extensions_wire [of es "pr @ be32 (length es)" rst]
      by (simp add: rd_extended_def rd_uint32_reader)
  qed
  have 5: "rd_when ?flags ATTR_EXTENDED (rd_extended maxExtended) (reader pr (?e @ rst))
      = Inr (map_option (map (\<lambda>(t, d). (t, ext_bytes d))) (in_extended a), reader (pr @ ?e) rst)" for pr rst
    by (rule rd_when_reader) (use tests ext in auto)
  have w: "attrs_wire a = be32 (unat ?flags) @ ?s @ ?i @ ?p @ ?t @ ?e" by (simp add: attrs_wire_def)
  have f: "unat ?flags < 2 ^ 32" using unsigned_less [of ?flags] by simp
  have maps: "map_option fst (pair_of (in_uid a) (in_gid a)) = map_option num_of (in_uid a)"
    "map_option snd (pair_of (in_uid a) (in_gid a)) = map_option num_of (in_gid a)"
    "map_option fst (pair_of (in_atime a) (in_mtime a)) = map_option num_of (in_atime a)"
    "map_option snd (pair_of (in_atime a) (in_mtime a)) = map_option num_of (in_mtime a)"
    using fit by (auto simp: attrs_fit_def pair_of_def split: option.splits)
  show ?thesis
    unfolding parseAttrs_def w append_assoc rd_uint32_reader [OF f] and_then_simps prod.case Let_def
    by (simp add: tests(6) 1 2 3 4 5 maps option.map_id0 option.map_comp comp_def)
      (simp add: attrs_of_input_def)
qed

subsection \<open>Properties\<close>

text \<open>C31: Attribute blocks survive the wire. Whatever combination of optional fields a caller encodes,
  parsing the produced bytes, anywhere inside a packet, consumes exactly those bytes and yields the
  same fields: sizes in display form, ids, permissions, times, and extended attributes in order.\<close>

theorem attrs_roundtrip:
  assumes "encodeAttrs (Some a) maxExtended = Inr bs"
    and "\<forall>es. in_extended a = Some es \<longrightarrow> (\<forall>(t, d) \<in> set es. text_ok t)"
  shows "parseAttrs (reader pre (bs @ rest)) maxExtended = Inr (attrs_of_input a, reader (pre @ bs) rest)"
  using encodeAttrs_wire [OF assms(1)] parseAttrs_wire [OF _ assms(2)] by simp

theorem attrs_roundtrip_witness:
  "\<exists>bs r. encodeAttrs (Some \<lparr>in_size = Some (U64String ''9007199254740993''), in_uid = None, in_gid = None,
       in_permissions = Some (JSInt 420), in_atime = None, in_mtime = None, in_extended = Some [(''k'', ExtText ''v'')]\<rparr>) 4 = Inr bs
     \<and> parseAttrs (new_Reader bs) 4 = Inr (attrs_of_input \<lparr>in_size = Some (U64String ''9007199254740993''), in_uid = None,
       in_gid = None, in_permissions = Some (JSInt 420), in_atime = None, in_mtime = None, in_extended = Some [(''k'', ExtText ''v'')]\<rparr>, r)"
proof -
  let ?a = "\<lparr>in_size = Some (U64String ''9007199254740993''), in_uid = None, in_gid = None,
       in_permissions = Some (JSInt 420), in_atime = None, in_mtime = None, in_extended = Some [(''k'', ExtText ''v'')]\<rparr>"
  have "decimal_value ''9007199254740993'' = 9007199254740993" by (simp add: decimal_value_def)
  then obtain bs where e: "encodeAttrs (Some ?a) 4 = Inr bs"
    by (simp add: encodeAttrs_def encodeUint64_def encodeUint32L_def encode_pair_def encodeTextL_def encodeBytesL_def
        check_uint64_def UINT64_MAX_def U32_MAX_def digit_char_def attr_flag_defs)
  have "parseAttrs (reader [] (bs @ [])) 4 = Inr (attrs_of_input ?a, reader ([] @ bs) [])"
    by (rule attrs_roundtrip [OF e]) (simp add: ascii_text_ok ascii_def)
  with e show ?thesis by (auto simp: new_Reader_reader)
qed

text \<open>The display form of a size given back as an input, as the file manager does.\<close>

fun size_input :: "SFTPSize \<Rightarrow> SFTPUint64Input" where
  "size_input (SizeNumber n) = U64Number (JSInt (int n))"
| "size_input (SizeText s) = U64String s"

text \<open>C32: 64-bit sizes are never rounded: the display form of every 64-bit value, a number up to
  \<open>2^53 - 1\<close> and a decimal string above, is accepted as an input and denotes the same value.\<close>

theorem size_display_roundtrip:
  assumes "v < 2 ^ 64"
  shows "toUint64 (size_input (displayUint64 v)) label = Inr v"
  using assms show_nat_digits [of v]
  by (auto simp: displayUint64_def check_uint64_def UINT64_MAX_def MAX_SAFE_INTEGER_def decimal_value_show nat_less_iff)

theorem size_display_roundtrip_witness:
  "toUint64 (size_input (displayUint64 18446744073709551615)) ''size'' = Inr 18446744073709551615"
  using size_display_roundtrip [of 18446744073709551615 "''size''"] by simp

end
