(* ===== verification/Sftp_Client.thy ===== *)
theory Sftp_Client
  imports Sftp_Codec
begin

text \<open>
  The SFTP client of \<^verbatim>\<open>worker/src/webssh/ssh/sftp.ts\<close> (class \<open>SFTPClient\<close>): version
  negotiation, framing of the byte stream, request identifiers, the table of pending requests, and the
  operations. A promise is modelled by the events that settle it: an operation returns the new state,
  the events in the order the code raises them, and either its synchronous result or the error it
  throws. Timers and asynchronous send failures are steps of their own (\<open>request_timeout\<close>,
  \<open>init_timeout\<close>, \<open>failPending\<close>). \<open>throws\<close> is what the caller's \<open>sendData\<close> does: \<open>None\<close> when it
  returns, an error when it throws.
\<close>

unbundle bit_operations_syntax

subsection \<open>State\<close>

datatype ClientState = CNew | CInitializing | CReady | CDisposed

datatype request_kind = ReqRealpath | ReqHandle | ReqReadDir | ReqStat | ReqRead nat | ReqStatus

datatype response =
    RespPath string
  | RespHandle bytes
  | RespEntries "SFTPDirEntry list option"
  | RespAttrs SFTPAttrs
  | RespData "bytes option"
  | RespDone

datatype client_event =
    SentFrame bytes
  | Resolved nat response
  | Rejected nat sftp_error
  | InitResolved nat "(string \<times> string) list"
  | InitRejected sftp_error

record SFTPClient =
  maxPacketLength :: nat
  maxBufferedBytes :: nat
  maxNameEntries :: nat
  maxExtendedAttributes :: nat
  maxVersionExtensions :: nat
  requestTimeoutMs :: nat
  pending :: "(nat \<times> request_kind) list"
  cstate :: ClientState
  nextRequestId :: nat
  header :: bytes
  headerLength :: nat
  packetBuffer :: "bytes option"
  packetOffset :: nat
  initStarted :: bool
  initPending :: bool

record SFTPClientOptions =
  opt_maxPacketLength :: "js_number option"
  opt_maxBufferedBytes :: "js_number option"
  opt_maxNameEntries :: "js_number option"
  opt_maxExtendedAttributes :: "js_number option"
  opt_maxVersionExtensions :: "js_number option"
  opt_requestTimeoutMs :: "js_number option"
  opt_initialRequestId :: "js_number option"

definition DEFAULT_MAX_PACKET_LENGTH :: nat where "DEFAULT_MAX_PACKET_LENGTH = 4 * 1024 * 1024"
definition DEFAULT_REQUEST_TIMEOUT_MS :: nat where "DEFAULT_REQUEST_TIMEOUT_MS = 30000"
definition DEFAULT_MAX_NAME_ENTRIES :: nat where "DEFAULT_MAX_NAME_ENTRIES = 16384"
definition DEFAULT_MAX_EXTENDED_ATTRIBUTES :: nat where "DEFAULT_MAX_EXTENDED_ATTRIBUTES = 1024"
definition DEFAULT_MAX_VERSION_EXTENSIONS :: nat where "DEFAULT_MAX_VERSION_EXTENSIONS = 256"

text \<open>\<open>value ?? fallback\<close>.\<close>

definition or_default :: "js_number option \<Rightarrow> nat \<Rightarrow> js_number" where
  "or_default x d = (case x of None \<Rightarrow> JSInt (int d) | Some v \<Rightarrow> v)"

definition new_SFTPClient :: "SFTPClientOptions \<Rightarrow> (sftp_error, SFTPClient) result" where
  "new_SFTPClient options =
     and_then (positiveInteger (or_default (opt_maxPacketLength options) DEFAULT_MAX_PACKET_LENGTH) ''maxPacketLength'') (\<lambda>mpl.
     and_then (positiveInteger (or_default (opt_maxBufferedBytes options) (mpl + 4)) ''maxBufferedBytes'') (\<lambda>mbb.
     if mbb < 5 then Inl (SRange ''maxBufferedBytes'')
     else and_then (positiveInteger (or_default (opt_maxNameEntries options) DEFAULT_MAX_NAME_ENTRIES) ''maxNameEntries'') (\<lambda>mne.
     and_then (positiveInteger (or_default (opt_maxExtendedAttributes options) DEFAULT_MAX_EXTENDED_ATTRIBUTES)
                 ''maxExtendedAttributes'') (\<lambda>mea.
     and_then (positiveInteger (or_default (opt_maxVersionExtensions options) DEFAULT_MAX_VERSION_EXTENSIONS)
                 ''maxVersionExtensions'') (\<lambda>mve.
     and_then (positiveInteger (or_default (opt_requestTimeoutMs options) DEFAULT_REQUEST_TIMEOUT_MS) ''requestTimeoutMs'') (\<lambda>rtm.
     and_then (uint32 (or_default (opt_initialRequestId options) 1) ''initialRequestId'') (\<lambda>rid.
     if rid = 0 then Inl (SRange ''initialRequestId'')
     else Inr \<lparr>maxPacketLength = mpl, maxBufferedBytes = mbb, maxNameEntries = mne, maxExtendedAttributes = mea,
               maxVersionExtensions = mve, requestTimeoutMs = rtm, pending = [], cstate = CNew, nextRequestId = rid,
               header = zeros 4, headerLength = 0, packetBuffer = None, packetOffset = 0,
               initStarted = False, initPending = False\<rparr>)))))))"

subsection \<open>Settling promises\<close>

definition failInitialization :: "SFTPClient \<Rightarrow> sftp_error \<Rightarrow> SFTPClient \<times> client_event list" where
  "failInitialization c reason =
     (c\<lparr>initPending := False\<rparr>, if initPending c then [InitRejected reason] else [])"

definition dispose :: "SFTPClient \<Rightarrow> sftp_error \<Rightarrow> SFTPClient \<times> client_event list" where
  "dispose c reason =
     (if cstate c = CDisposed then (c, [])
      else
        let c = c\<lparr>cstate := CDisposed, headerLength := 0, packetBuffer := None, packetOffset := 0\<rparr>;
            (c, evs) = failInitialization c reason
        in (c\<lparr>pending := []\<rparr>, evs @ map (\<lambda>(i, _). Rejected i reason) (pending c)))"

definition delete_pending :: "nat \<Rightarrow> (nat \<times> request_kind) list \<Rightarrow> (nat \<times> request_kind) list" where
  "delete_pending i ps = filter (\<lambda>p. fst p \<noteq> i) ps"

definition failPending :: "SFTPClient \<Rightarrow> nat \<Rightarrow> sftp_error \<Rightarrow> SFTPClient \<times> client_event list" where
  "failPending c i reason =
     (case map_of (pending c) i of
        None \<Rightarrow> (c, [])
      | Some _ \<Rightarrow> (c\<lparr>pending := delete_pending i (pending c)\<rparr>, [Rejected i reason]))"

text \<open>The timer of request \<open>i\<close> fires.\<close>

definition request_timeout :: "SFTPClient \<Rightarrow> nat \<Rightarrow> SFTPClient \<times> client_event list" where
  "request_timeout c i =
     (if i \<in> fst ` set (pending c)
      then (c\<lparr>pending := delete_pending i (pending c)\<rparr>, [Rejected i (STimeout i)])
      else (c, []))"

definition init_timeout :: "SFTPClient \<Rightarrow> SFTPClient \<times> client_event list" where
  "init_timeout c =
     (let (c, evs) = failInitialization c (STimeout 0); (c, evs') = dispose c (STimeout 0) in (c, evs @ evs'))"

subsection \<open>Sending\<close>

definition sendFramed :: "SFTPClient \<Rightarrow> bytes \<Rightarrow> sftp_error option \<Rightarrow> (sftp_error, client_event list) result" where
  "sendFramed c body throws =
     (if length body = 0 \<or> maxPacketLength c < length body \<or> U32_MAX < int (length body)
      then Inl (SRange ''packet length'')
      else
        let frame = u8_set (writeUint32 (zeros (4 + length body)) 0 (length body)) body 4
        in case throws of Some e \<Rightarrow> Inl e | None \<Rightarrow> Inr [SentFrame frame])"

definition assertState :: "SFTPClient \<Rightarrow> ClientState \<Rightarrow> (sftp_error, unit) result" where
  "assertState c required =
     (if cstate c \<noteq> required
      then Inl (SState (if cstate c = CDisposed then ''SFTP client is disposed'' else ''SFTP client is not ready''))
      else Inr ())"

definition initialize :: "SFTPClient \<Rightarrow> sftp_error option \<Rightarrow> SFTPClient \<times> client_event list \<times> (sftp_error, unit) result" where
  "initialize c throws =
     (if cstate c = CDisposed then (c, [], Inl (SState ''SFTP client is disposed''))
      else if initStarted c then (c, [], Inr ())
      else (case assertState c CNew of
         Inl e \<Rightarrow> (c, [], Inl e)
       | Inr _ \<Rightarrow>
           let c = c\<lparr>cstate := CInitializing, initStarted := True, initPending := True\<rparr> in
           (case sendFramed c (join [[SFTP_INIT], writeUint32 (zeros 4) 0 SFTP_VERSION]) throws of
              Inr evs \<Rightarrow> (c, evs, Inr ())
            | Inl e \<Rightarrow>
                let (c, evs) = failInitialization c e; (c, evs') = dispose c e in (c, evs @ evs', Inr ()))))"

text \<open>The catch handler of an asynchronous send failure of the INIT packet.\<close>

definition init_send_failed :: "SFTPClient \<Rightarrow> sftp_error \<Rightarrow> SFTPClient \<times> client_event list" where
  "init_send_failed c e =
     (if cstate c = CInitializing
      then let (c, evs) = failInitialization c e; (c, evs') = dispose c e in (c, evs @ evs')
      else (c, []))"

fun allocate_loop :: "nat \<Rightarrow> nat set \<Rightarrow> nat \<Rightarrow> nat option" where
  "allocate_loop 0 used candidate = None"
| "allocate_loop (Suc attempts) used candidate =
     (if candidate \<noteq> 0 \<and> candidate \<notin> used then Some candidate
      else
        let candidate = unat (word_of_nat (candidate + 1) :: u32);
            candidate = (if candidate = 0 then 1 else candidate)
        in allocate_loop attempts used candidate)"

definition allocateRequestId :: "SFTPClient \<Rightarrow> (sftp_error, nat \<times> SFTPClient) result" where
  "allocateRequestId c =
     (case allocate_loop (length (pending c) + 1) (fst ` set (pending c)) (nextRequestId c) of
        None \<Rightarrow> Inl (SState ''No SFTP request IDs are available'')
      | Some candidate \<Rightarrow>
          let nxt = unat (word_of_nat (candidate + 1) :: u32)
          in Inr (candidate, c\<lparr>nextRequestId := (if nxt = 0 then 1 else nxt)\<rparr>))"

definition request ::
  "SFTPClient \<Rightarrow> byte \<Rightarrow> bytes list \<Rightarrow> request_kind \<Rightarrow> sftp_error option
   \<Rightarrow> SFTPClient \<times> client_event list \<times> (sftp_error, nat) result" where
  "request c type flds kind throws =
     (case assertState c CReady of
        Inl e \<Rightarrow> (c, [], Inl e)
      | Inr _ \<Rightarrow>
     (case allocateRequestId c of
        Inl e \<Rightarrow> (c, [], Inl e)
      | Inr (i, c) \<Rightarrow>
     (case encodeUint32L (JSInt (int i)) ''request ID'' of
        Inl e \<Rightarrow> (c, [], Inl e)
      | Inr rid \<Rightarrow>
          let body = join ([type] # rid # flds);
              c = c\<lparr>pending := pending c @ [(i, kind)]\<rparr>
          in (case sendFramed c body throws of
                Inr evs \<Rightarrow> (c, evs, Inr i)
              | Inl e \<Rightarrow> let (c, evs) = failPending c i e in (c, evs, Inr i)))))"

subsection \<open>Responses\<close>

fun parse_entries :: "nat \<Rightarrow> nat \<Rightarrow> Reader \<Rightarrow> (sftp_error, SFTPDirEntry list \<times> Reader) result" where
  "parse_entries maxExtended 0 r = Inr ([], r)"
| "parse_entries maxExtended (Suc n) r =
     and_then (rd_text r ''filename'') (\<lambda>(filename, r).
     and_then (rd_text r ''long filename'') (\<lambda>(longname, r).
     and_then (parseAttrs r maxExtended) (\<lambda>(attrs, r).
     and_then (parse_entries maxExtended n r) (\<lambda>(es, r).
       Inr (\<lparr>entry_filename = filename, entry_longname = longname, entry_attrs = attrs\<rparr> # es, r)))))"

definition parseName :: "SFTPClient \<Rightarrow> Reader \<Rightarrow> (sftp_error, SFTPDirEntry list \<times> Reader) result" where
  "parseName c r =
     and_then (rd_uint32 r ''name count'') (\<lambda>(count, r).
       if maxNameEntries c < count \<or> remaining r div 12 < count then Inl (SProtocol ''name count'')
       else parse_entries (maxExtendedAttributes c) count r)"

definition status_error :: "nat \<Rightarrow> Reader \<Rightarrow> sftp_error" where
  "status_error i r =
     (case parseStatus r of Inl e \<Rightarrow> e | Inr (code, description, language) \<Rightarrow> SStatus code i description language)"

definition unexpected :: "byte \<Rightarrow> byte \<Rightarrow> sftp_error" where
  "unexpected actual expected = SProtocol ''Unexpected SFTP response type''"

definition throwStatusOrUnexpected :: "byte \<Rightarrow> Reader \<Rightarrow> nat \<Rightarrow> byte \<Rightarrow> (sftp_error, unit) result" where
  "throwStatusOrUnexpected type r i expected =
     (if type = expected then Inr ()
      else if type \<noteq> SFTP_STATUS_PACKET then Inl (unexpected type expected)
      else Inl (status_error i r))"

text \<open>A status is terminal: the parser has asserted the end of the packet, so the reader is spent.\<close>

definition spent :: "Reader \<Rightarrow> Reader" where
  "spent r = r\<lparr>rd_offset := length (rd_data r)\<rparr>"

definition parseEofStatus :: "Reader \<Rightarrow> nat \<Rightarrow> (sftp_error, Reader) result" where
  "parseEofStatus r i =
     and_then (parseStatus r) (\<lambda>(code, description, language).
       if code = STATUS_EOF then Inr (spent r) else Inl (SStatus code i description language))"

definition rd_handle :: "Reader \<Rightarrow> (sftp_error, bytes \<times> Reader) result" where
  "rd_handle r =
     and_then (rd_string_bytes r ''handle'') (\<lambda>(handle, r).
       if length handle = 0 then Inl (SProtocol ''empty handle'') else Inr (handle, r))"

fun parse_response :: "SFTPClient \<Rightarrow> request_kind \<Rightarrow> byte \<Rightarrow> Reader \<Rightarrow> nat \<Rightarrow> (sftp_error, response \<times> Reader) result" where
  "parse_response c ReqRealpath type r i =
     and_then (throwStatusOrUnexpected type r i SFTP_NAME) (\<lambda>_.
     and_then (parseName c r) (\<lambda>(entries, r).
       if length entries \<noteq> 1 then Inl (SProtocol ''REALPATH'') else Inr (RespPath (entry_filename (entries ! 0)), r)))"
| "parse_response c ReqHandle type r i =
     and_then (throwStatusOrUnexpected type r i SFTP_HANDLE) (\<lambda>_.
     and_then (rd_handle r) (\<lambda>(handle, r). Inr (RespHandle handle, r)))"
| "parse_response c ReqReadDir type r i =
     (if type = SFTP_STATUS_PACKET then and_then (parseEofStatus r i) (\<lambda>r. Inr (RespEntries None, r))
      else if type \<noteq> SFTP_NAME then Inl (unexpected type SFTP_NAME)
      else and_then (parseName c r) (\<lambda>(entries, r). Inr (RespEntries (Some entries), r)))"
| "parse_response c ReqStat type r i =
     and_then (throwStatusOrUnexpected type r i SFTP_ATTRS) (\<lambda>_.
     and_then (parseAttrs r (maxExtendedAttributes c)) (\<lambda>(attrs, r). Inr (RespAttrs attrs, r)))"
| "parse_response c (ReqRead n) type r i =
     (if type = SFTP_STATUS_PACKET then and_then (parseEofStatus r i) (\<lambda>r. Inr (RespData None, r))
      else if type \<noteq> SFTP_DATA then Inl (unexpected type SFTP_DATA)
      else and_then (rd_string_bytes r ''file data'') (\<lambda>(data, r).
        if n < length data then Inl (SProtocol ''exceeds requested length'') else Inr (RespData (Some data), r)))"
| "parse_response c ReqStatus type r i =
     (if type \<noteq> SFTP_STATUS_PACKET then Inl (unexpected type SFTP_STATUS_PACKET)
      else and_then (parseStatus r) (\<lambda>(code, description, language).
        if code \<noteq> STATUS_OK then Inl (SStatus code i description language) else Inr (RespDone, spent r)))"

text \<open>The loop over the extensions of a VERSION packet; it stops when the reader is empty, after at
  most \<open>maxVersionExtensions\<close> rounds.\<close>

fun version_loop :: "nat \<Rightarrow> Reader \<Rightarrow> (string \<times> string) list \<Rightarrow> (sftp_error, (string \<times> string) list \<times> Reader) result" where
  "version_loop n r exts =
     (if remaining r = 0 then Inr (exts, r)
      else (case n of
         0 \<Rightarrow> Inl (SProtocol ''VERSION extensions'')
       | Suc n \<Rightarrow>
           if remaining r < 8 then Inl (SProtocol ''VERSION extensions'')
           else and_then (rd_text r ''extension name'') (\<lambda>(name, r).
                and_then (rd_text r ''extension data'') (\<lambda>(data, r).
                  if name \<in> fst ` set exts then Inl (SProtocol ''Duplicate SFTP extension'')
                  else version_loop n r (exts @ [(name, data)])))))"

declare version_loop.simps [simp del]

definition handleVersion :: "SFTPClient \<Rightarrow> Reader \<Rightarrow> SFTPClient \<times> client_event list \<times> sftp_error option" where
  "handleVersion c r =
     (if cstate c \<noteq> CInitializing then (c, [], Some (SProtocol ''duplicate SFTP VERSION packet''))
      else (case rd_uint32 r ''server version'' of
         Inl e \<Rightarrow> (c, [], Some e)
       | Inr (version, r) \<Rightarrow>
           if version \<noteq> SFTP_VERSION then (c, [], Some (SProtocol ''Unsupported SFTP server version''))
           else (case version_loop (maxVersionExtensions c) r [] of
              Inl e \<Rightarrow> (c, [], Some e)
            | Inr (exts, r) \<Rightarrow>
                (case assert_end r ''VERSION packet'' of
                   Inl e \<Rightarrow> (c, [], Some e)
                 | Inr _ \<Rightarrow>
                     (c\<lparr>cstate := CReady, initPending := False\<rparr>,
                      if initPending c then [InitResolved version exts] else [], None)))))"

definition dispatch :: "SFTPClient \<Rightarrow> bytes \<Rightarrow> SFTPClient \<times> client_event list \<times> sftp_error option" where
  "dispatch c packet =
     (case rd_byte (new_Reader packet) ''packet type'' of
        Inl e \<Rightarrow> (c, [], Some e)
      | Inr (type, r) \<Rightarrow>
          if type = SFTP_VERSION_PACKET then handleVersion c r
          else if cstate c \<noteq> CReady then (c, [], Some (SProtocol ''response before version negotiation''))
          else (case rd_uint32 r ''request ID'' of
             Inl e \<Rightarrow> (c, [], Some e)
           | Inr (i, r) \<Rightarrow>
               if i = 0 then (c, [], Some (SProtocol ''request ID zero''))
               else (case map_of (pending c) i of
                  None \<Rightarrow> (c, [], None)
                | Some kind \<Rightarrow>
                    let c = c\<lparr>pending := delete_pending i (pending c)\<rparr> in
                    (case and_then (parse_response c kind type r i)
                            (\<lambda>(value, r). and_then (assert_end r ''packet'') (\<lambda>_. Inr value)) of
                       Inr value \<Rightarrow> (c, [Resolved i value], None)
                     | Inl e \<Rightarrow>
                         (c, [Rejected i e], (case e of SStatus _ _ _ _ \<Rightarrow> None | _ \<Rightarrow> Some e))))))"

lemma dispatch_frame:
  assumes "dispatch c packet = (c', evs, e)"
  shows "header c' = header c" "headerLength c' = headerLength c" "packetBuffer c' = packetBuffer c"
    "packetOffset c' = packetOffset c" "maxPacketLength c' = maxPacketLength c" "maxBufferedBytes c' = maxBufferedBytes c"
  using assms
  by (auto simp: dispatch_def handleVersion_def Let_def split: sum.splits prod.splits if_splits option.splits)

subsection \<open>Framing\<close>

definition validatePacketLength :: "SFTPClient \<Rightarrow> nat \<Rightarrow> bool" where
  "validatePacketLength c n \<longleftrightarrow> \<not> (n < 1 \<or> maxPacketLength c < n \<or> int (maxBufferedBytes c) - 4 < int n)"

text \<open>One round of the loop of \<open>feed\<close>, in its three cases: the packet buffer is being filled, a whole
  header is in the chunk, or the header is collected piecewise. A write past the end of the header or
  of the packet buffer would raise a \<open>RangeError\<close>; both branches are kept.\<close>

type_synonym feed_result = "SFTPClient \<times> nat \<times> client_event list \<times> sftp_error option"

definition fill_packet :: "SFTPClient \<Rightarrow> bytes \<Rightarrow> nat \<Rightarrow> bytes \<Rightarrow> feed_result" where
  "fill_packet c chunk offset buf =
     (if length buf < packetOffset c then (c, offset, [], Some (SRange ''offset is out of bounds''))
      else
        let count = min (length buf - packetOffset c) (length chunk - offset);
            buf = u8_set buf (subarray chunk offset (offset + count)) (packetOffset c);
            po = packetOffset c + count;
            offset = offset + count
        in if po = length buf
           then (case dispatch (c\<lparr>packetBuffer := None, packetOffset := 0\<rparr>) buf of
                   (c, es, e) \<Rightarrow> (c, offset, es, e))
           else (c\<lparr>packetBuffer := Some buf, packetOffset := po\<rparr>, offset, [], None))"

definition direct_packet :: "SFTPClient \<Rightarrow> bytes \<Rightarrow> nat \<Rightarrow> feed_result" where
  "direct_packet c chunk offset =
     (let n = readUint32 chunk offset in
      if \<not> validatePacketLength c n then (c, offset, [], Some (SProtocol ''packet length''))
      else let offset = offset + 4 in
      if n \<le> length chunk - offset
      then (case dispatch c (subarray chunk offset (offset + n)) of (c, es, e) \<Rightarrow> (c, offset + n, es, e))
      else (c\<lparr>packetBuffer := Some (u8_set (zeros n) (drop offset chunk) 0),
              packetOffset := length chunk - offset\<rparr>, length chunk, [], None))"

definition collect_header :: "SFTPClient \<Rightarrow> bytes \<Rightarrow> nat \<Rightarrow> feed_result" where
  "collect_header c chunk offset =
     (if 4 < headerLength c then (c, offset, [], Some (SRange ''offset is out of bounds''))
      else
        let headerBytes = min (4 - headerLength c) (length chunk - offset);
            hd = u8_set (header c) (subarray chunk offset (offset + headerBytes)) (headerLength c);
            hl = headerLength c + headerBytes;
            offset = offset + headerBytes
        in if hl = 4
           then
             let n = readUint32 hd 0;
                 c = c\<lparr>header := hd, headerLength := 0\<rparr>
             in if \<not> validatePacketLength c n then (c, offset, [], Some (SProtocol ''packet length''))
                else (c\<lparr>packetBuffer := Some (zeros n), packetOffset := 0\<rparr>, offset, [], None)
           else (c\<lparr>header := hd, headerLength := hl\<rparr>, offset, [], None))"

definition feed_step :: "SFTPClient \<Rightarrow> bytes \<Rightarrow> nat \<Rightarrow> feed_result" where
  "feed_step c chunk offset =
     (case packetBuffer c of
        Some buf \<Rightarrow> fill_packet c chunk offset buf
      | None \<Rightarrow>
          if headerLength c = 0 \<and> 4 \<le> length chunk - offset then direct_packet c chunk offset
          else collect_header c chunk offset)"

text \<open>Rounds that consume no input: a full packet buffer is dispatched, then a full header is turned
  into a packet buffer.\<close>

definition frame_weight :: "SFTPClient \<Rightarrow> nat" where
  "frame_weight c =
     (case packetBuffer c of Some b \<Rightarrow> if packetOffset c = length b then 2 else 0 | None \<Rightarrow> 1)"

lemma feed_step_progress:
  assumes "offset < length chunk" "feed_step c chunk offset = (c', off', es, None)"
  shows "offset < off' \<or> off' = offset \<and> frame_weight c' < frame_weight c"
proof (cases "packetBuffer c")
  case None
  show ?thesis
  proof (cases "headerLength c = 0 \<and> 4 \<le> length chunk - offset")
    case True
    with None assms show ?thesis
      by (auto simp: feed_step_def direct_packet_def Let_def split: if_splits prod.splits)
  next
    case False
    with None assms show ?thesis
      by (auto simp: feed_step_def collect_header_def Let_def frame_weight_def validatePacketLength_def split: if_splits)
  qed
next
  case (Some buf)
  show ?thesis
  proof (cases "packetOffset c < length buf")
    case True
    with Some assms show ?thesis
      by (auto simp: feed_step_def fill_packet_def Let_def split: if_splits prod.splits)
  next
    case False
    with Some assms show ?thesis
      by (auto simp: feed_step_def fill_packet_def Let_def frame_weight_def u8_set_def subarray_def
          split: if_splits prod.splits dest!: dispatch_frame(3))
  qed
qed

function feed_loop ::
  "SFTPClient \<Rightarrow> bytes \<Rightarrow> nat \<Rightarrow> client_event list \<Rightarrow> SFTPClient \<times> client_event list \<times> sftp_error option" where
  "feed_loop c chunk offset evs =
     (if offset < length chunk then
        (case feed_step c chunk offset of
           (c, off, es, Some e) \<Rightarrow> (c, evs @ es, Some e)
         | (c, off, es, None) \<Rightarrow> feed_loop c chunk off (evs @ es))
      else (c, evs, None))"
  by pat_completeness auto
termination
  by (relation "measures [\<lambda>(c, chunk, offset, evs). length chunk - offset, \<lambda>(c, chunk, offset, evs). frame_weight c]")
    (simp, clarsimp, frule (1) feed_step_progress [OF _ sym], auto)

declare feed_loop.simps [simp del]

definition feed :: "SFTPClient \<Rightarrow> bytes \<Rightarrow> SFTPClient \<times> client_event list \<times> sftp_error option" where
  "feed c chunk =
     (if cstate c = CDisposed then (c, [], Some (SState ''SFTP client is disposed''))
      else (case feed_loop c chunk 0 [] of
              (c, evs, None) \<Rightarrow> (c, evs, None)
            | (c, evs, Some e) \<Rightarrow> let (c, evs') = dispose c e in (c, evs @ evs', Some e)))"

subsection \<open>Operations\<close>

text \<open>The fields are encoded before \<open>request\<close> runs, so their errors come first.\<close>

definition with_fields ::
  "SFTPClient \<Rightarrow> (sftp_error, bytes list) result \<Rightarrow> (bytes list \<Rightarrow> SFTPClient \<times> client_event list \<times> (sftp_error, nat) result)
   \<Rightarrow> SFTPClient \<times> client_event list \<times> (sftp_error, nat) result" where
  "with_fields c r k = (case r of Inl e \<Rightarrow> (c, [], Inl e) | Inr fs \<Rightarrow> k fs)"

definition one_field :: "(sftp_error, bytes) result \<Rightarrow> (sftp_error, bytes list) result" where
  "one_field a = and_then a (\<lambda>x. Inr [x])"

definition two_fields :: "(sftp_error, bytes) result \<Rightarrow> (sftp_error, bytes) result \<Rightarrow> (sftp_error, bytes list) result" where
  "two_fields a b = and_then a (\<lambda>x. and_then b (\<lambda>y. Inr [x, y]))"

definition three_fields ::
  "(sftp_error, bytes) result \<Rightarrow> (sftp_error, bytes) result \<Rightarrow> (sftp_error, bytes) result \<Rightarrow> (sftp_error, bytes list) result" where
  "three_fields a b d = and_then a (\<lambda>x. and_then b (\<lambda>y. and_then d (\<lambda>z. Inr [x, y, z])))"

definition statusRequest :: "SFTPClient \<Rightarrow> byte \<Rightarrow> bytes list \<Rightarrow> sftp_error option
   \<Rightarrow> SFTPClient \<times> client_event list \<times> (sftp_error, nat) result" where
  "statusRequest c type fs throws = request c type fs ReqStatus throws"

definition realpath :: "SFTPClient \<Rightarrow> string \<Rightarrow> sftp_error option \<Rightarrow> SFTPClient \<times> client_event list \<times> (sftp_error, nat) result" where
  "realpath c path throws =
     with_fields c (one_field (encodeTextL path ''path'')) (\<lambda>fs. request c SFTP_REALPATH fs ReqRealpath throws)"

definition openDir :: "SFTPClient \<Rightarrow> string \<Rightarrow> sftp_error option \<Rightarrow> SFTPClient \<times> client_event list \<times> (sftp_error, nat) result" where
  "openDir c path throws =
     with_fields c (one_field (encodeTextL path ''path'')) (\<lambda>fs. request c SFTP_OPENDIR fs ReqHandle throws)"

definition readDir :: "SFTPClient \<Rightarrow> bytes \<Rightarrow> sftp_error option \<Rightarrow> SFTPClient \<times> client_event list \<times> (sftp_error, nat) result" where
  "readDir c handle throws =
     with_fields c (one_field (encodeBytesL handle ''handle'')) (\<lambda>fs. request c SFTP_READDIR fs ReqReadDir throws)"

definition closeHandle :: "SFTPClient \<Rightarrow> bytes \<Rightarrow> sftp_error option \<Rightarrow> SFTPClient \<times> client_event list \<times> (sftp_error, nat) result" where
  "closeHandle c handle throws =
     with_fields c (one_field (encodeBytesL handle ''handle'')) (\<lambda>fs. statusRequest c SFTP_CLOSE fs throws)"

definition stat :: "SFTPClient \<Rightarrow> string \<Rightarrow> sftp_error option \<Rightarrow> SFTPClient \<times> client_event list \<times> (sftp_error, nat) result" where
  "stat c path throws =
     with_fields c (one_field (encodeTextL path ''path'')) (\<lambda>fs. request c SFTP_STAT fs ReqStat throws)"

definition openFile :: "SFTPClient \<Rightarrow> string \<Rightarrow> js_number \<Rightarrow> SFTPAttrsInput option \<Rightarrow> sftp_error option
   \<Rightarrow> SFTPClient \<times> client_event list \<times> (sftp_error, nat) result" where
  "openFile c path flags attrs throws =
     with_fields c (three_fields (encodeTextL path ''path'') (encodeUint32L flags ''open flags'')
                      (encodeAttrs attrs (maxExtendedAttributes c)))
       (\<lambda>fs. request c SFTP_OPEN fs ReqHandle throws)"

definition readFile :: "SFTPClient \<Rightarrow> bytes \<Rightarrow> SFTPUint64Input \<Rightarrow> js_number \<Rightarrow> sftp_error option
   \<Rightarrow> SFTPClient \<times> client_event list \<times> (sftp_error, nat) result" where
  "readFile c handle offset len throws =
     with_fields c (three_fields (encodeBytesL handle ''handle'') (encodeUint64 offset ''file offset'')
                      (encodeUint32L len ''read length''))
       (\<lambda>fs. request c SFTP_READ fs (ReqRead (num_of len)) throws)"

definition writeFile :: "SFTPClient \<Rightarrow> bytes \<Rightarrow> SFTPUint64Input \<Rightarrow> bytes \<Rightarrow> sftp_error option
   \<Rightarrow> SFTPClient \<times> client_event list \<times> (sftp_error, nat) result" where
  "writeFile c handle offset data throws =
     with_fields c (three_fields (encodeBytesL handle ''handle'') (encodeUint64 offset ''file offset'')
                      (encodeBytesL data ''file data''))
       (\<lambda>fs. statusRequest c SFTP_WRITE fs throws)"

definition removeFile :: "SFTPClient \<Rightarrow> string \<Rightarrow> sftp_error option \<Rightarrow> SFTPClient \<times> client_event list \<times> (sftp_error, nat) result" where
  "removeFile c path throws =
     with_fields c (one_field (encodeTextL path ''path'')) (\<lambda>fs. statusRequest c SFTP_REMOVE fs throws)"

definition mkdir :: "SFTPClient \<Rightarrow> string \<Rightarrow> SFTPAttrsInput option \<Rightarrow> sftp_error option
   \<Rightarrow> SFTPClient \<times> client_event list \<times> (sftp_error, nat) result" where
  "mkdir c path attrs throws =
     with_fields c (two_fields (encodeTextL path ''path'') (encodeAttrs attrs (maxExtendedAttributes c)))
       (\<lambda>fs. statusRequest c SFTP_MKDIR fs throws)"

definition rmdir :: "SFTPClient \<Rightarrow> string \<Rightarrow> sftp_error option \<Rightarrow> SFTPClient \<times> client_event list \<times> (sftp_error, nat) result" where
  "rmdir c path throws =
     with_fields c (one_field (encodeTextL path ''path'')) (\<lambda>fs. statusRequest c SFTP_RMDIR fs throws)"

definition rename :: "SFTPClient \<Rightarrow> string \<Rightarrow> string \<Rightarrow> sftp_error option \<Rightarrow> SFTPClient \<times> client_event list \<times> (sftp_error, nat) result" where
  "rename c oldPath newPath throws =
     with_fields c (two_fields (encodeTextL oldPath ''old path'') (encodeTextL newPath ''new path''))
       (\<lambda>fs. statusRequest c SFTP_RENAME fs throws)"

subsection \<open>Request identifiers\<close>

definition next_id :: "nat \<Rightarrow> nat" where
  "next_id v = (let n = unat (word_of_nat (v + 1) :: u32) in if n = 0 then 1 else n)"

abbreviation ids :: nat where "ids \<equiv> 2 ^ 32 - 1"

lemma next_id_cycle:
  assumes "1 \<le> v" "v \<le> ids"
  shows "next_id v = v mod ids + 1" "1 \<le> next_id v" "next_id v \<le> ids"
proof -
  have "unat (word_of_nat (v + 1) :: u32) = (v + 1) mod 2 ^ 32" unfolding unat_of_nat by simp
  then show "next_id v = v mod ids + 1" "1 \<le> next_id v" "next_id v \<le> ids"
    using assms by (cases "v = ids"; simp add: next_id_def)+
qed

lemma allocate_loop_Suc:
  "allocate_loop (Suc n) used v = (if v \<noteq> 0 \<and> v \<notin> used then Some v else allocate_loop n used (next_id v))"
  by (simp add: next_id_def Let_def)

lemma allocate_loop_sound:
  "allocate_loop n used v = Some i \<Longrightarrow> 1 \<le> v \<Longrightarrow> v \<le> ids \<Longrightarrow> 1 \<le> i \<and> i \<le> ids \<and> i \<notin> used"
proof (induction n arbitrary: v)
  case (Suc n)
  then show ?case
    using next_id_cycle [of v] by (auto simp: allocate_loop_Suc simp del: allocate_loop.simps split: if_splits)
qed simp

lemma allocate_loop_all_used:
  "allocate_loop n used v = None \<Longrightarrow> 1 \<le> v \<Longrightarrow> v \<le> ids \<Longrightarrow> k < n \<Longrightarrow> (v - 1 + k) mod ids + 1 \<in> used"
proof (induction n arbitrary: v k)
  case (Suc n)
  from Suc.prems have used: "v \<in> used" and rest: "allocate_loop n used (next_id v) = None"
    by (auto simp: allocate_loop_Suc simp del: allocate_loop.simps split: if_splits)
  show ?case
  proof (cases k)
    case 0
    with used Suc.prems show ?thesis by simp
  next
    case (Suc j)
    note c = next_id_cycle [OF Suc.prems(2,3)]
    have "(next_id v - 1 + j) mod ids = (v mod ids + j) mod ids" using c(1) by simp
    also have "\<dots> = (v + j) mod ids" by (rule mod_add_left_eq)
    also have "v + j = v - 1 + k" using Suc.prems(2) Suc by simp
    finally have "(next_id v - 1 + j) mod ids = (v - 1 + k) mod ids" .
    with Suc.IH [OF rest c(2,3), of j] Suc.prems(4) Suc show ?thesis by simp
  qed
qed simp

lemma allocate_loop_complete:
  assumes "1 \<le> v" "v \<le> ids" "finite used" "card used < n" "n \<le> ids"
  shows "allocate_loop n used v \<noteq> None"
proof
  assume none: "allocate_loop n used v = None"
  let ?f = "\<lambda>k. (v - 1 + k) mod ids + 1"
  have "inj_on ?f {..<n}"
  proof (rule inj_onI)
    fix i j assume "i \<in> {..<n}" "j \<in> {..<n}" "?f i = ?f j"
    with assms(5) show "i = j" by (intro mod_add_eq_imp_eq [of "v - 1" i ids j]) auto
  qed
  moreover have "?f ` {..<n} \<subseteq> used" using allocate_loop_all_used [OF none assms(1,2)] by blast
  ultimately have "card {..<n} \<le> card used" using assms(3) by (metis card_image card_mono)
  with assms(4) show False by simp
qed

subsection \<open>Framing refines a flat byte stream\<close>

text \<open>The client without its framing buffers, and the bytes of the incomplete packet they hold.\<close>

definition core :: "SFTPClient \<Rightarrow> SFTPClient" where
  "core c = c\<lparr>header := zeros 4, headerLength := 0, packetBuffer := None, packetOffset := 0\<rparr>"

definition partial :: "SFTPClient \<Rightarrow> bytes" where
  "partial c =
     (case packetBuffer c of
        Some b \<Rightarrow> be32 (length b) @ take (packetOffset c) b
      | None \<Rightarrow> take (headerLength c) (header c))"

definition frame_inv :: "SFTPClient \<Rightarrow> bool" where
  "frame_inv c \<longleftrightarrow> length (header c) = 4 \<and>
     (case packetBuffer c of
        Some b \<Rightarrow> packetOffset c < length b \<and> length b < 2 ^ 32 \<and> headerLength c = 0 \<and> validatePacketLength c (length b)
      | None \<Rightarrow> headerLength c < 4)"

text \<open>Framing on a flat byte string: packets are cut off the front as long as a whole one is there.\<close>

function drain :: "SFTPClient \<Rightarrow> bytes \<Rightarrow> client_event list \<Rightarrow> SFTPClient \<times> bytes \<times> client_event list \<times> sftp_error option" where
  "drain c s evs =
     (if length s < 4 then (c, s, evs, None)
      else let n = readUint32 s 0 in
      if \<not> validatePacketLength c n then (c, [], evs, Some (SProtocol ''packet length''))
      else if length s < 4 + n then (c, s, evs, None)
      else (case dispatch c (subarray s 4 (4 + n)) of
              (c, es, Some e) \<Rightarrow> (c, [], evs @ es, Some e)
            | (c, es, None) \<Rightarrow> drain c (drop (4 + n) s) (evs @ es)))"
  by pat_completeness auto
termination
  by (relation "measure (\<lambda>(c, s, evs). length s)") auto

declare drain.simps [simp del]

lemma validatePacketLength_core [simp]: "validatePacketLength (core c) n = validatePacketLength c n"
  by (simp add: validatePacketLength_def core_def)

lemma core_core [simp]: "core (core c) = core c"
  by (simp add: core_def)

lemma parse_entries_core: "parseName (core c) r = parseName c r"
  by (simp add: parseName_def core_def cong: if_cong)

lemma parse_response_core: "parse_response (core c) k t r i = parse_response c k t r i"
  by (cases k) (simp_all add: parse_entries_core, simp add: core_def)

lemma core_update [simp]:
  "core (c\<lparr>pending := ps\<rparr>) = (core c)\<lparr>pending := ps\<rparr>"
  "core (c\<lparr>cstate := s\<rparr>) = (core c)\<lparr>cstate := s\<rparr>"
  "core (c\<lparr>initPending := b\<rparr>) = (core c)\<lparr>initPending := b\<rparr>"
  "core (c\<lparr>header := h\<rparr>) = core c" "core (c\<lparr>headerLength := n\<rparr>) = core c"
  "core (c\<lparr>packetBuffer := p\<rparr>) = core c" "core (c\<lparr>packetOffset := n\<rparr>) = core c"
  "pending (core c) = pending c" "cstate (core c) = cstate c" "initPending (core c) = initPending c"
  "maxVersionExtensions (core c) = maxVersionExtensions c"
  by (simp_all add: core_def)

lemma dispatch_core: "dispatch (core c) packet = (case dispatch c packet of (c', es, e) \<Rightarrow> (core c', es, e))"
proof -
  have v: "handleVersion (core c) r = (case handleVersion c r of (c', es, e) \<Rightarrow> (core c', es, e))" for r
    by (simp add: handleVersion_def split: sum.splits prod.splits)
  have p: "parse_response ((core c)\<lparr>pending := ps\<rparr>) k t r i = parse_response (c\<lparr>pending := ps\<rparr>) k t r i" for ps k t r i
    using parse_response_core [of "c\<lparr>pending := ps\<rparr>"] by simp
  show ?thesis
    by (simp add: dispatch_def v p Let_def split: sum.splits prod.splits option.splits)
qed

lemma validatePacketLength_dispatch:
  "dispatch c packet = (c', es, e) \<Longrightarrow> validatePacketLength c' = validatePacketLength c"
  by (rule ext) (simp add: validatePacketLength_def dispatch_frame)

lemma fill_packet_drain:
  assumes inv: "frame_inv c" and buf: "packetBuffer c = Some b" and off: "off < length chunk"
    and step: "fill_packet c chunk off b = (c', off', es, e)"
  shows "drain (core c) (partial c @ drop off chunk) evs =
      (case e of None \<Rightarrow> drain (core c') (partial c' @ drop off' chunk) (evs @ es) | Some err \<Rightarrow> (core c', [], evs @ es, Some err))"
    and "e = None \<Longrightarrow> frame_inv c'"
proof -
  let ?po = "packetOffset c"
  have b: "?po < length b" "length b < 2 ^ 32" "headerLength c = 0" "validatePacketLength c (length b)" "length (header c) = 4"
    using inv buf by (auto simp: frame_inv_def)
  define cnt where "cnt = min (length b - ?po) (length chunk - off)"
  define seg where "seg = subarray chunk off (off + cnt)"
  have seg: "length seg = cnt" "drop off chunk = seg @ drop (off + cnt) chunk"
    using drop_subarray [of off "off + cnt" chunk] off by (auto simp: seg_def length_subarray cnt_def)
  have b': "u8_set b seg ?po = take ?po b @ seg @ drop (?po + cnt) b" by (simp add: u8_set_def seg(1))
  have fp: "fill_packet c chunk off b =
      (if ?po + cnt = length (u8_set b seg ?po)
       then (case dispatch (c\<lparr>packetBuffer := None, packetOffset := 0\<rparr>) (u8_set b seg ?po) of (c, es, e) \<Rightarrow> (c, off + cnt, es, e))
       else (c\<lparr>packetBuffer := Some (u8_set b seg ?po), packetOffset := ?po + cnt\<rparr>, off + cnt, [], None))"
    using b(1) unfolding fill_packet_def Let_def cnt_def seg_def by simp
  have s: "partial c @ drop off chunk = be32 (length b) @ take ?po b @ seg @ drop (off + cnt) chunk"
    by (simp add: partial_def buf seg(2))
  have rd: "readUint32 (be32 (length b) @ xs) 0 = length b" for xs
    using b(2) by (simp add: readUint32_be32_0)
  have "(drain (core c) (partial c @ drop off chunk) evs =
      (case e of None \<Rightarrow> drain (core c') (partial c' @ drop off' chunk) (evs @ es) | Some err \<Rightarrow> (core c', [], evs @ es, Some err)))
     \<and> (e = None \<longrightarrow> frame_inv c')"
  proof (cases "?po + cnt = length b")
    case True
    have full: "u8_set b seg ?po = take ?po b @ seg" using b' True by simp
    let ?d = "c\<lparr>packetBuffer := None, packetOffset := 0\<rparr>"
    obtain c1 es1 e1 where d: "dispatch ?d (take ?po b @ seg) = (c1, es1, e1)" by (metis prod_cases3)
    have "?po + cnt = length (take ?po b @ seg)" using b(1) seg(1) by simp
    with step d have r: "c' = c1" "off' = off + cnt" "es = es1" "e = e1" unfolding fp full by simp_all
    have f: "packetBuffer c1 = None" "headerLength c1 = 0" "header c1 = header c"
      using dispatch_frame [OF d] b(3) by simp_all
    have dc: "dispatch (core c) (take ?po b @ seg) = (core c1, es1, e1)"
      using dispatch_core [of ?d "take ?po b @ seg"] d by simp
    have sub: "subarray (be32 (length b) @ take ?po b @ seg @ drop (off + cnt) chunk) 4 (4 + length b) = take ?po b @ seg"
      "drop (4 + length b) (be32 (length b) @ take ?po b @ seg @ drop (off + cnt) chunk) = drop (off + cnt) chunk"
      using b(1) seg(1) True by (simp_all add: subarray_def)
    have "drain (core c) (partial c @ drop off chunk) evs =
        (case e1 of None \<Rightarrow> drain (core c1) (drop (off + cnt) chunk) (evs @ es1) | Some err \<Rightarrow> (core c1, [], evs @ es1, Some err))"
      unfolding s using b(1,4) seg(1) True
      by (subst drain.simps) (simp add: rd sub dc split: option.splits)
    then show ?thesis using r f b(5) by (auto simp: partial_def frame_inv_def split: option.splits)
  next
    case False
    then have part: "cnt = length chunk - off" "?po + cnt < length b" using b(1) by (auto simp: cnt_def)
    let ?c = "c\<lparr>packetBuffer := Some (take ?po b @ seg @ drop (?po + cnt) b), packetOffset := ?po + cnt\<rparr>"
    have lb: "length (take ?po b @ seg @ drop (?po + cnt) b) = length b" using seg(1) part(2) by simp
    with step False have r: "c' = ?c" "off' = off + cnt" "es = []" "e = None" unfolding fp b' lb by simp_all
    have "partial ?c @ drop (off + cnt) chunk = partial c @ drop off chunk"
      unfolding s using b(1) seg(1) lb by (simp add: partial_def)
    moreover have "frame_inv ?c" using b part lb by (simp add: frame_inv_def validatePacketLength_def)
    ultimately show ?thesis using r by simp
  qed
  then show "drain (core c) (partial c @ drop off chunk) evs =
      (case e of None \<Rightarrow> drain (core c') (partial c' @ drop off' chunk) (evs @ es) | Some err \<Rightarrow> (core c', [], evs @ es, Some err))"
    and "e = None \<Longrightarrow> frame_inv c'" by auto
qed

lemma direct_packet_drain:
  assumes inv: "frame_inv c" and none: "packetBuffer c = None" "headerLength c = 0" and off: "4 \<le> length chunk - off"
    and step: "direct_packet c chunk off = (c', off', es, e)"
  shows "drain (core c) (partial c @ drop off chunk) evs =
      (case e of None \<Rightarrow> drain (core c') (partial c' @ drop off' chunk) (evs @ es) | Some err \<Rightarrow> (core c', [], evs @ es, Some err))"
    and "e = None \<Longrightarrow> frame_inv c'"
proof -
  let ?n = "readUint32 chunk off" and ?s = "drop off chunk"
  have s: "partial c @ ?s = ?s" using none by (simp add: partial_def)
  have rd: "readUint32 ?s 0 = ?n" by (simp add: readUint32_drop)
  have nb: "?n < 2 ^ 32" by (rule readUint32_bound)
  have hd: "be32 ?n = take 4 ?s" using be32_readUint32 [of off chunk] off by (simp add: subarray_def)
  have "(drain (core c) (partial c @ ?s) evs =
      (case e of None \<Rightarrow> drain (core c') (partial c' @ drop off' chunk) (evs @ es) | Some err \<Rightarrow> (core c', [], evs @ es, Some err)))
     \<and> (e = None \<longrightarrow> frame_inv c')"
  proof (cases "validatePacketLength c ?n")
    case False
    with step have "c' = c" "es = []" "e = Some (SProtocol ''packet length'')" by (simp_all add: direct_packet_def Let_def)
    with False off show ?thesis unfolding s by (subst drain.simps) (simp add: rd)
  next
    case valid: True
    show ?thesis
    proof (cases "?n \<le> length chunk - (off + 4)")
      case True
      let ?p = "subarray chunk (off + 4) (off + 4 + ?n)"
      obtain c1 es1 e1 where d: "dispatch c ?p = (c1, es1, e1)" by (metis prod_cases3)
      with step valid True have r: "c' = c1" "off' = off + 4 + ?n" "es = es1" "e = e1"
        by (simp_all add: direct_packet_def Let_def)
      have f: "packetBuffer c1 = None" "headerLength c1 = 0" "header c1 = header c"
        using dispatch_frame [OF d] none by simp_all
      have fits: "\<not> length chunk - off < 4 + ?n" using off True by linarith
      have sub: "subarray ?s 4 (4 + ?n) = ?p" "drop (4 + ?n) ?s = drop (off + 4 + ?n) chunk"
        by (simp_all add: subarray_def add.commute add.left_commute)
      have "drain (core c) ?s evs = (case e1 of None \<Rightarrow> drain (core c1) (drop (off + 4 + ?n) chunk) (evs @ es1)
          | Some err \<Rightarrow> (core c1, [], evs @ es1, Some err))"
        using off True valid dispatch_core [of c ?p] d sub fits
        by (subst drain.simps) (simp add: rd Let_def split: option.splits)
      then show ?thesis unfolding s using r f inv by (auto simp: partial_def frame_inv_def split: option.splits)
    next
      case False
      let ?b = "u8_set (zeros ?n) (drop (off + 4) chunk) 0"
      have b: "?b = drop (off + 4) chunk @ zeros (?n - (length chunk - (off + 4)))" "length ?b = ?n"
        using False by (simp_all add: u8_set_def)
      from step valid False have r: "c' = c\<lparr>packetBuffer := Some ?b, packetOffset := length chunk - (off + 4)\<rparr>"
        "off' = length chunk" "es = []" "e = None" unfolding direct_packet_def Let_def by auto
      have "partial c' = take 4 ?s @ drop 4 ?s"
        using b off by (simp add: r(1) partial_def hd [symmetric] add.commute)
      then have "partial c' @ drop off' chunk = partial c @ ?s" using r(2) unfolding s append_take_drop_id by simp
      moreover have "frame_inv c'"
        using inv none valid b False nb by (simp add: r(1) frame_inv_def validatePacketLength_def)
      ultimately show ?thesis using r by simp
    qed
  qed
  then show "drain (core c) (partial c @ drop off chunk) evs =
      (case e of None \<Rightarrow> drain (core c') (partial c' @ drop off' chunk) (evs @ es) | Some err \<Rightarrow> (core c', [], evs @ es, Some err))"
    and "e = None \<Longrightarrow> frame_inv c'" by auto
qed

lemma collect_header_drain:
  assumes inv: "frame_inv c" and none: "packetBuffer c = None" and off: "off < length chunk"
    and step: "collect_header c chunk off = (c', off', es, e)"
  shows "drain (core c) (partial c @ drop off chunk) evs =
      (case e of None \<Rightarrow> drain (core c') (partial c' @ drop off' chunk) (evs @ es) | Some err \<Rightarrow> (core c', [], evs @ es, Some err))"
    and "e = None \<Longrightarrow> frame_inv c'"
proof -
  let ?hl = "headerLength c"
  have h: "length (header c) = 4" "?hl < 4" using inv none by (auto simp: frame_inv_def)
  define hb where "hb = min (4 - ?hl) (length chunk - off)"
  define seg where "seg = subarray chunk off (off + hb)"
  define hd where "hd = u8_set (header c) seg ?hl"
  have seg: "length seg = hb" "drop off chunk = seg @ drop (off + hb) chunk"
    using drop_subarray [of off "off + hb" chunk] by (auto simp: seg_def length_subarray hb_def)
  have hd: "hd = take ?hl (header c) @ seg @ drop (?hl + hb) (header c)" by (simp add: hd_def u8_set_def seg(1))
  have s: "partial c @ drop off chunk = take ?hl (header c) @ seg @ drop (off + hb) chunk"
    by (simp add: partial_def none seg(2))
  have ch: "collect_header c chunk off =
      (if ?hl + hb = 4 then
         (if \<not> validatePacketLength (c\<lparr>header := hd, headerLength := 0\<rparr>) (readUint32 hd 0)
          then (c\<lparr>header := hd, headerLength := 0\<rparr>, off + hb, [], Some (SProtocol ''packet length''))
          else (c\<lparr>header := hd, headerLength := 0, packetBuffer := Some (zeros (readUint32 hd 0)), packetOffset := 0\<rparr>, off + hb, [], None))
       else (c\<lparr>header := hd, headerLength := ?hl + hb\<rparr>, off + hb, [], None))"
    using h(2) unfolding collect_header_def Let_def hb_def seg_def hd_def by simp
  have "(drain (core c) (partial c @ drop off chunk) evs =
      (case e of None \<Rightarrow> drain (core c') (partial c' @ drop off' chunk) (evs @ es) | Some err \<Rightarrow> (core c', [], evs @ es, Some err)))
     \<and> (e = None \<longrightarrow> frame_inv c')"
  proof (cases "?hl + hb = 4")
    case True
    have full: "hd = take ?hl (header c) @ seg" "length hd = 4" using hd True h seg(1) by simp_all
    let ?n = "readUint32 hd 0"
    have s': "partial c @ drop off chunk = hd @ drop (off + hb) chunk" unfolding s full(1) by simp
    have wire: "be32 ?n = hd" using be32_readUint32 [of 0 hd] full(2) by (simp add: subarray_def)
    have rd: "readUint32 (hd @ xs) 0 = ?n" for xs
      using readUint32_be32_0 [of ?n xs] readUint32_bound [of hd 0] by (simp add: wire)
    have v: "validatePacketLength (c\<lparr>header := hd, headerLength := 0\<rparr>) ?n = validatePacketLength c ?n"
      by (simp add: validatePacketLength_def)
    show ?thesis
    proof (cases "validatePacketLength c ?n")
      case valid: True
      from step True valid have r: "c' = c\<lparr>header := hd, headerLength := 0, packetBuffer := Some (zeros ?n), packetOffset := 0\<rparr>"
        "off' = off + hb" "es = []" "e = None" unfolding ch v by simp_all
      have "partial c' = hd" by (simp add: r(1) partial_def wire)
      moreover have "frame_inv c'"
        using valid full(2) readUint32_bound [of hd 0] by (simp add: r(1) frame_inv_def validatePacketLength_def)
      ultimately show ?thesis unfolding s' using r by simp
    next
      case False
      from step True False have r: "c' = c\<lparr>header := hd, headerLength := 0\<rparr>" "es = []" "e = Some (SProtocol ''packet length'')"
        unfolding ch v by simp_all
      show ?thesis unfolding s' using False r full(2) by (subst drain.simps) (simp add: rd)
    qed
  next
    case False
    then have part: "hb = length chunk - off" "?hl + hb < 4" using h(2) by (auto simp: hb_def)
    from step False have r: "c' = c\<lparr>header := hd, headerLength := ?hl + hb\<rparr>" "off' = off + hb" "es = []" "e = None"
      unfolding ch by simp_all
    have "partial c' = take ?hl (header c) @ seg" using h seg(1) by (simp add: r(1) partial_def none hd)
    moreover have "frame_inv c'" using h part(2) none seg(1) by (simp add: r(1) frame_inv_def hd)
    ultimately show ?thesis unfolding s using r by simp
  qed
  then show "drain (core c) (partial c @ drop off chunk) evs =
      (case e of None \<Rightarrow> drain (core c') (partial c' @ drop off' chunk) (evs @ es) | Some err \<Rightarrow> (core c', [], evs @ es, Some err))"
    and "e = None \<Longrightarrow> frame_inv c'" by auto
qed

lemma feed_step_drain:
  assumes "frame_inv c" "off < length chunk" "feed_step c chunk off = (c', off', es, e)"
  shows "drain (core c) (partial c @ drop off chunk) evs =
      (case e of None \<Rightarrow> drain (core c') (partial c' @ drop off' chunk) (evs @ es) | Some err \<Rightarrow> (core c', [], evs @ es, Some err))"
    and "e = None \<Longrightarrow> frame_inv c'"
  using fill_packet_drain [OF assms(1) _ assms(2)] direct_packet_drain [OF assms(1)] collect_header_drain [OF assms(1) _ assms(2)] assms(3)
  by (auto simp: feed_step_def split: option.splits if_splits)

lemma short_partial:
  assumes "frame_inv c"
  shows "drain (core c) (partial c) evs = (core c, partial c, evs, None)"
proof (cases "packetBuffer c")
  case None
  with assms show ?thesis by (subst drain.simps) (simp add: frame_inv_def partial_def)
next
  case (Some b)
  with assms show ?thesis
    by (subst drain.simps) (simp add: frame_inv_def partial_def readUint32_be32_0)
qed

lemma feed_loop_drain:
  "frame_inv c \<Longrightarrow> feed_loop c chunk off evs = (c', evs', e) \<Longrightarrow>
   drain (core c) (partial c @ drop off chunk) evs = (core c', (if e = None then partial c' else []), evs', e)
   \<and> (e = None \<longrightarrow> frame_inv c')"
proof (induction c chunk off evs rule: feed_loop.induct)
  case (1 c chunk off evs)
  show ?case
  proof (cases "off < length chunk")
    case True
    obtain c1 off1 es err where st: "feed_step c chunk off = (c1, off1, es, err)" by (metis prod_cases4)
    note d = feed_step_drain [OF "1.prems"(1) True st]
    show ?thesis
    proof (cases err)
      case None
      then have "feed_loop c1 chunk off1 (evs @ es) = (c', evs', e)"
        using "1.prems"(2) True st by (simp add: feed_loop.simps [of c])
      with "1.IH" [OF True st [symmetric] refl refl] d None show ?thesis by simp
    next
      case (Some x)
      with "1.prems"(2) True st d(1) show ?thesis by (auto simp: feed_loop.simps [of c])
    qed
  next
    case False
    with "1.prems" short_partial [OF "1.prems"(1)] show ?thesis by (auto simp: feed_loop.simps [of c])
  qed
qed

lemma drain_append:
  "drain c (s @ t) evs =
     (case drain c s evs of (d, rest, evs', None) \<Rightarrow> drain d (rest @ t) evs' | (d, rest, evs', Some e) \<Rightarrow> (d, [], evs', Some e))"
proof (induction c s evs rule: drain.induct)
  case (1 c s evs)
  let ?n = "readUint32 s 0"
  show ?case
  proof (cases "length s < 4")
    case True
    then show ?thesis by (simp add: drain.simps [of c s])
  next
    case long: False
    then have rd: "readUint32 (s @ t) 0 = ?n"
      using readUint32_take [of 0 4 "s @ t"] readUint32_take [of 0 4 s] by simp
    show ?thesis
    proof (cases "validatePacketLength c ?n \<and> \<not> length s < 4 + ?n")
      case True
      let ?p = "subarray s 4 (4 + ?n)"
      obtain c1 es e where d: "dispatch c ?p = (c1, es, e)" by (metis prod_cases3)
      have sub: "subarray (s @ t) 4 (4 + ?n) = ?p" "drop (4 + ?n) (s @ t) = drop (4 + ?n) s @ t"
        using True by (simp_all add: subarray_def)
      show ?thesis
      proof (cases e)
        case None
        with "1.IH" [OF long refl] True d sub long rd show ?thesis
          by (simp add: drain.simps [of c s] drain.simps [of c "s @ t"])
      next
        case (Some x)
        with True d sub long rd show ?thesis
          by (simp add: drain.simps [of c s] drain.simps [of c "s @ t"])
      qed
    next
      case False
      with long rd show ?thesis by (auto simp: drain.simps [of c s] drain.simps [of c "s @ t"] Let_def)
    qed
  qed
qed

lemma drain_events:
  "drain c s evs = (case drain c s [] of (d, rest, evs', e) \<Rightarrow> (d, rest, evs @ evs', e))"
proof (induction "length s" arbitrary: c s evs rule: less_induct)
  case (less s)
  show ?case
  proof (cases "length s < 4 \<or> \<not> validatePacketLength c (readUint32 s 0) \<or> length s < 4 + readUint32 s 0")
    case True
    then show ?thesis by (auto simp: drain.simps [of c s] Let_def)
  next
    case False
    obtain c1 es e where d: "dispatch c (subarray s 4 (4 + readUint32 s 0)) = (c1, es, e)" by (metis prod_cases3)
    show ?thesis
    proof (cases e)
      case None
      have "drain c1 (drop (4 + readUint32 s 0) s) (evs @ es)
          = (case drain c1 (drop (4 + readUint32 s 0) s) [] of (d, rest, evs', e) \<Rightarrow> (d, rest, evs @ es @ evs', e))"
        for evs
      proof -
        have "length (drop (4 + readUint32 s 0) s) < length s" using False unfolding length_drop by linarith
        from less [OF this, of c1 "evs @ es"] show ?thesis by (simp split: prod.splits)
      qed
      from this [of evs] this [of "[]"] None False d show ?thesis
        by (simp add: drain.simps [of c s] Let_def split: prod.splits)
    next
      case (Some x)
      with False d show ?thesis by (simp add: drain.simps [of c s] Let_def)
    qed
  qed
qed

text \<open>What a caller can observe of a client, and a run of \<open>feed\<close> calls that stops at the first error.\<close>

definition observe :: "SFTPClient \<times> client_event list \<times> sftp_error option \<Rightarrow> SFTPClient \<times> bytes \<times> client_event list \<times> sftp_error option" where
  "observe r = (case r of (c, evs, e) \<Rightarrow> (core c, partial c, evs, e))"

fun feed_all :: "SFTPClient \<Rightarrow> bytes list \<Rightarrow> SFTPClient \<times> client_event list \<times> sftp_error option" where
  "feed_all c [] = (c, [], None)"
| "feed_all c (x # xs) =
     (case feed c x of
        (c, evs, Some e) \<Rightarrow> (c, evs, Some e)
      | (c, evs, None) \<Rightarrow> (case feed_all c xs of (c, evs', e) \<Rightarrow> (c, evs @ evs', e)))"

lemma dispatch_alive: "dispatch c packet = (c', es, e) \<Longrightarrow> cstate c \<noteq> CDisposed \<Longrightarrow> cstate c' \<noteq> CDisposed"
  by (auto simp: dispatch_def handleVersion_def Let_def split: sum.splits prod.splits if_splits option.splits)

lemma drain_alive: "drain c s evs = (c', rest, evs', e) \<Longrightarrow> cstate c \<noteq> CDisposed \<Longrightarrow> cstate c' \<noteq> CDisposed"
proof (induction c s evs rule: drain.induct)
  case (1 c s evs)
  show ?case
  proof (cases "length s < 4 \<or> \<not> validatePacketLength c (readUint32 s 0) \<or> length s < 4 + readUint32 s 0")
    case True
    with "1.prems" show ?thesis by (auto simp: drain.simps [of c s] Let_def split: if_splits)
  next
    case False
    obtain c1 es x where d: "dispatch c (subarray s 4 (4 + readUint32 s 0)) = (c1, es, x)" by (metis prod_cases3)
    show ?thesis
      using "1.prems" False d dispatch_alive [OF d] "1.IH" [OF _ refl _ _ d [symmetric] refl]
      by (auto simp: drain.simps [of c s] Let_def split: option.splits)
  qed
qed

definition flat_feed :: "SFTPClient \<Rightarrow> bytes \<Rightarrow> SFTPClient \<times> bytes \<times> client_event list \<times> sftp_error option" where
  "flat_feed c s =
     (case drain c s [] of
        (d, rest, evs, None) \<Rightarrow> (d, rest, evs, None)
      | (d, rest, evs, Some e) \<Rightarrow> (case dispose d e of (d, evs') \<Rightarrow> (core d, [], evs @ evs', Some e)))"

lemma feed_flat:
  assumes "frame_inv c" "cstate c \<noteq> CDisposed"
  shows "observe (feed c chunk) = flat_feed (core c) (partial c @ chunk)"
    and "feed c chunk = (c', evs, None) \<Longrightarrow> frame_inv c' \<and> cstate c' \<noteq> CDisposed"
proof -
  obtain c1 evs1 e where l: "feed_loop c chunk 0 [] = (c1, evs1, e)" by (metis prod_cases3)
  note d = feed_loop_drain [OF assms(1) l]
  then have dr: "drain (core c) (partial c @ chunk) [] = (core c1, (if e = None then partial c1 else []), evs1, e)" by simp
  have alive: "cstate c1 \<noteq> CDisposed" using drain_alive [OF dr] assms(2) by simp
  have "observe (feed c chunk) = flat_feed (core c) (partial c @ chunk) \<and> (\<forall>c' evs. feed c chunk = (c', evs, None) \<longrightarrow> frame_inv c' \<and> cstate c' \<noteq> CDisposed)"
  proof (cases e)
    case None
    with d dr l assms(2) alive show ?thesis by (simp add: feed_def flat_feed_def observe_def)
  next
    case (Some x)
    have "dispose (core c1) x = (case dispose c1 x of (c', evs') \<Rightarrow> (core c', evs'))" "partial (fst (dispose c1 x)) = []"
      using alive by (simp_all add: dispose_def failInitialization_def Let_def partial_def, simp add: core_def)
    with Some dr l assms(2) alive show ?thesis
      by (simp add: feed_def flat_feed_def observe_def split: prod.splits)
  qed
  then show "observe (feed c chunk) = flat_feed (core c) (partial c @ chunk)"
    and "feed c chunk = (c', evs, None) \<Longrightarrow> frame_inv c' \<and> cstate c' \<noteq> CDisposed" by auto
qed

lemma flat_feed_append:
  "flat_feed c (s @ t) =
     (case flat_feed c s of
        (d, rest, evs, None) \<Rightarrow> (case flat_feed d (rest @ t) of (d, rest, evs', e) \<Rightarrow> (d, rest, evs @ evs', e))
      | (d, rest, evs, Some e) \<Rightarrow> (d, rest, evs, Some e))"
proof -
  obtain d rest evs e where d: "drain c s [] = (d, rest, evs, e)" by (metis prod_cases4)
  obtain d1 rest1 evs1 e1 where d1: "drain d (rest @ t) [] = (d1, rest1, evs1, e1)" by (metis prod_cases4)
  have ap: "drain c (s @ t) [] = (case e of None \<Rightarrow> (d1, rest1, evs @ evs1, e1) | Some x \<Rightarrow> (d, [], evs, Some x))"
    using drain_append [of c s t "[]"] drain_events [of d "rest @ t" evs] d d1 by (cases e) simp_all
  show ?thesis
  proof (cases e)
    case None
    with ap d d1 show ?thesis by (cases e1) (simp_all add: flat_feed_def split_beta)
  next
    case (Some x)
    with ap d show ?thesis by (simp add: flat_feed_def split_beta)
  qed
qed

lemma feed_all_flat:
  "frame_inv c \<Longrightarrow> cstate c \<noteq> CDisposed \<Longrightarrow> observe (feed_all c xs) = flat_feed (core c) (partial c @ concat xs)"
proof (induction xs arbitrary: c)
  case Nil
  then show ?case using short_partial [of c "[]"] by (simp add: observe_def flat_feed_def)
next
  case (Cons x xs)
  obtain c1 evs e where f: "feed c x = (c1, evs, e)" by (metis prod_cases3)
  note ff = feed_flat [OF Cons.prems, of x]
  have ob: "flat_feed (core c) (partial c @ x) = (core c1, partial c1, evs, e)" using ff(1) f by (simp add: observe_def)
  have app: "partial c @ concat (x # xs) = (partial c @ x) @ concat xs" by simp
  show ?case
  proof (cases e)
    case None
    then have "frame_inv c1" "cstate c1 \<noteq> CDisposed" using ff(2) f by auto
    from Cons.IH [OF this] show ?thesis
      unfolding app flat_feed_append [of "core c" "partial c @ x" "concat xs"] ob using f None by (auto simp: observe_def split: prod.splits)
  next
    case (Some y)
    then show ?thesis unfolding app flat_feed_append [of "core c" "partial c @ x" "concat xs"] ob using f by (simp add: observe_def)
  qed
qed

end
