(* ===== verification/Sftp_Runs.thy ===== *)
theory Sftp_Runs
  imports Sftp_Client "HOL-Library.Multiset"
begin

text \<open>
  Runs of the SFTP client: every interleaving of the public operations, chunks of server data, timers
  and failed sends, as a step relation. The accounting predicate \<open>accounts\<close> says that a step settles
  each promise it removes and opens each promise it issues; the framing invariant of \<open>Sftp_Client\<close>
  holds in every reachable state.
\<close>

subsection \<open>Every promise is settled once\<close>

text \<open>The promises a run of the client can leave open: one per pending request and the one of \<open>initialize\<close>.\<close>

definition client_inv :: "SFTPClient \<Rightarrow> bool" where
  "client_inv c \<longleftrightarrow>
     distinct (map fst (pending c)) \<and> 1 \<le> nextRequestId c \<and> nextRequestId c \<le> ids \<and>
     (initPending c \<longleftrightarrow> cstate c = CInitializing) \<and> (initStarted c \<longrightarrow> cstate c \<noteq> CNew) \<and>
     (cstate c = CReady \<longrightarrow> initStarted c) \<and> (initPending c \<longrightarrow> initStarted c) \<and>
     (pending c \<noteq> [] \<longrightarrow> cstate c = CReady)"

fun settled :: "client_event list \<Rightarrow> nat multiset" where
  "settled [] = {#}"
| "settled (Resolved i v # es) = add_mset i (settled es)"
| "settled (Rejected i e # es) = add_mset i (settled es)"
| "settled (_ # es) = settled es"

fun init_settled :: "client_event list \<Rightarrow> nat" where
  "init_settled [] = 0"
| "init_settled (InitResolved v x # es) = Suc (init_settled es)"
| "init_settled (InitRejected e # es) = Suc (init_settled es)"
| "init_settled (_ # es) = init_settled es"

lemma settled_append [simp]:
  "settled (es @ fs) = settled es + settled fs" "init_settled (es @ fs) = init_settled es + init_settled fs"
  by (induction es rule: settled.induct) simp_all

lemma settled_rejections [simp]:
  "settled (map (\<lambda>(i, k). Rejected i e) ps) = mset (map fst ps)" "init_settled (map (\<lambda>(i, k). Rejected i e) ps) = 0"
  by (induction ps) auto

definition open_ids :: "SFTPClient \<Rightarrow> nat multiset" where
  "open_ids c = mset (map fst (pending c))"

definition init_done :: "SFTPClient \<Rightarrow> nat" where
  "init_done c = (if initStarted c \<and> \<not> initPending c then 1 else 0)"

definition accounts :: "SFTPClient \<Rightarrow> nat list \<Rightarrow> client_event list \<Rightarrow> SFTPClient \<Rightarrow> bool" where
  "accounts c issued evs c' \<longleftrightarrow>
     (client_inv c \<longrightarrow> client_inv c' \<and> open_ids c + mset issued = settled evs + open_ids c'
                      \<and> init_done c + init_settled evs = init_done c')"

lemma accounts_refl [simp]: "accounts c [] [] c"
  by (simp add: accounts_def)

lemma accounts_trans:
  assumes "accounts c is evs c1" "accounts c1 js evs' c2"
  shows "accounts c (is @ js) (evs @ evs') c2"
proof (cases "client_inv c")
  case True
  with assms have "open_ids c + mset is = settled evs + open_ids c1" "open_ids c1 + mset js = settled evs' + open_ids c2"
    "client_inv c2" "init_done c + init_settled evs + init_settled evs' = init_done c2"
    by (auto simp: accounts_def)
  moreover from this(1,2) have "open_ids c + (mset is + mset js) = settled evs + settled evs' + open_ids c2"
    by (metis (no_types, lifting) add.assoc add.commute)
  ultimately show ?thesis by (simp add: accounts_def)
qed (simp add: accounts_def)

lemma mset_delete_pending:
  assumes "distinct (map fst ps)" "map_of ps i = Some k"
  shows "mset (map fst ps) = add_mset i (mset (map fst (delete_pending i ps)))" "distinct (map fst (delete_pending i ps))"
  using assms
proof (induction ps)
  case (Cons p ps)
  { case 1
    have keep: "fst p \<notin> fst ` set ps" using 1 by simp
    then have "delete_pending (fst p) ps = ps" unfolding delete_pending_def by (intro filter_True) (metis image_eqI)
    with Cons 1 show ?case by (cases "fst p = i") (auto simp: delete_pending_def split: prod.splits)
  next
    case 2
    with Cons show ?case by (auto simp: delete_pending_def distinct_map_filter split: if_splits)
  }
qed simp_all

lemma accounts_settle:
  assumes "map_of (pending c) i = Some k"
  shows "accounts c [] [Rejected i e] (c\<lparr>pending := delete_pending i (pending c)\<rparr>)"
    "accounts c [] [Resolved i v] (c\<lparr>pending := delete_pending i (pending c)\<rparr>)"
proof -
  have "pending c \<noteq> []" using assms by auto
  with mset_delete_pending [OF _ assms]
  show "accounts c [] [Rejected i e] (c\<lparr>pending := delete_pending i (pending c)\<rparr>)"
    "accounts c [] [Resolved i v] (c\<lparr>pending := delete_pending i (pending c)\<rparr>)"
    by (simp_all add: accounts_def client_inv_def open_ids_def init_done_def)
qed

lemma accounts_failPending: "failPending c i e = (c', evs) \<Longrightarrow> accounts c [] evs c'"
  by (auto simp: failPending_def split: option.splits dest: accounts_settle)

lemma accounts_request_timeout: "request_timeout c i = (c', evs) \<Longrightarrow> accounts c [] evs c'"
  using map_of_eq_None_iff [of "pending c" i]
  by (cases "map_of (pending c) i") (auto simp: request_timeout_def split: if_splits dest: accounts_settle)

lemma accounts_dispose: "dispose c e = (c', evs) \<Longrightarrow> accounts c [] evs c'"
  by (auto simp: dispose_def failInitialization_def accounts_def client_inv_def open_ids_def init_done_def Let_def split: if_splits)

lemma accounts_fail_dispose:
  assumes "failInitialization c e = (c1, es1)" "dispose c1 e = (c2, es2)"
  shows "accounts c [] (es1 @ es2) c2"
proof (cases "cstate c = CDisposed")
  case True
  with assms have "c1 = c\<lparr>initPending := False\<rparr>" "c2 = c1" "es2 = []" "es1 = (if initPending c then [InitRejected e] else [])"
    by (auto simp: failInitialization_def dispose_def)
  with True show ?thesis by (simp add: accounts_def client_inv_def open_ids_def init_done_def)
next
  case False
  with assms have "dispose c e = (c2, es1 @ es2)" by (auto simp: failInitialization_def dispose_def Let_def)
  then show ?thesis by (rule accounts_dispose)
qed

lemma accounts_init_timeout: "init_timeout c = (c', evs) \<Longrightarrow> accounts c [] evs c'"
  by (auto simp: init_timeout_def Let_def accounts_fail_dispose split: prod.splits)

lemma accounts_init_send_failed: "init_send_failed c e = (c', evs) \<Longrightarrow> accounts c [] evs c'"
  by (auto simp: init_send_failed_def Let_def accounts_fail_dispose split: prod.splits if_splits)

lemma accounts_handleVersion: "handleVersion c r = (c', evs, e) \<Longrightarrow> accounts c [] evs c'"
  by (auto simp: handleVersion_def accounts_def client_inv_def open_ids_def init_done_def split: if_splits sum.splits)

lemma accounts_dispatch:
  assumes "dispatch c packet = (c', evs, e)"
  shows "accounts c [] evs c'"
  using assms
  by (auto simp: dispatch_def Let_def accounts_settle accounts_handleVersion split: sum.splits prod.splits if_splits option.splits)

lemma accounts_frame:
  "accounts c is evs (c'\<lparr>header := h\<rparr>) = accounts c is evs c'" "accounts c is evs (c'\<lparr>headerLength := n\<rparr>) = accounts c is evs c'"
  "accounts c is evs (c'\<lparr>packetBuffer := b\<rparr>) = accounts c is evs c'" "accounts c is evs (c'\<lparr>packetOffset := m\<rparr>) = accounts c is evs c'"
  "accounts (c\<lparr>packetBuffer := b\<rparr>) is evs c' = accounts c is evs c'" "accounts (c\<lparr>packetOffset := m\<rparr>) is evs c' = accounts c is evs c'"
  by (simp_all add: accounts_def client_inv_def open_ids_def init_done_def)

lemma accounts_feed_step: "feed_step c chunk off = (c', off', evs, e) \<Longrightarrow> accounts c [] evs c'"
  by (auto simp: feed_step_def fill_packet_def direct_packet_def collect_header_def Let_def accounts_frame
      split: option.splits if_splits prod.splits dest!: accounts_dispatch)

lemma accounts_feed_loop: "feed_loop c chunk off evs = (c', evs', e) \<Longrightarrow> accounts c0 [] evs c \<Longrightarrow> accounts c0 [] evs' c'"
proof (induction c chunk off evs rule: feed_loop.induct)
  case (1 c chunk off evs)
  obtain c1 off1 es x where s: "feed_step c chunk off = (c1, off1, es, x)" by (metis prod_cases4)
  then have "accounts c0 [] (evs @ es) c1" using accounts_trans [OF "1.prems"(2) accounts_feed_step [OF s]] by simp
  with "1.prems" "1.IH" [OF _ s [symmetric] refl refl] s show ?case
    by (auto simp: feed_loop.simps [of c chunk off] split: if_splits option.splits)
qed

lemma accounts_feed:
  assumes "feed c chunk = (c', evs, e)"
  shows "accounts c [] evs c'"
proof -
  obtain c1 es x where l: "feed_loop c chunk 0 [] = (c1, es, x)" by (metis prod_cases3)
  obtain c2 es2 where d: "\<And>y. x = Some y \<Longrightarrow> dispose c1 y = (c2, es2)" by (metis option.inject prod.exhaust option.exhaust)
  note a = accounts_feed_loop [OF l accounts_refl]
  show ?thesis
    using assms l d a accounts_trans [OF a accounts_dispose [OF d]]
    by (cases x) (auto simp: feed_def split: if_splits)
qed

lemma settled_sendFramed [simp]:
  "sendFramed c body throws = Inr evs \<Longrightarrow> settled evs = {#} \<and> init_settled evs = 0"
  by (auto simp: sendFramed_def Let_def split: if_splits option.splits)

lemma accounts_initialize:
  assumes "initialize c throws = (c', evs, r)"
  shows "accounts c [] evs c'"
proof (cases "cstate c = CNew \<and> \<not> initStarted c")
  case True
  let ?c = "c\<lparr>cstate := CInitializing, initStarted := True, initPending := True\<rparr>"
  have start: "accounts c [] [] ?c" using True by (auto simp: accounts_def client_inv_def open_ids_def init_done_def)
  show ?thesis
  proof (cases "sendFramed ?c (join [[SFTP_INIT], writeUint32 (zeros 4) 0 SFTP_VERSION]) throws")
    case (Inl e)
    obtain c1 es1 c2 es2 where d: "failInitialization ?c e = (c1, es1)" "dispose c1 e = (c2, es2)" by (metis prod.exhaust)
    with assms True Inl have "c' = c2" "evs = es1 @ es2" by (simp_all add: initialize_def assertState_def Let_def)
    then show ?thesis using accounts_trans [OF start accounts_fail_dispose [OF d]] by simp
  next
    case (Inr es)
    with assms True have "c' = ?c" "evs = es" by (simp_all add: initialize_def assertState_def Let_def)
    with start settled_sendFramed [OF Inr] show ?thesis by (simp add: accounts_def)
  qed
next
  case False
  with assms have "c' = c" "evs = []" by (auto simp: initialize_def assertState_def split: if_splits)
  then show ?thesis by simp
qed

lemma allocateRequestId_sound:
  assumes "allocateRequestId c = Inr (i, c')" "client_inv c"
  shows "1 \<le> i" "i \<le> ids" "i \<notin> fst ` set (pending c)" "c' = c\<lparr>nextRequestId := next_id i\<rparr>" "client_inv c'"
proof -
  have n: "1 \<le> nextRequestId c" "nextRequestId c \<le> ids" using assms(2) by (simp_all add: client_inv_def)
  have a: "allocate_loop (length (pending c) + 1) (fst ` set (pending c)) (nextRequestId c) = Some i"
    and c': "c' = c\<lparr>nextRequestId := next_id i\<rparr>"
    using assms(1) by (auto simp: allocateRequestId_def next_id_def Let_def simp del: allocate_loop.simps split: option.splits)
  note s = allocate_loop_sound [OF a n]
  with c' show "1 \<le> i" "i \<le> ids" "i \<notin> fst ` set (pending c)" "c' = c\<lparr>nextRequestId := next_id i\<rparr>" by auto
  from s have "1 \<le> next_id i" "next_id i \<le> ids" using next_id_cycle [of i] by auto
  with assms(2) c' show "client_inv c'" by (simp add: client_inv_def)
qed

lemma accounts_request:
  assumes "request c type fs kind throws = (c', evs, r)"
  shows "accounts c (case r of Inr i \<Rightarrow> [i] | Inl _ \<Rightarrow> []) evs c'"
proof (cases "client_inv c \<and> cstate c = CReady")
  case True
  show ?thesis
  proof (cases "allocateRequestId c")
    case (Inl e)
    with assms True show ?thesis by (auto simp: request_def assertState_def)
  next
    case (Inr p)
    then obtain i c1 where al: "allocateRequestId c = Inr (i, c1)" by (cases p) simp
    note i = allocateRequestId_sound [OF al conjunct1 [OF True]]
    obtain rid where rid: "encodeUint32L (JSInt (int i)) ''request ID'' = Inr rid"
      using i(2) encodeUint32L_eq [of "JSInt (int i)"] by auto
    let ?c = "c1\<lparr>pending := pending c1 @ [(i, kind)]\<rparr>"
    have start: "accounts c [i] [] ?c"
      using i True by (auto simp: accounts_def client_inv_def open_ids_def init_done_def)
    show ?thesis
    proof (cases "sendFramed ?c (join ([type] # rid # fs)) throws")
      case (Inr es)
      with assms True al rid have "c' = ?c" "evs = es" "r = Inr i" by (simp_all add: request_def assertState_def Let_def)
      with start settled_sendFramed [OF Inr] show ?thesis by (simp add: accounts_def)
    next
      case (Inl e)
      obtain c2 es where f: "failPending ?c i e = (c2, es)" by (metis prod.exhaust)
      with assms True al rid Inl have "c' = c2" "evs = es" "r = Inr i" by (simp_all add: request_def assertState_def Let_def)
      with accounts_trans [OF start accounts_failPending [OF f]] show ?thesis by simp
    qed
  qed
next
  case False
  then have "accounts c [] [] c" "cstate c \<noteq> CReady \<or> \<not> client_inv c" by auto
  with assms show ?thesis
    by (cases "cstate c = CReady") (auto simp: request_def assertState_def accounts_def)
qed

subsection \<open>Runs of the client\<close>

text \<open>The calls of the public interface that start a request.\<close>

datatype client_call =
    CallRealpath string | CallOpenDir string | CallReadDir bytes | CallClose bytes | CallStat string
  | CallOpen string js_number "SFTPAttrsInput option" | CallRead bytes SFTPUint64Input js_number
  | CallWrite bytes SFTPUint64Input bytes | CallRemove string | CallMkdir string "SFTPAttrsInput option"
  | CallRmdir string | CallRename string string

fun call :: "SFTPClient \<Rightarrow> client_call \<Rightarrow> sftp_error option \<Rightarrow> SFTPClient \<times> client_event list \<times> (sftp_error, nat) result" where
  "call c (CallRealpath p) t = realpath c p t"
| "call c (CallOpenDir p) t = openDir c p t"
| "call c (CallReadDir h) t = readDir c h t"
| "call c (CallClose h) t = closeHandle c h t"
| "call c (CallStat p) t = stat c p t"
| "call c (CallOpen p f a) t = openFile c p f a t"
| "call c (CallRead h off n) t = readFile c h off n t"
| "call c (CallWrite h off d) t = writeFile c h off d t"
| "call c (CallRemove p) t = removeFile c p t"
| "call c (CallMkdir p a) t = mkdir c p a t"
| "call c (CallRmdir p) t = rmdir c p t"
| "call c (CallRename p q) t = rename c p q t"

text \<open>Every call is \<open>with_fields\<close> around \<open>request\<close>.\<close>

lemmas call_defs = realpath_def openDir_def readDir_def closeHandle_def stat_def openFile_def readFile_def writeFile_def
  removeFile_def mkdir_def rmdir_def rename_def statusRequest_def

lemma call_request:
  obtains type kind fs where "call c k t = with_fields c fs (\<lambda>fs. request c type fs kind t)"
  by (cases k) (auto simp: call_defs)

lemma accounts_call:
  assumes "call c k t = (c', evs, r)"
  shows "accounts c (case r of Inr i \<Rightarrow> [i] | Inl _ \<Rightarrow> []) evs c'"
proof -
  obtain type kind fs where "call c k t = with_fields c fs (\<lambda>fs. request c type fs kind t)" by (rule call_request)
  with assms accounts_request [of c type _ kind t] show ?thesis by (cases fs) (auto simp: with_fields_def)
qed

text \<open>A run: any interleaving of calls, chunks from the server, timers, failed sends and disposal, with
  the identifiers issued and the events raised, in order.\<close>

inductive client_step :: "SFTPClient \<Rightarrow> nat list \<Rightarrow> client_event list \<Rightarrow> SFTPClient \<Rightarrow> bool" where
  step_initialize: "initialize c t = (c', evs, r) \<Longrightarrow> client_step c [] evs c'"
| step_call: "call c k t = (c', evs, r) \<Longrightarrow> client_step c (case r of Inr i \<Rightarrow> [i] | Inl _ \<Rightarrow> []) evs c'"
| step_feed: "feed c chunk = (c', evs, e) \<Longrightarrow> client_step c [] evs c'"
| step_request_timeout: "request_timeout c i = (c', evs) \<Longrightarrow> client_step c [] evs c'"
| step_send_failed: "failPending c i e = (c', evs) \<Longrightarrow> client_step c [] evs c'"
| step_init_timeout: "init_timeout c = (c', evs) \<Longrightarrow> client_step c [] evs c'"
| step_init_send_failed: "init_send_failed c e = (c', evs) \<Longrightarrow> client_step c [] evs c'"
| step_dispose: "dispose c e = (c', evs) \<Longrightarrow> client_step c [] evs c'"

inductive client_run :: "SFTPClient \<Rightarrow> nat list \<Rightarrow> client_event list \<Rightarrow> SFTPClient \<Rightarrow> bool" where
  run_start: "client_run c [] [] c"
| run_step: "client_run c is evs c1 \<Longrightarrow> client_step c1 js evs' c2 \<Longrightarrow> client_run c (is @ js) (evs @ evs') c2"

lemma client_step_accounts: "client_step c is evs c' \<Longrightarrow> accounts c is evs c'"
  by (induction rule: client_step.induct)
    (auto intro: accounts_initialize accounts_feed accounts_request_timeout accounts_failPending
      accounts_init_timeout accounts_init_send_failed accounts_dispose dest: accounts_call)

lemma client_run_accounts: "client_run c is evs c' \<Longrightarrow> accounts c is evs c'"
  by (induction rule: client_run.induct) (auto intro: accounts_trans client_step_accounts)

lemma new_SFTPClient_inv:
  assumes "new_SFTPClient options = Inr c"
  shows "client_inv c" "frame_inv c" "pending c = []" "cstate c = CNew" "initStarted c = False" "nextRequestId c < 2 ^ 32"
    "partial c = []"
  using assms
  by (auto simp: new_SFTPClient_def and_then_Inr_iff client_inv_def frame_inv_def U32_MAX_def partial_def
      split: if_splits elim!: uint32.elims)

text \<open>The framing invariant holds along a run.\<close>

lemma feed_step_header:
  assumes "feed_step c chunk off = (c', off', es, e)" "frame_inv c"
  shows "length (header c') = 4"
proof -
  have len: "length (header c) = 4" using assms(2) by (simp add: frame_inv_def)
  show ?thesis
    using assms len
    by (auto simp: feed_step_def fill_packet_def direct_packet_def collect_header_def Let_def u8_set_def length_subarray
        split: option.splits if_splits prod.splits dest!: dispatch_frame(1))
qed

lemma feed_loop_header:
  "feed_loop c chunk off evs = (c', evs', e) \<Longrightarrow> frame_inv c \<Longrightarrow> length (header c') = 4"
proof (induction c chunk off evs rule: feed_loop.induct)
  case (1 c chunk off evs)
  obtain c1 off1 es x where s: "feed_step c chunk off = (c1, off1, es, x)" by (metis prod_cases4)
  note h = feed_step_header [OF s "1.prems"(2)]
  show ?case
  proof (cases "off < length chunk \<and> x = None")
    case True
    then have "frame_inv c1" using feed_step_drain(2) [OF "1.prems"(2) _ s] by simp
    with "1.IH" [OF _ s [symmetric] refl refl] True "1.prems" s show ?thesis
      by (auto simp: feed_loop.simps [of c chunk off])
  next
    case False
    with h "1.prems" s show ?thesis
      by (auto simp: feed_loop.simps [of c chunk off] frame_inv_def split: if_splits option.splits)
  qed
qed

lemma frame_inv_cong:
  "\<lbrakk>header c' = header c; headerLength c' = headerLength c; packetBuffer c' = packetBuffer c; packetOffset c' = packetOffset c;
    maxPacketLength c' = maxPacketLength c; maxBufferedBytes c' = maxBufferedBytes c\<rbrakk> \<Longrightarrow> frame_inv c' = frame_inv c"
  by (simp add: frame_inv_def validatePacketLength_def cong: option.case_cong)

lemma frame_inv_dispose:
  assumes "dispose c e = (c', evs)" "length (header c) = 4" "cstate c = CDisposed \<Longrightarrow> frame_inv c"
  shows "frame_inv c'"
  using assms by (cases "cstate c = CDisposed") (auto simp: dispose_def failInitialization_def Let_def frame_inv_def)

lemma frame_inv_header: "frame_inv c \<Longrightarrow> length (header c) = 4"
  by (simp add: frame_inv_def)

lemma frame_inv_fail: "failInitialization c e = (c', evs) \<Longrightarrow> frame_inv c' = frame_inv c"
  by (rule frame_inv_cong) (auto simp: failInitialization_def)

lemma frame_inv_fail_dispose:
  "failInitialization c e = (c1, es1) \<Longrightarrow> dispose c1 e = (c2, es2) \<Longrightarrow> frame_inv c \<Longrightarrow> frame_inv c2"
  by (rule frame_inv_dispose [of c1 e]) (use frame_inv_fail [of c e c1 es1] frame_inv_header [of c1] in simp_all)

lemma frame_inv_failPending: "failPending c i e = (c', evs) \<Longrightarrow> frame_inv c' = frame_inv c"
  by (rule frame_inv_cong) (auto simp: failPending_def split: option.splits)

lemma frame_inv_feed:
  assumes "feed c chunk = (c', evs, e)" "frame_inv c"
  shows "frame_inv c'"
proof (cases "cstate c = CDisposed")
  case False
  obtain c1 es x where l: "feed_loop c chunk 0 [] = (c1, es, x)" by (metis prod_cases3)
  note d = feed_loop_drain [OF assms(2) l] and h = feed_loop_header [OF l assms(2)]
  have "cstate c1 \<noteq> CDisposed"
    using d drain_alive [of "core c" "partial c @ chunk" "[]"] False by auto
  with d h assms(1) l False show ?thesis
    by (cases x) (auto simp: feed_def split: prod.splits intro: frame_inv_dispose)
qed (use assms in \<open>simp add: feed_def\<close>)

lemma frame_inv_initialize:
  assumes "initialize c t = (c', evs, r)" "frame_inv c"
  shows "frame_inv c'"
proof -
  let ?c = "c\<lparr>cstate := CInitializing, initStarted := True, initPending := True\<rparr>"
  have start: "frame_inv ?c" using assms(2) by (subst frame_inv_cong) simp_all
  obtain b where b: "sendFramed ?c (join [[SFTP_INIT], writeUint32 (zeros 4) 0 SFTP_VERSION]) t = b" by simp
  have "c' = c \<or> c' = ?c \<or> (\<exists>e es1 es2 c1. failInitialization ?c e = (c1, es1) \<and> dispose c1 e = (c', es2))"
    using assms(1) b by (cases b) (auto simp: initialize_def Let_def split: if_splits sum.splits prod.splits)
  with start assms(2) frame_inv_fail_dispose show ?thesis by blast
qed

lemma frame_inv_request:
  assumes "request c type fs kind t = (c', evs, r)" "frame_inv c"
  shows "frame_inv c'"
proof -
  have al: "allocateRequestId c = Inr (i, c1) \<Longrightarrow> frame_inv (c1\<lparr>pending := ps\<rparr>)" for i c1 ps
    using assms(2) by (subst frame_inv_cong [where c = c]) (auto simp: allocateRequestId_def Let_def simp del: allocate_loop.simps split: option.splits)
  from al have al': "allocateRequestId c = Inr (i, c1) \<Longrightarrow> frame_inv c1" for i c1
    using frame_inv_cong [of c1 "c1\<lparr>pending := []\<rparr>"] by auto
  show ?thesis
    using assms al al'
    by (auto simp: request_def Let_def frame_inv_failPending split: sum.splits prod.splits)
qed

lemma frame_inv_call:
  assumes "call c k t = (c', evs, r)" "frame_inv c"
  shows "frame_inv c'"
proof -
  obtain type kind fs where "call c k t = with_fields c fs (\<lambda>fs. request c type fs kind t)" by (rule call_request)
  with assms frame_inv_request [of c type _ kind t] show ?thesis by (cases fs) (auto simp: with_fields_def)
qed

lemma client_step_frame_inv: "client_step c is evs c' \<Longrightarrow> frame_inv c \<Longrightarrow> frame_inv c'"
proof (induction rule: client_step.induct)
  case (step_request_timeout c i c' evs)
  then show ?case using frame_inv_cong [of c' c] by (auto simp: request_timeout_def split: if_splits)
next
  case (step_init_timeout c c' evs)
  then show ?case by (auto simp: init_timeout_def Let_def split: prod.splits intro: frame_inv_fail_dispose)
next
  case (step_init_send_failed c e c' evs)
  then show ?case by (auto simp: init_send_failed_def Let_def split: prod.splits if_splits intro: frame_inv_fail_dispose)
next
  case (step_dispose c e c' evs)
  then show ?case using frame_inv_dispose frame_inv_header by blast
qed (auto intro: frame_inv_initialize frame_inv_call frame_inv_feed simp: frame_inv_failPending)

lemma client_run_frame_inv: "client_run c is evs c' \<Longrightarrow> frame_inv c \<Longrightarrow> frame_inv c'"
  by (induction rule: client_run.induct) (auto intro: client_step_frame_inv)

text \<open>C6: In every interleaving of calls, server data, timers, failed sends and disposal, starting from
  a freshly constructed client, each request identifier issued is settled exactly once or is still in the
  pending table; the promise of \<open>initialize\<close> is settled at most once, and settled unless it is still
  open; a disposed client leaves no promise open.\<close>

theorem sftp_promises_settled_once:
  assumes "new_SFTPClient options = Inr c0" "client_run c0 issued evs c"
  shows "mset issued = settled evs + mset (map fst (pending c)) \<and> distinct (map fst (pending c))
    \<and> init_settled evs = (if initStarted c \<and> \<not> initPending c then 1 else 0)
    \<and> (cstate c = CDisposed \<longrightarrow> pending c = [] \<and> \<not> initPending c)"
  using client_run_accounts [OF assms(2)] new_SFTPClient_inv [OF assms(1)]
  by (auto simp: accounts_def client_inv_def open_ids_def init_done_def)

text \<open>C33: In every reachable state, a request identifier that is allocated is a non-zero 32-bit number
  that no pending request uses, and allocation fails only when fewer than two identifiers are free.\<close>

theorem sftp_request_ids_fresh:
  assumes "new_SFTPClient options = Inr c0" "client_run c0 issued evs c"
  shows "case allocateRequestId c of
      Inr (i, c') \<Rightarrow> 1 \<le> i \<and> i < 2 ^ 32 \<and> i \<notin> fst ` set (pending c) \<and> pending c' = pending c
    | Inl e \<Rightarrow> 2 ^ 32 - 1 \<le> length (pending c)"
proof -
  have inv: "client_inv c" using client_run_accounts [OF assms(2)] new_SFTPClient_inv(1) [OF assms(1)] by (simp add: accounts_def)
  show ?thesis
  proof (cases "allocateRequestId c")
    case (Inl e)
    then have "allocate_loop (length (pending c) + 1) (fst ` set (pending c)) (nextRequestId c) = None"
      by (auto simp: allocateRequestId_def Let_def simp del: allocate_loop.simps split: option.splits)
    moreover have "card (fst ` set (pending c)) \<le> length (pending c)" by (metis card_length length_map set_map)
    ultimately have "\<not> length (pending c) + 1 \<le> ids"
      using allocate_loop_complete [of "nextRequestId c" "fst ` set (pending c)" "length (pending c) + 1"] inv
      by (auto simp: client_inv_def simp del: allocate_loop.simps)
    with Inl show ?thesis by simp
  next
    case (Inr p)
    then show ?thesis using allocateRequestId_sound [OF _ inv, of "fst p" "snd p"] by (cases p) auto
  qed
qed

text \<open>C19: Framing refines a flat byte stream: in every reachable state of a client that is not disposed,
  feeding the server's bytes chunk by chunk gives the state, events and error of cutting whole packets off
  the concatenation of the buffered bytes and the chunks; so the chunking does not matter.\<close>

theorem sftp_feed_refines_stream:
  assumes "new_SFTPClient options = Inr c0" "client_run c0 issued evs c" "cstate c \<noteq> CDisposed"
  shows "observe (feed_all c chunks) = flat_feed (core c) (partial c @ concat chunks)"
  using client_run_frame_inv [OF assms(2) new_SFTPClient_inv(2) [OF assms(1)]] assms(3) by (rule feed_all_flat)

subsection \<open>A session that reaches every hypothesis\<close>

definition default_options :: SFTPClientOptions where
  "default_options = \<lparr>opt_maxPacketLength = None, opt_maxBufferedBytes = None, opt_maxNameEntries = None,
     opt_maxExtendedAttributes = None, opt_maxVersionExtensions = None, opt_requestTimeoutMs = None, opt_initialRequestId = None\<rparr>"

definition default_client :: SFTPClient where
  "default_client = \<lparr>maxPacketLength = 4194304, maxBufferedBytes = 4194308, maxNameEntries = 16384, maxExtendedAttributes = 1024,
     maxVersionExtensions = 256, requestTimeoutMs = 30000, pending = [], cstate = CNew, nextRequestId = 1,
     header = zeros 4, headerLength = 0, packetBuffer = None, packetOffset = 0, initStarted = False, initPending = False\<rparr>"

lemma new_default_client: "new_SFTPClient default_options = Inr default_client"
  by (simp add: new_SFTPClient_def default_options_def default_client_def or_default_def U32_MAX_def MAX_SAFE_INTEGER_def
      DEFAULT_MAX_PACKET_LENGTH_def DEFAULT_MAX_NAME_ENTRIES_def DEFAULT_MAX_EXTENDED_ATTRIBUTES_def
      DEFAULT_MAX_VERSION_EXTENSIONS_def DEFAULT_REQUEST_TIMEOUT_MS_def)

definition ready_client :: SFTPClient where
  "ready_client = default_client\<lparr>cstate := CReady, initStarted := True\<rparr>"

lemma default_client_init:
  "initialize default_client None = (default_client\<lparr>cstate := CInitializing, initStarted := True, initPending := True\<rparr>,
     [SentFrame [0, 0, 0, 5, 1, 0, 0, 0, 3]], Inr ())"
  by (simp add: initialize_def assertState_def sendFramed_def Let_def default_client_def U32_MAX_def SFTP_INIT_def SFTP_VERSION_def buf_simps be32_def u8_set_def join_def concat_arrays_concat drop_bit_eq_div)

lemma default_client_version:
  "feed (default_client\<lparr>cstate := CInitializing, initStarted := True, initPending := True\<rparr>) [0, 0, 0, 5, 2, 0, 0, 0, 3]
   = (ready_client, [InitResolved 3 []], None)"
proof -
  let ?c = "default_client\<lparr>cstate := CInitializing, initStarted := True, initPending := True\<rparr>"
  let ?chunk = "[0, 0, 0, 5, 2, 0, 0, 0, 3] :: bytes"
  have r: "readUint32 ?chunk 0 = 5" "readUint32 [2, 0, 0, 0, 3] 1 = 3" by code_simp+
  have "handleVersion ?c \<lparr>rd_data = [2, 0, 0, 0, 3], rd_offset = 1\<rparr> = (ready_client, [InitResolved 3 []], None)"
    by (simp add: handleVersion_def rd_uint32_def require_def remaining_def r [simplified] version_loop.simps [of 256] assert_end_def
        default_client_def ready_client_def SFTP_VERSION_def)
  then have d: "dispatch ?c [2, 0, 0, 0, 3] = (ready_client, [InitResolved 3 []], None)"
    by (simp add: dispatch_def rd_byte_def new_Reader_def require_def remaining_def SFTP_VERSION_PACKET_def)
  have "feed_step ?c ?chunk 0 = (ready_client, 9, [InitResolved 3 []], None)"
    by (simp add: feed_step_def direct_packet_def r(1) d subarray_def validatePacketLength_def default_client_def [THEN arg_cong, of packetBuffer]
       default_client_def [THEN arg_cong, of headerLength] default_client_def [THEN arg_cong, of maxPacketLength] default_client_def [THEN arg_cong, of maxBufferedBytes])
  then have "feed_loop ?c ?chunk 0 [] = feed_loop ready_client ?chunk 9 [InitResolved 3 []]"
    by (subst feed_loop.simps) simp
  also have "\<dots> = (ready_client, [InitResolved 3 []], None)" by (subst feed_loop.simps) simp
  finally show ?thesis by (simp add: feed_def)
qed

lemma ready_client_realpath:
  "realpath ready_client ''/'' None = (ready_client\<lparr>pending := [(1, ReqRealpath)], nextRequestId := 2\<rparr>,
     [SentFrame [0, 0, 0, 10, 16, 0, 0, 0, 1, 0, 0, 0, 1, 47]], Inr 1)"
  by (simp add: realpath_def with_fields_def one_field_def encodeTextL_def encodeBytesL_def request_def assertState_def
      allocateRequestId_def sendFramed_def Let_def encodeUint32L_def
      default_client_def ready_client_def U32_MAX_def buf_simps be32_def u8_set_def SFTP_REALPATH_def join_def concat_arrays_concat utf8_encode_def drop_bit_eq_div)

lemma example_run:
  "client_run default_client [1] [SentFrame [0, 0, 0, 5, 1, 0, 0, 0, 3], InitResolved 3 [],
      SentFrame [0, 0, 0, 10, 16, 0, 0, 0, 1, 0, 0, 0, 1, 47]]
     (ready_client\<lparr>pending := [(1, ReqRealpath)], nextRequestId := 2\<rparr>)"
proof -
  note s1 = run_step [OF run_start step_initialize [OF default_client_init]]
  note s2 = run_step [OF s1 step_feed [OF default_client_version]]
  have "call ready_client (CallRealpath ''/'') None = (ready_client\<lparr>pending := [(1, ReqRealpath)], nextRequestId := 2\<rparr>,
     [SentFrame [0, 0, 0, 10, 16, 0, 0, 0, 1, 0, 0, 0, 1, 47]], Inr 1)" by (simp add: ready_client_realpath)
  from run_step [OF s2 step_call [OF this]] show ?thesis by simp
qed

theorem sftp_promises_settled_once_witness:
  "settled [SentFrame [0, 0, 0, 5, 1, 0, 0, 0, 3], InitResolved 3 [],
      SentFrame [0, 0, 0, 10, 16, 0, 0, 0, 1, 0, 0, 0, 1, 47]] = {#}
   \<and> mset (map fst (pending (ready_client\<lparr>pending := [(1, ReqRealpath)], nextRequestId := 2\<rparr>))) = {#1#}
   \<and> distinct (map fst (pending (ready_client\<lparr>pending := [(1, ReqRealpath)], nextRequestId := 2\<rparr>)))"
  using sftp_promises_settled_once [OF new_default_client example_run] by simp

theorem sftp_request_ids_fresh_witness:
  "case allocateRequestId (ready_client\<lparr>pending := [(1, ReqRealpath)], nextRequestId := 2\<rparr>) of
      Inr (i, c') \<Rightarrow> 1 \<le> i \<and> i < 2 ^ 32 \<and> i \<noteq> 1 | Inl e \<Rightarrow> False"
  using sftp_request_ids_fresh [OF new_default_client example_run] by (auto split: sum.splits prod.splits)

theorem sftp_feed_refines_stream_witness:
  "observe (feed_all (ready_client\<lparr>pending := [(1, ReqRealpath)], nextRequestId := 2\<rparr>) [[0, 0, 0], [9, 101, 0, 0]])
     = flat_feed (core (ready_client\<lparr>pending := [(1, ReqRealpath)], nextRequestId := 2\<rparr>)) [0, 0, 0, 9, 101, 0, 0]"
  using sftp_feed_refines_stream [OF new_default_client example_run, of "[[0, 0, 0], [9, 101, 0, 0]]"]
  by (simp add: ready_client_def default_client_def partial_def)

end
