(* ===== verification/Js_Text.thy ===== *)
theory Js_Text
  imports Prelude
begin

text \<open>
  JavaScript strings where the sources measure or cut them: sequences of UTF-16 code units. \<open>u16\<close> is
  a literal of the sources; \<open>slice(0, n)\<close> is \<open>take n\<close>. \<open>Math.ceil\<close> of a quotient is \<open>ceil_div\<close>.
\<close>

type_synonym utf16 = "16 word list"

definition u16 :: "string \<Rightarrow> utf16" where
  "u16 s = map of_char s"

lemma length_u16 [simp]: "length (u16 s) = length s"
  by (simp add: u16_def)

text \<open>\<open>Math.ceil(a / b)\<close> for a positive \<open>b\<close>.\<close>

definition ceil_div :: "int \<Rightarrow> int \<Rightarrow> int" where
  "ceil_div a b = - ((- a) div b)"

lemma ceil_div_bounds:
  assumes "0 < b"
  shows "a \<le> ceil_div a b * b" "ceil_div a b * b < a + b"
proof -
  have "(- a) div b * b + (- a) mod b = - a" "0 \<le> (- a) mod b" "(- a) mod b < b" using assms by simp_all
  then show "a \<le> ceil_div a b * b" "ceil_div a b * b < a + b" unfolding ceil_div_def minus_mult_left [symmetric] by linarith+
qed

text \<open>A key of the form \<open>prefix + a + ':' + b\<close> determines \<open>a\<close> and \<open>b\<close> when \<open>a\<close> holds no colon.\<close>

lemma append_sep_inj:
  assumes "a @ c # b = a' @ c # b'" "c \<notin> set a" "c \<notin> set a'"
  shows "a = a' \<and> b = b'"
  using assms
proof (induction a arbitrary: a')
  case Nil
  then show ?case by (cases a') auto
next
  case (Cons x a)
  then show ?case by (cases a') auto
qed

subsection \<open>White space in UTF-8\<close>

text \<open>The sources trim and match strings that travel as UTF-8. The encodings of the code points that
  \<open>String.prototype.trim\<close> and \<open>\s\<close> treat as white space.\<close>

definition ws_encodings :: "string list" where
  "ws_encodings =
     [[CHR 0x20], [CHR 0x09], [CHR 0x0A], [CHR 0x0B],
      [CHR 0x0C], [CHR 0x0D], [CHR 0xC2, CHR 0xA0], [CHR 0xEF, CHR 0xBB, CHR 0xBF],
      [CHR 0xE1, CHR 0x9A, CHR 0x80], [CHR 0xE2, CHR 0x80, CHR 0x80], [CHR 0xE2, CHR 0x80, CHR 0x81], [CHR 0xE2, CHR 0x80, CHR 0x82],
      [CHR 0xE2, CHR 0x80, CHR 0x83], [CHR 0xE2, CHR 0x80, CHR 0x84], [CHR 0xE2, CHR 0x80, CHR 0x85], [CHR 0xE2, CHR 0x80, CHR 0x86],
      [CHR 0xE2, CHR 0x80, CHR 0x87], [CHR 0xE2, CHR 0x80, CHR 0x88], [CHR 0xE2, CHR 0x80, CHR 0x89], [CHR 0xE2, CHR 0x80, CHR 0x8A],
      [CHR 0xE2, CHR 0x80, CHR 0xA8], [CHR 0xE2, CHR 0x80, CHR 0xA9], [CHR 0xE2, CHR 0x80, CHR 0xAF], [CHR 0xE2, CHR 0x81, CHR 0x9F],
      [CHR 0xE3, CHR 0x80, CHR 0x80]]"

text \<open>Strip every leading occurrence of one of the non-empty strings \<open>ws\<close>.\<close>

function strip_all :: "'a list list \<Rightarrow> 'a list \<Rightarrow> 'a list" where
  "strip_all ws s =
     (case find (\<lambda>w. w \<noteq> [] \<and> starts_with w s) ws of
        None \<Rightarrow> s
      | Some w \<Rightarrow> strip_all ws (drop (length w) s))"
  by pat_completeness auto
termination
proof (relation "measure (\<lambda>(ws, s). length s)")
  fix ws s w
  assume "find (\<lambda>w. w \<noteq> [] \<and> starts_with w s) ws = Some w"
  then have "w \<noteq> []" "take (length w) s = w" by (auto simp: find_Some_iff starts_with_def)
  then show "((ws, drop (length w) s), ws, s) \<in> measure (\<lambda>(ws, s). length s)" by (cases s) auto
qed simp

declare strip_all.simps [simp del]

definition js_trim :: "string \<Rightarrow> string" where
  "js_trim s = rev (strip_all (map rev ws_encodings) (rev (strip_all ws_encodings s)))"

lemma find_None_stuck: "find (\<lambda>w. w \<noteq> [] \<and> starts_with w s) ws = None \<Longrightarrow> strip_all ws s = s"
  by (subst strip_all.simps) simp

lemma strip_all_suffix: "\<exists>p. s = p @ strip_all ws s"
proof (induction ws s rule: strip_all.induct)
  case (1 ws s)
  show ?case
  proof (cases "find (\<lambda>w. w \<noteq> [] \<and> starts_with w s) ws")
    case None
    then show ?thesis by (simp add: find_None_stuck)
  next
    case (Some w)
    then have "strip_all ws s = strip_all ws (drop (length w) s)" by (simp add: strip_all.simps [of ws s])
    with 1 [OF Some] obtain p where "drop (length w) s = p @ strip_all ws s" by auto
    then have "s = (take (length w) s @ p) @ strip_all ws s" by (metis append.assoc append_take_drop_id)
    then show ?thesis by blast
  qed
qed

lemma strip_all_stuck: "list_all (\<lambda>w. w \<noteq> [] \<longrightarrow> s = [] \<or> hd w \<noteq> hd s) ws \<Longrightarrow> strip_all ws s = s"
  by (rule find_None_stuck, cases s) (auto simp: find_None_iff list_all_iff starts_with_def neq_Nil_conv)

text \<open>A text that neither begins nor ends with white space is its own trimmed form.\<close>

lemma js_trim_id:
  assumes "s \<noteq> []" "list_all (\<lambda>w. hd w \<noteq> hd s \<and> last w \<noteq> last s) ws_encodings"
  shows "js_trim s = s"
proof -
  have "strip_all ws_encodings s = s" using assms by (intro strip_all_stuck) (auto simp: list_all_iff)
  moreover have "strip_all (map rev ws_encodings) (rev s) = rev s"
    using assms by (intro strip_all_stuck) (auto simp: list_all_iff hd_rev)
  ultimately show ?thesis by (simp add: js_trim_def)
qed

lemma js_trim_Nil [simp]: "js_trim [] = []"
  by (simp add: js_trim_def strip_all_stuck list_all_iff)

text \<open>The \<open>length\<close> of a string, in UTF-16 code units, from its UTF-8 encoding: one for every byte that begins a
  character and one more for a character outside the basic plane.\<close>

fun u16_length :: "string \<Rightarrow> nat" where
  "u16_length [] = 0"
| "u16_length (c # cs) =
     (let n = (of_char c :: nat) in (if n < 0x80 \<or> 0xC0 \<le> n then if 0xF0 \<le> n then 2 else 1 else 0) + u16_length cs)"

lemma u16_length_append [simp]: "u16_length (xs @ ys) = u16_length xs + u16_length ys"
  by (induction xs) (simp_all add: Let_def)

text \<open>\<open>slice(0, n)\<close> on the UTF-8 encoding: whole characters up to \<open>n\<close> code units; half of a surrogate pair is
  encoded as U+FFFD.\<close>

fun u16_take :: "nat \<Rightarrow> string \<Rightarrow> string" where
  "u16_take n [] = []"
| "u16_take n (c # cs) =
     (let k = (of_char c :: nat) in
      if 0x80 \<le> k \<and> k < 0xC0 then c # u16_take n cs
      else if 0xF0 \<le> k then
        if 2 \<le> n then c # u16_take (n - 2) cs else if n = 1 then [CHR 0xEF, CHR 0xBF, CHR 0xBD] else []
      else if 1 \<le> n then c # u16_take (n - 1) cs else [])"

end
