(* ===== verification/Rate_Limit.thy ===== *)
theory Rate_Limit
  imports Js_Text "HOL-Library.DAList" "HOL-Library.Multiset"
begin

text \<open>
  The rate limiter of \<^verbatim>\<open>worker/src/do/rate-limit.ts\<close> (class \<open>RateLimitDO\<close>).

  The Durable Object storage is a service the sources only call. Its operations are the argument
  \<open>api\<close> of the definitions that use it; a call that rejects returns \<open>None\<close>. The locale
  \<open>durable_storage\<close> states the documented behaviour of that interface: a key-value store whose content
  is \<open>view s\<close>. One request or alarm is one step: the platform delivers no other event to the object
  while a storage operation is awaited. A request is given by what the handler reads of it: the
  \<open>Content-Length\<close> number, and of the JSON body its serialised size, the strings \<open>bucket\<close> and \<open>ip\<close> when
  they are strings, and the values of \<open>Number(body.max)\<close> and \<open>Number(body.windowMs)\<close>.
\<close>

subsection \<open>Storage interface\<close>

record bucket_state =
  bcount :: int
  resetAt :: int

record 's storage_api =
  st_get :: "'s \<Rightarrow> utf16 \<Rightarrow> bucket_state option option"
  st_put :: "'s \<Rightarrow> utf16 \<Rightarrow> bucket_state \<Rightarrow> 's option"
  st_delete :: "'s \<Rightarrow> utf16 \<Rightarrow> 's option"
  st_list :: "'s \<Rightarrow> utf16 \<Rightarrow> (utf16 \<times> bucket_state) list option"
  st_getAlarm :: "'s \<Rightarrow> int option option"
  st_setAlarm :: "'s \<Rightarrow> int \<Rightarrow> 's option"
  st_deleteAlarm :: "'s \<Rightarrow> 's option"

record 's RateLimitDO =
  store :: 's
  sweepCounter :: nat

definition RATE_LIMIT_STORAGE_PREFIX :: utf16 where "RATE_LIMIT_STORAGE_PREFIX = u16 ''rate-limit:''"
definition RATE_LIMIT_MAX_BUCKETS :: nat where "RATE_LIMIT_MAX_BUCKETS = 5000"
definition RATE_LIMIT_CLEANUP_ALARM_MS :: int where "RATE_LIMIT_CLEANUP_ALARM_MS = 5 * 60 * 1000"
definition RATE_LIMIT_MAX_BODY_BYTES :: int where "RATE_LIMIT_MAX_BODY_BYTES = 2 * 1024"

subsection \<open>Compaction\<close>

text \<open>\<open>Promise.all(keys.map(key => storage.delete(key)))\<close>: a rejected deletion leaves its key.\<close>

fun delete_keys :: "'s storage_api \<Rightarrow> utf16 list \<Rightarrow> 's \<Rightarrow> 's" where
  "delete_keys api [] s = s"
| "delete_keys api (k # ks) s =
     delete_keys api ks (case st_delete api s k of None \<Rightarrow> s | Some s' \<Rightarrow> s')"

definition expired_keys :: "int \<Rightarrow> (utf16 \<times> bucket_state) list \<Rightarrow> utf16 list" where
  "expired_keys now entries = map fst (filter (\<lambda>(k, v). resetAt v \<le> now) entries)"

definition active_entries :: "int \<Rightarrow> (utf16 \<times> bucket_state) list \<Rightarrow> (utf16 \<times> bucket_state) list" where
  "active_entries now entries = filter (\<lambda>(k, v). \<not> resetAt v \<le> now) entries"

definition cleanupExpiredBuckets :: "'s storage_api \<Rightarrow> int \<Rightarrow> 's \<Rightarrow> 's" where
  "cleanupExpiredBuckets api now s =
     (case st_list api s RATE_LIMIT_STORAGE_PREFIX of
        None \<Rightarrow> s
      | Some entries \<Rightarrow> delete_keys api (expired_keys now entries) s)"

definition scheduleCleanupAlarm :: "'s storage_api \<Rightarrow> int \<Rightarrow> 's \<Rightarrow> 's" where
  "scheduleCleanupAlarm api now s =
     (case st_getAlarm api s of
        None \<Rightarrow> s
      | Some (Some _) \<Rightarrow> s
      | Some None \<Rightarrow>
          (case st_setAlarm api s (now + RATE_LIMIT_CLEANUP_ALARM_MS) of None \<Rightarrow> s | Some s' \<Rightarrow> s'))"

text \<open>The sort is stable, as \<open>Array.prototype.sort\<close> is.\<close>

definition enforceBucketLimit :: "'s storage_api \<Rightarrow> int \<Rightarrow> 's \<Rightarrow> 's" where
  "enforceBucketLimit api now s =
     (case st_list api s RATE_LIMIT_STORAGE_PREFIX of
        None \<Rightarrow> s
      | Some entries \<Rightarrow>
          if length entries \<le> RATE_LIMIT_MAX_BUCKETS then s
          else
            let active = active_entries now entries;
                overflow = length active - RATE_LIMIT_MAX_BUCKETS;
                oldest = (if 0 < overflow
                          then map fst (take overflow (sort_key (\<lambda>(k, v). resetAt v) active))
                          else [])
            in delete_keys api (expired_keys now entries @ oldest) s)"

subsection \<open>Requests\<close>

record rate_body =
  body_size :: int
  bucket_field :: "utf16 option"
  ip_field :: "utf16 option"
  max_field :: js_number
  windowMs_field :: js_number

record rate_request =
  method_post :: bool
  pathname :: utf16
  contentLength :: js_number
  json_body :: "rate_body option"

datatype rate_response =
    RateError nat
  | RateThrown
  | RateResult (allowed: bool) (retry_after: int) (limit: int) (remaining_requests: int) (reset: int)

fun js_gt :: "js_number \<Rightarrow> int \<Rightarrow> bool" where
  "js_gt (JSInt v) b = (b < v)"
| "js_gt JSOther b = False"

fun valid_rate_numbers :: "js_number \<Rightarrow> js_number \<Rightarrow> bool" where
  "valid_rate_numbers (JSInt m) (JSInt w) = (\<not> m \<le> 0 \<and> \<not> w < 1000)"
| "valid_rate_numbers _ _ = False"

fun int_of_js :: "js_number \<Rightarrow> int" where
  "int_of_js (JSInt v) = v"
| "int_of_js JSOther = 0"

definition rate_field :: "utf16 option \<Rightarrow> nat \<Rightarrow> utf16" where
  "rate_field x n = (case x of Some s \<Rightarrow> take n s | None \<Rightarrow> [])"

definition rate_key :: "utf16 \<Rightarrow> utf16 \<Rightarrow> utf16" where
  "rate_key bucket ip = RATE_LIMIT_STORAGE_PREFIX @ bucket @ u16 '':'' @ ip"

definition rate_answer :: "int \<Rightarrow> int \<Rightarrow> bucket_state \<Rightarrow> rate_response" where
  "rate_answer now mx st =
     RateResult (bcount st \<le> mx) (max 1 (ceil_div (resetAt st - now) 1000)) mx
       (max 0 (mx - bcount st)) (ceil_div (resetAt st) 1000)"

definition count_request ::
  "'s storage_api \<Rightarrow> int \<Rightarrow> utf16 \<Rightarrow> int \<Rightarrow> int \<Rightarrow> 's RateLimitDO \<Rightarrow> rate_response \<times> 's RateLimitDO" where
  "count_request api now key mx windowMs d =
     (let d = d\<lparr>sweepCounter := sweepCounter d + 1\<rparr>;
          d = (if sweepCounter d mod 256 = 0 then d\<lparr>store := cleanupExpiredBuckets api now (store d)\<rparr> else d)
      in case st_get api (store d) key of
           None \<Rightarrow> (RateThrown, d)
         | Some current \<Rightarrow>
             let st = (case current of
                         None \<Rightarrow> \<lparr>bcount = 0, resetAt = now + windowMs\<rparr>
                       | Some b \<Rightarrow> if resetAt b \<le> now then \<lparr>bcount = 0, resetAt = now + windowMs\<rparr> else b);
                 st = st\<lparr>bcount := bcount st + 1\<rparr>
             in case st_put api (store d) key st of
                  None \<Rightarrow> (RateThrown, d)
                | Some s \<Rightarrow>
                    let s = scheduleCleanupAlarm api now s;
                        s = (if sweepCounter d mod 1024 = 0 then enforceBucketLimit api now s else s)
                    in (rate_answer now mx st, d\<lparr>store := s\<rparr>))"

definition checkRateLimit ::
  "'s storage_api \<Rightarrow> int \<Rightarrow> rate_request \<Rightarrow> 's RateLimitDO \<Rightarrow> rate_response \<times> 's RateLimitDO" where
  "checkRateLimit api now req d =
     (if js_gt (contentLength req) RATE_LIMIT_MAX_BODY_BYTES then (RateError 413, d)
      else case json_body req of
        None \<Rightarrow> (RateError 400, d)
      | Some body \<Rightarrow>
          if RATE_LIMIT_MAX_BODY_BYTES < body_size body then (RateError 413, d)
          else
            let bucket = rate_field (bucket_field body) 96;
                ip = rate_field (ip_field body) 128
            in if bucket = [] \<or> ip = [] \<or> \<not> valid_rate_numbers (max_field body) (windowMs_field body)
               then (RateError 400, d)
               else count_request api now (rate_key bucket ip) (int_of_js (max_field body)) (int_of_js (windowMs_field body)) d)"

definition fetch :: "'s storage_api \<Rightarrow> int \<Rightarrow> rate_request \<Rightarrow> 's RateLimitDO \<Rightarrow> rate_response \<times> 's RateLimitDO" where
  "fetch api now req d =
     (if method_post req \<and> pathname req = u16 ''/rate-limit'' then checkRateLimit api now req d else (RateError 404, d))"

text \<open>The alarm handler; a failure outside the \<open>try\<close> propagates after its effects.\<close>

definition alarm :: "'s storage_api \<Rightarrow> int \<Rightarrow> 's RateLimitDO \<Rightarrow> 's RateLimitDO" where
  "alarm api now d =
     (let s = enforceBucketLimit api now (cleanupExpiredBuckets api now (store d));
          retry = (case st_setAlarm api s (now + RATE_LIMIT_CLEANUP_ALARM_MS) of None \<Rightarrow> s | Some s' \<Rightarrow> s')
      in d\<lparr>store :=
        (case st_list api s RATE_LIMIT_STORAGE_PREFIX of
           None \<Rightarrow> retry
         | Some entries \<Rightarrow>
             if 0 < length entries
             then (case st_setAlarm api s (now + RATE_LIMIT_CLEANUP_ALARM_MS) of None \<Rightarrow> retry | Some s' \<Rightarrow> s')
             else (case st_deleteAlarm api s of None \<Rightarrow> retry | Some s' \<Rightarrow> s'))\<rparr>)"

subsection \<open>The storage contract\<close>

text \<open>The keys whose window is still running at time \<open>now\<close>, in a store with content \<open>view s\<close>.\<close>

definition live :: "('s \<Rightarrow> utf16 \<Rightarrow> bucket_state option) \<Rightarrow> int \<Rightarrow> 's \<Rightarrow> utf16 set" where
  "live view now s = {k. \<exists>b. view s k = Some b \<and> now < resetAt b}"

locale durable_storage =
  fixes api :: "'s storage_api" and view :: "'s \<Rightarrow> utf16 \<Rightarrow> bucket_state option"
  assumes get_view: "st_get api s k = Some r \<Longrightarrow> r = view s k"
    and put_view: "st_put api s k v = Some s' \<Longrightarrow> view s' = (view s)(k \<mapsto> v)"
    and delete_view: "st_delete api s k = Some s' \<Longrightarrow> view s' = (view s)(k := None)"
    and list_view: "st_list api s p = Some es \<Longrightarrow>
      distinct (map fst es) \<and> (\<forall>k v. (k, v) \<in> set es \<longleftrightarrow> view s k = Some v \<and> starts_with p k)"
    and alarm_view: "st_setAlarm api s t = Some s' \<Longrightarrow> view s' = view s" "st_deleteAlarm api s = Some s' \<Longrightarrow> view s' = view s"
    and finite_view: "finite (dom (view s))"
begin

lemma view_delete_keys: "k \<notin> set ks \<Longrightarrow> view (delete_keys api ks s) k = view s k"
  by (induction ks arbitrary: s) (auto split: option.splits dest: delete_view)

lemma expired_keys_view:
  assumes "st_list api s p = Some es" "k \<in> set (expired_keys now es)"
  shows "\<exists>b. view s k = Some b \<and> resetAt b \<le> now"
  using assms list_view [OF assms(1)] by (auto simp: expired_keys_def)

lemma view_cleanup: "view s k = Some b \<Longrightarrow> now < resetAt b \<Longrightarrow> view (cleanupExpiredBuckets api now s) k = Some b"
  using expired_keys_view [of s RATE_LIMIT_STORAGE_PREFIX _ k now]
  by (auto simp: cleanupExpiredBuckets_def view_delete_keys split: option.splits) (fastforce intro: view_delete_keys [THEN trans])

lemma view_schedule [simp]: "view (scheduleCleanupAlarm api now s) = view s"
  by (auto simp: scheduleCleanupAlarm_def split: option.splits dest: alarm_view)

lemma finite_live [simp]: "finite (live view now s)"
  by (rule finite_subset [OF _ finite_view [of s]]) (auto simp: live_def)

lemma length_active:
  assumes "st_list api s p = Some es"
  shows "length (active_entries now es) \<le> card (live view now s)"
proof -
  have d: "distinct (map fst (active_entries now es))"
    using list_view [OF assms] by (simp add: active_entries_def distinct_map_filter)
  have "fst ` set (active_entries now es) \<subseteq> live view now s"
    using list_view [OF assms] by (auto simp: active_entries_def live_def)
  then have "card (fst ` set (active_entries now es)) \<le> card (live view now s)" by (intro card_mono) simp_all
  then show ?thesis using distinct_card [OF d] by simp
qed

lemma view_enforce:
  assumes "view s k = Some b" "now < resetAt b" "card (live view now s) \<le> RATE_LIMIT_MAX_BUCKETS"
  shows "view (enforceBucketLimit api now s) k = Some b"
proof (cases "st_list api s RATE_LIMIT_STORAGE_PREFIX")
  case None
  with assms show ?thesis by (simp add: enforceBucketLimit_def)
next
  case (Some es)
  have "k \<notin> set (expired_keys now es)" using expired_keys_view [OF Some] assms by fastforce
  with length_active [OF Some, of now] Some assms show ?thesis
    by (simp add: enforceBucketLimit_def Let_def view_delete_keys)
qed

lemma live_cleanup: "live view now (cleanupExpiredBuckets api now s) \<subseteq> live view now s"
proof -
  have "view (delete_keys api ks s) k = Some b \<Longrightarrow> view s k = Some b" for ks k b
    by (induction ks arbitrary: s) (fastforce split: option.splits if_splits dest!: delete_view)+
  then show ?thesis by (auto simp: cleanupExpiredBuckets_def live_def split: option.splits)
qed

lemma view_alarm:
  assumes "view (store d) k = Some b" "now < resetAt b" "card (live view now (store d)) \<le> RATE_LIMIT_MAX_BUCKETS"
  shows "view (store (alarm api now d)) k = Some b"
proof -
  let ?s = "cleanupExpiredBuckets api now (store d)"
  have "card (live view now ?s) \<le> card (live view now (store d))" by (intro card_mono live_cleanup) simp
  with assms view_cleanup have "view (enforceBucketLimit api now ?s) k = Some b"
    by (intro view_enforce) auto
  then show ?thesis by (auto simp: alarm_def Let_def split: option.splits dest: alarm_view)
qed

end

text \<open>The state a counted request leaves for its key: a running window continues, an absent or expired
  one starts.\<close>

definition window_after :: "int \<Rightarrow> int \<Rightarrow> bucket_state option \<Rightarrow> bucket_state" where
  "window_after now w cur =
     (case cur of
        Some b \<Rightarrow> if now < resetAt b then b\<lparr>bcount := bcount b + 1\<rparr> else \<lparr>bcount = 1, resetAt = now + w\<rparr>
      | None \<Rightarrow> \<lparr>bcount = 1, resetAt = now + w\<rparr>)"

lemma window_after_idle:
  "\<nexists>b. cur = Some b \<and> now < resetAt b \<Longrightarrow> window_after now w cur = \<lparr>bcount = 1, resetAt = now + w\<rparr>"
  by (auto simp: window_after_def split: option.splits)

context durable_storage
begin

lemma count_request_view:
  assumes "count_request api now key mx w d = (r, d')" "r \<noteq> RateThrown" "0 < w"
    "card (live view now (store d)) < RATE_LIMIT_MAX_BUCKETS"
  shows "r = rate_answer now mx (window_after now w (view (store d) key))"
    and "view (store d') key = Some (window_after now w (view (store d) key))"
    and "k \<noteq> key \<Longrightarrow> view (store d) k = Some b \<Longrightarrow> now < resetAt b \<Longrightarrow> view (store d') k = Some b"
proof -
  define s0 where "s0 = (if (sweepCounter d + 1) mod 256 = 0 then cleanupExpiredBuckets api now (store d) else store d)"
  have keep: "view (store d) k = Some b \<Longrightarrow> now < resetAt b \<Longrightarrow> view s0 k = Some b" for k b
    by (simp add: s0_def view_cleanup)
  have sub: "live view now s0 \<subseteq> live view now (store d)" using live_cleanup by (simp add: s0_def)
  have inv: "view (store d) k = Some b" if "view s0 k = Some b" "now < resetAt b" for k b
  proof -
    have "k \<in> live view now (store d)" using sub that by (auto simp: live_def)
    then obtain b' where "view (store d) k = Some b'" "now < resetAt b'" by (auto simp: live_def)
    with keep [OF this] that show ?thesis by simp
  qed
  have wa: "window_after now w (view s0 key) = window_after now w (view (store d) key)" (is "_ = ?st")
  proof (cases "\<exists>b. view s0 key = Some b \<and> now < resetAt b")
    case True
    with inv show ?thesis by fastforce
  next
    case False
    moreover from False have "\<nexists>b. view (store d) key = Some b \<and> now < resetAt b" using keep by blast
    ultimately show ?thesis by (simp add: window_after_idle)
  qed
  have fresh: "now < resetAt ?st" using assms(3) by (simp add: window_after_def split: option.splits)
  have st: "(let st = (case view s0 key of None \<Rightarrow> \<lparr>bcount = 0, resetAt = now + w\<rparr>
              | Some b \<Rightarrow> if resetAt b \<le> now then \<lparr>bcount = 0, resetAt = now + w\<rparr> else b) in st\<lparr>bcount := bcount st + 1\<rparr>) = ?st"
    unfolding wa [symmetric] by (auto simp: window_after_def split: option.splits)
  obtain s1 where p: "st_put api s0 key ?st = Some s1" and r: "r = rate_answer now mx ?st"
    and d': "store d' = (if (sweepCounter d + 1) mod 1024 = 0 then enforceBucketLimit api now (scheduleCleanupAlarm api now s1)
        else scheduleCleanupAlarm api now s1)"
  proof -
    have g: "\<exists>c. st_get api s0 key = Some c" using assms(1,2)
      by (cases "st_get api s0 key") (auto simp: count_request_def Let_def s0_def split: if_splits)
    then have "st_get api s0 key = Some (view s0 key)" using get_view by blast
    then show ?thesis using assms(1,2) that st
      by (cases "st_put api s0 key ?st") (auto simp: count_request_def Let_def s0_def split: if_splits)
  qed
  note v1 = put_view [OF p]
  have "live view now s1 \<subseteq> insert key (live view now s0)" by (auto simp: live_def v1 split: if_splits)
  then have "card (live view now s1) \<le> card (insert key (live view now (store d)))" using sub by (intro card_mono) auto
  also have "\<dots> \<le> Suc (card (live view now (store d)))" by (simp add: card_insert_if)
  finally have c: "card (live view now (scheduleCleanupAlarm api now s1)) \<le> RATE_LIMIT_MAX_BUCKETS" using assms(4) by (simp add: live_def)
  show "r = rate_answer now mx ?st" by (rule r)
  show "view (store d') key = Some ?st" unfolding d' using fresh v1 view_enforce [OF _ fresh c] by simp
  show "view (store d') k = Some b" if "k \<noteq> key" "view (store d) k = Some b" "now < resetAt b"
    unfolding d' using that v1 keep view_enforce [OF _ that(3) c] by simp
qed
end

text \<open>The contract has a model: an association list without duplicate keys, and the alarm.\<close>

definition alist_storage :: "((utf16, bucket_state) alist \<times> int option) storage_api" where
  "alist_storage = \<lparr>
     st_get = \<lambda>s k. Some (DAList.lookup (fst s) k),
     st_put = \<lambda>s k v. Some (DAList.update k v (fst s), snd s),
     st_delete = \<lambda>s k. Some (DAList.delete k (fst s), snd s),
     st_list = \<lambda>s p. Some (filter (\<lambda>(k, v). starts_with p k) (DAList.impl_of (fst s))),
     st_getAlarm = \<lambda>s. Some (snd s),
     st_setAlarm = \<lambda>s t. Some (fst s, Some t),
     st_deleteAlarm = \<lambda>s. Some (fst s, None)\<rparr>"

definition alist_view :: "(utf16, bucket_state) alist \<times> int option \<Rightarrow> utf16 \<Rightarrow> bucket_state option" where
  "alist_view s = DAList.lookup (fst s)"

interpretation alist_store: durable_storage alist_storage alist_view
proof unfold_locales
  fix s :: "(utf16, bucket_state) alist \<times> int option" and p es
  assume "st_list alist_storage s p = Some es"
  then have es: "es = filter (\<lambda>(k, v). starts_with p k) (DAList.impl_of (fst s))" by (simp add: alist_storage_def)
  have "distinct (map fst (DAList.impl_of (fst s)))" using DAList.impl_of [of "fst s"] by simp
  then show "distinct (map fst es) \<and> (\<forall>k v. (k, v) \<in> set es \<longleftrightarrow> alist_view s k = Some v \<and> starts_with p k)"
    unfolding es alist_view_def DAList.lookup.rep_eq by (auto simp: distinct_map_filter)
next
  show "finite (dom (alist_view s))" for s :: "(utf16, bucket_state) alist \<times> int option"
    by (simp add: alist_view_def DAList.lookup.rep_eq finite_dom_map_of)
qed (auto simp: alist_storage_def alist_view_def DAList.lookup_update DAList.lookup_delete fun_eq_iff)

subsection \<open>Runs\<close>

text \<open>The counted key, limit and window of a request that reaches the counter.\<close>

definition counted :: "rate_request \<Rightarrow> (utf16 \<times> int \<times> int) option" where
  "counted req =
     (if \<not> (method_post req \<and> pathname req = u16 ''/rate-limit'') \<or> js_gt (contentLength req) RATE_LIMIT_MAX_BODY_BYTES then None
      else case json_body req of
        None \<Rightarrow> None
      | Some body \<Rightarrow>
          let bucket = rate_field (bucket_field body) 96; ip = rate_field (ip_field body) 128
          in if RATE_LIMIT_MAX_BODY_BYTES < body_size body \<or> bucket = [] \<or> ip = []
               \<or> \<not> valid_rate_numbers (max_field body) (windowMs_field body)
             then None
             else Some (rate_key bucket ip, int_of_js (max_field body), int_of_js (windowMs_field body)))"

lemma fetch_counted:
  "counted req = Some (k, m, w) \<Longrightarrow> fetch api now req d = count_request api now k m w d"
  "counted req = None \<Longrightarrow> \<exists>c. fetch api now req d = (RateError c, d)"
  by (auto simp: counted_def fetch_def checkRateLimit_def Let_def split: if_splits option.splits)

lemma counted_window: "counted req = Some (k, m, w) \<Longrightarrow> 1000 \<le> w \<and> 0 < m"
  by (auto simp: counted_def Let_def split: if_splits option.splits elim!: valid_rate_numbers.elims(2))

datatype rate_event = RateFetch int rate_request | RateAlarm int

fun event_time :: "rate_event \<Rightarrow> int" where
  "event_time (RateFetch now req) = now"
| "event_time (RateAlarm now) = now"

text \<open>A run, with the responses to the counted requests of key \<open>k\<close> that did not throw.\<close>

fun rate_run :: "'s storage_api \<Rightarrow> utf16 \<Rightarrow> rate_event list \<Rightarrow> 's RateLimitDO \<Rightarrow> rate_response list \<times> 's RateLimitDO" where
  "rate_run api k [] d = ([], d)"
| "rate_run api k (RateAlarm now # es) d = rate_run api k es (alarm api now d)"
| "rate_run api k (RateFetch now req # es) d =
     (let (r, d1) = fetch api now req d; (rs, d2) = rate_run api k es d1
      in (if map_option fst (counted req) = Some k \<and> r \<noteq> RateThrown then r # rs else rs, d2))"

definition rate_step :: "'s storage_api \<Rightarrow> rate_event \<Rightarrow> 's RateLimitDO \<Rightarrow> 's RateLimitDO" where
  "rate_step api e d = (case e of RateAlarm now \<Rightarrow> alarm api now d | RateFetch now req \<Rightarrow> snd (fetch api now req d))"

text \<open>No event of the run finds the store full of running windows, so none is evicted early.\<close>

fun roomy :: "'s storage_api \<Rightarrow> ('s \<Rightarrow> utf16 \<Rightarrow> bucket_state option) \<Rightarrow> rate_event list \<Rightarrow> 's RateLimitDO \<Rightarrow> bool" where
  "roomy api view [] d = True"
| "roomy api view (e # es) d =
     (card (live view (event_time e) (store d)) < RATE_LIMIT_MAX_BUCKETS \<and> roomy api view es (rate_step api e d))"

text \<open>Every request for \<open>k\<close> in the run asks for the limit \<open>m\<close>.\<close>

definition same_limit :: "utf16 \<Rightarrow> int \<Rightarrow> rate_event list \<Rightarrow> bool" where
  "same_limit k m es \<longleftrightarrow>
     list_all (\<lambda>e. case e of RateFetch now req \<Rightarrow> (case counted req of Some (k', m', w) \<Rightarrow> k' = k \<longrightarrow> m' = m | None \<Rightarrow> True)
                            | RateAlarm now \<Rightarrow> True) es"

context durable_storage
begin

lemma count_request_thrown:
  assumes "count_request api now key mx w d = (RateThrown, d')" "view (store d) k = Some b" "now < resetAt b"
  shows "view (store d') k = Some b"
  using assms view_cleanup [OF assms(2,3)]
  by (auto simp: count_request_def Let_def rate_answer_def split: if_splits option.splits)

lemma window_run:
  assumes "view (store d) k = Some b" "\<forall>e \<in> set es. event_time e < resetAt b" "roomy api view es d" "same_limit k m es"
    "rate_run api k es d = (rs, d')"
  shows "map allowed rs = map (\<lambda>j. bcount b + int j \<le> m) [1..<Suc (length rs)]"
  using assms
proof (induction es arbitrary: d b rs)
  case (Cons e es)
  show ?case
  proof (cases "\<exists>now req m' w. e = RateFetch now req \<and> counted req = Some (k, m', w) \<and> fst (fetch api now req d) \<noteq> RateThrown")
    case True
    then obtain now req w r d1 where e: "e = RateFetch now req" "counted req = Some (k, m, w)" "r \<noteq> RateThrown"
      and f: "fetch api now req d = (r, d1)" "count_request api now k m w d = (r, d1)"
      using Cons.prems(4) by (auto simp: same_limit_def) (metis fetch_counted(1) prod.collapse)
    note cv = count_request_view [OF f(2) e(3)]
    have wa: "window_after now w (view (store d) k) = b\<lparr>bcount := bcount b + 1\<rparr>"
      using Cons.prems(1,2) e(1) by (simp add: window_after_def)
    have pos: "0 < w" "card (live view now (store d)) < RATE_LIMIT_MAX_BUCKETS"
      using counted_window [OF e(2)] Cons.prems(3) e(1) by auto
    obtain rs1 where rs: "rate_run api k es d1 = (rs1, d')" "rs = r # rs1"
      using Cons.prems(5) e f by (auto split: prod.splits)
    have "map allowed rs1 = map (\<lambda>j. bcount (b\<lparr>bcount := bcount b + 1\<rparr>) + int j \<le> m) [1..<Suc (length rs1)]"
      using Cons.IH [OF cv(2) [OF pos, unfolded wa] _ _ _ rs(1)] Cons.prems(2-4) e(1) f(1) by (auto simp: rate_step_def same_limit_def)
    moreover have "allowed r = (bcount b + 1 \<le> m)" using cv(1) [OF pos] wa by (simp add: rate_answer_def)
    moreover have "[1..<Suc (length rs)] = 1 # map Suc [1..<Suc (length rs1)]" using rs(2) upt_conv_Cons [of 1 "Suc (length rs)"] by (simp add: map_Suc_upt del: upt_Suc)
    ultimately show ?thesis using rs(2) by (simp add: algebra_simps del: upt_Suc)
  next
    case False
    have lim: "event_time e < resetAt b" "card (live view (event_time e) (store d)) < RATE_LIMIT_MAX_BUCKETS"
      using Cons.prems(2,3) by auto
    have same: "view (store (rate_step api e d)) k = Some b" and rs: "rate_run api k es (rate_step api e d) = (rs, d')"
    proof -
      consider now where "e = RateAlarm now" | now req r d1 where "e = RateFetch now req" "fetch api now req d = (r, d1)"
        by (metis rate_event.exhaust prod.exhaust)
      then have "view (store (rate_step api e d)) k = Some b \<and> rate_run api k es (rate_step api e d) = (rs, d')"
      proof cases
        case 1
        then show ?thesis using Cons.prems(1,5) lim view_alarm by (simp add: rate_step_def)
      next
        case 2
        show ?thesis
        proof (cases "counted req")
          case None
          with 2 fetch_counted(2) [of req api now d] Cons.prems(1,5) show ?thesis by (auto simp: rate_step_def split: prod.splits)
        next
          case (Some kmw)
          obtain k' m' w where kmw: "counted req = Some (k', m', w)" using Some by (cases kmw) auto
          note c = fetch_counted(1) [OF kmw, of api now d, unfolded 2(2), symmetric]
          have "view (store d1) k = Some b"
            using count_request_thrown c count_request_view(3) [OF c] counted_window [OF kmw] Cons.prems(1) lim 2 False kmw
            by (cases "r = RateThrown") auto
          with 2 False kmw Cons.prems(5) show ?thesis by (auto simp: rate_step_def split: prod.splits if_splits)
        qed
      qed
      then show "view (store (rate_step api e d)) k = Some b" "rate_run api k es (rate_step api e d) = (rs, d')" by auto
    qed
    with Cons.IH [OF same _ _ _ rs] Cons.prems(2-4) show ?thesis by (auto simp: same_limit_def)
  qed
qed auto

text \<open>When more than \<open>RATE_LIMIT_MAX_BUCKETS\<close> windows run, compaction deletes running windows too,
  the ones that would expire first: their keys start counting from zero again.\<close>

lemma view_delete_keys_in:
  assumes "\<And>s k. st_delete api s k \<noteq> None" "k \<in> set ks"
  shows "view (delete_keys api ks s) k = None"
  using assms(2)
proof (induction ks arbitrary: s)
  case (Cons x ks)
  obtain s' where s': "st_delete api s x = Some s'" using assms(1) by blast
  show ?case
  proof (cases "k \<in> set ks")
    case True
    with Cons.IH show ?thesis by simp
  next
    case False
    with Cons.prems delete_view [OF s'] s' show ?thesis by (simp add: view_delete_keys)
  qed
qed simp

lemma enforce_evicts_running:
  assumes "\<And>s k. st_delete api s k \<noteq> None" "st_list api s RATE_LIMIT_STORAGE_PREFIX = Some es"
    "RATE_LIMIT_MAX_BUCKETS < length (active_entries now es)"
  shows "\<exists>k b. view s k = Some b \<and> now < resetAt b \<and> view (enforceBucketLimit api now s) k = None"
proof -
  let ?act = "sort_key (\<lambda>(k, v). resetAt v) (active_entries now es)"
  let ?n = "length (active_entries now es) - RATE_LIMIT_MAX_BUCKETS"
  have "length (take ?n ?act) = ?n" by simp
  with assms(3) have "take ?n ?act \<noteq> []" by (metis length_0_conv not_less zero_less_diff le_refl)
  then have "hd (take ?n ?act) \<in> set (take ?n ?act)" by (rule hd_in_set)
  moreover have "set (take ?n ?act) \<subseteq> set (active_entries now es)" using set_take_subset [of ?n ?act] by simp
  moreover obtain k b where "hd (take ?n ?act) = (k, b)" by (rule prod.exhaust)
  ultimately have kb: "(k, b) \<in> set (take ?n ?act)" "(k, b) \<in> set (active_entries now es)" by auto
  have "length (active_entries now es) \<le> length es" by (simp add: active_entries_def)
  with assms(2,3) have e: "enforceBucketLimit api now s = delete_keys api (expired_keys now es @ map fst (take ?n ?act)) s"
    by (simp add: enforceBucketLimit_def Let_def)
  have "k \<in> set (expired_keys now es @ map fst (take ?n ?act))" using imageI [OF kb(1), of fst] by simp
  with e have "view (enforceBucketLimit api now s) k = None" using view_delete_keys_in [OF assms(1)] by simp
  moreover have "view s k = Some b" "now < resetAt b" using kb(2) list_view [OF assms(2)] by (auto simp: active_entries_def)
  ultimately show ?thesis by blast
qed

end

text \<open>C7: A window admits exactly its limit. When no window of a key is running, its first counted request
  opens one of the requested length; of that request and the later ones for the key before the window ends,
  the \<open>j\<close>-th that is answered is allowed exactly when \<open>j\<close> is at most the limit, whatever requests for
  other keys, clean-ups and alarms come in between: provided that fewer than \<open>RATE_LIMIT_MAX_BUCKETS\<close> windows are
  running at every event (a full store evicts running windows) and that the requests for the key ask for the same limit.\<close>

theorem rate_limit_window_quota:
  assumes "durable_storage api view" "counted req = Some (k, m, w)"
    "\<nexists>b. view (store d) k = Some b \<and> now < resetAt b"
    "fetch api now req d = (r, d1)" "r \<noteq> RateThrown"
    "\<forall>e \<in> set es. event_time e < now + w" "roomy api view (RateFetch now req # es) d" "same_limit k m es"
    "rate_run api k es d1 = (rs, d2)"
  shows "map allowed (r # rs) = map (\<lambda>j. int j \<le> m) [1..<Suc (length (r # rs))]"
proof -
  note c = fetch_counted(1) [OF assms(2), of api now d, unfolded assms(4), symmetric]
  have pos: "0 < w" "card (live view now (store d)) < RATE_LIMIT_MAX_BUCKETS"
    using counted_window [OF assms(2)] assms(7) by auto
  note cv = durable_storage.count_request_view [OF assms(1) c assms(5) pos, unfolded window_after_idle [OF assms(3)]]
  have "map allowed rs = map (\<lambda>j. 1 + int j \<le> m) [1..<Suc (length rs)]"
    using durable_storage.window_run [OF assms(1) cv(2) _ _ assms(8,9)] assms(4,6,7) by (simp add: rate_step_def)
  moreover have "allowed r = (1 \<le> m)" using cv(1) by (simp add: rate_answer_def)
  moreover have "[1..<Suc (length (r # rs))] = 1 # map Suc [1..<Suc (length rs)]"
    using upt_conv_Cons [of 1 "Suc (length (r # rs))"] by (simp add: map_Suc_upt del: upt_Suc)
  ultimately show ?thesis by (simp del: upt_Suc)
qed

definition example_request :: rate_request where
  "example_request = \<lparr>method_post = True, pathname = u16 ''/rate-limit'', contentLength = JSInt 60,
     json_body = Some \<lparr>body_size = 60, bucket_field = Some (u16 ''login''), ip_field = Some (u16 ''::1''),
       max_field = JSInt 1, windowMs_field = JSInt 60000\<rparr>\<rparr>"

theorem rate_limit_window_quota_witness:
  "let d = \<lparr>store = (DAList.empty, None), sweepCounter = 0\<rparr>;
       (r, d1) = fetch alist_storage 0 example_request d;
       (rs, d2) = rate_run alist_storage (rate_key (u16 ''login'') (u16 ''::1'')) [RateFetch 500 example_request] d1
   in map allowed (r # rs) = [True, False]"
proof -
  let ?k = "rate_key (u16 ''login'') (u16 ''::1'')" and ?d = "\<lparr>store = (DAList.empty :: (utf16, bucket_state) alist, None), sweepCounter = 0\<rparr>"
  have c: "counted example_request = Some (?k, 1, 60000)"
    by (simp add: counted_def example_request_def RATE_LIMIT_MAX_BODY_BYTES_def rate_field_def u16_def)
  let ?b1 = "\<lparr>bcount = 1, resetAt = 60000\<rparr> :: bucket_state" and ?b2 = "\<lparr>bcount = 2, resetAt = 60000\<rparr> :: bucket_state"
  let ?d1 = "\<lparr>store = (DAList.update ?k ?b1 DAList.empty, Some 300000), sweepCounter = 1\<rparr>"
  let ?d2 = "\<lparr>store = (DAList.update ?k ?b2 (DAList.update ?k ?b1 DAList.empty), Some 300000), sweepCounter = 2\<rparr>"
  have f1: "fetch alist_storage 0 example_request ?d = (rate_answer 0 1 ?b1, ?d1)"
    unfolding fetch_counted(1) [OF c] by (simp add: Let_def count_request_def alist_storage_def scheduleCleanupAlarm_def RATE_LIMIT_CLEANUP_ALARM_MS_def)
  have f2: "fetch alist_storage 500 example_request ?d1 = (rate_answer 500 1 ?b2, ?d2)"
    unfolding fetch_counted(1) [OF c]
    by (simp add: Let_def count_request_def alist_storage_def scheduleCleanupAlarm_def DAList.lookup_update)
  have run: "rate_run alist_storage ?k [RateFetch 500 example_request] ?d1 = ([rate_answer 500 1 ?b2], ?d2)"
    unfolding rate_run.simps f2 c Let_def prod.case by (simp add: rate_answer_def)
  have l0: "live alist_view 0 (store ?d) = {}" by (simp add: live_def alist_view_def)
  have l1: "live alist_view 500 (store ?d1) = {?k}" by (auto simp: live_def alist_view_def DAList.lookup_update split: if_splits)
  have "roomy alist_storage alist_view (RateFetch 0 example_request # [RateFetch 500 example_request]) ?d"
    by (simp add: l0 [simplified] l1 [simplified] rate_step_def f1 RATE_LIMIT_MAX_BUCKETS_def)
  then have "map allowed (rate_answer 0 1 ?b1 # [rate_answer 500 1 ?b2]) = map (\<lambda>j. int j \<le> 1) [1..<Suc (length (rate_answer 0 1 ?b1 # [rate_answer 500 1 ?b2]))]"
    by (intro rate_limit_window_quota [OF alist_store.durable_storage_axioms c _ f1 _ _ _ _ run])
      (simp_all add: alist_view_def rate_answer_def same_limit_def c)
  then show ?thesis unfolding Let_def f1 prod.case run by simp
qed

end
