(* ===== verification/Ssh_Packet.thy ===== *)
theory Ssh_Packet
  imports Ssh_Utils
begin

text \<open>
  The SSH binary packet protocol of \<^verbatim>\<open>worker/src/webssh/ssh/packet.ts\<close>.

  \<^item> \<open>SSHPacketParser\<close> is the record \<open>parser\<close>: received chunks are kept as they arrive, with
    the index of the first live chunk and an offset into it. \<open>feed\<close>, \<open>peekBytes\<close>,
    \<open>readBytes\<close>, \<open>consumeBytes\<close> and \<open>compactChunks\<close> work on that representation and
    are shown to implement a plain byte queue (locale \<open>byte_queue\<close>).
  \<^item> \<open>nextPacket\<close> frames, decrypts and checks one packet. The cipher is the caller's
    \<open>decrypt\<close> callback, a state-passing argument; a throw keeps the state reached so far.
    \<open>nextPacket_spec\<close> is the same step on a flat buffer, and \<open>nextPacket_refines\<close> the
    refinement.
  \<^item> \<open>SSHPacketBuilder\<close> is \<open>buildWithPayloadWriter\<close> and \<open>build\<close>; the random padding bytes
    are an argument.
  \<^item> The locale \<open>record_layer\<close> states what the two ends of a connection owe each other and
    proves that what is built is what is parsed, for whole streams and any chunking.
\<close>

subsection \<open>Constants and sequence numbers\<close>

definition COMPACT_CHUNKS_THRESHOLD :: nat where
  "COMPACT_CHUNKS_THRESHOLD = 32"

definition MAX_PACKET_SIZE :: nat where
  "MAX_PACKET_SIZE = 256 * 1024"

definition MIN_PACKET_LENGTH :: nat where
  "MIN_PACKET_LENGTH = 5"

definition nextSequenceNumber :: "nat \<Rightarrow> nat" where
  "nextSequenceNumber value = unat (word_of_nat (value + 1) :: u32)"

lemma nextSequenceNumber_mod: "nextSequenceNumber v = (v + 1) mod 2 ^ 32"
  unfolding nextSequenceNumber_def unat_of_nat by simp

datatype packet_error =
    InvalidBlockSize nat
  | LengthBelowMinimum nat
  | LengthExceedsMaximum nat
  | AuthLengthNotAligned nat nat
  | AuthDecryptionFailed
  | AuthBodyLength nat nat
  | InvalidPadding nat nat
  | HeaderDecryptionFailed
  | SizeNotAligned nat nat
  | DecryptionFailed
  | DecryptedSize nat nat
  | InvalidMac
  | ConsumeTooMany
  | UndefinedChunk \<comment> \<open>the \<open>TypeError\<close> of reading a property of \<open>chunks[i]\<close> out of range\<close>

subsection \<open>The parser's buffer\<close>

record parser =
  chunks :: "bytes list"
  chunkIndex :: nat
  readOffset :: nat
  bufferedLength :: nat
  seqNum :: nat

definition new_parser :: parser where
  "new_parser = \<lparr>chunks = [], chunkIndex = 0, readOffset = 0, bufferedLength = 0, seqNum = 0\<rparr>"

definition feed :: "parser \<Rightarrow> bytes \<Rightarrow> parser" where
  "feed p data =
     (if length data = 0 then p
      else p\<lparr>chunks := chunks p @ [data], bufferedLength := bufferedLength p + length data\<rparr>)"

function peek_loop :: "parser \<Rightarrow> nat \<Rightarrow> nat \<Rightarrow> nat \<Rightarrow> bytes \<Rightarrow> (packet_error, bytes option) result" where
  "peek_loop p n i copied res =
     (if copied < n then
        (if i < length (chunks p) then
           let chunk = chunks p ! i;
               start = (if i = chunkIndex p then readOffset p else 0);
               tk = min (length chunk - start) (n - copied)
           in peek_loop p n (i + 1) (copied + tk) (u8_set res (subarray chunk start (start + tk)) copied)
         else Inl UndefinedChunk)
      else Inr (Some res))"
  by pat_completeness auto
termination
  by (relation "measure (\<lambda>(p, n, i, copied, res). length (chunks p) - i)") auto

declare peek_loop.simps [simp del]

definition peekBytes :: "parser \<Rightarrow> nat \<Rightarrow> (packet_error, bytes option) result" where
  "peekBytes p n =
     (if n = 0 then Inr (Some [])
      else if bufferedLength p < n then Inr None
      else if chunkIndex p < length (chunks p) \<and> n \<le> length (chunks p ! chunkIndex p) - readOffset p
      then Inr (Some (subarray (chunks p ! chunkIndex p) (readOffset p) (readOffset p + n)))
      else peek_loop p n (chunkIndex p) 0 (zeros n))"

definition compactChunks :: "parser \<Rightarrow> parser" where
  "compactChunks p =
     (if bufferedLength p = 0 then p\<lparr>chunks := [], chunkIndex := 0, readOffset := 0\<rparr>
      else if COMPACT_CHUNKS_THRESHOLD < chunkIndex p \<and> length (chunks p) \<le> chunkIndex p * 2
      then p\<lparr>chunks := drop (chunkIndex p) (chunks p), chunkIndex := 0\<rparr>
      else p)"

function consume_loop :: "parser \<Rightarrow> nat \<Rightarrow> (packet_error, parser) result" where
  "consume_loop p n =
     (if 0 < n then
        (if chunkIndex p < length (chunks p) then
           let available = length (chunks p ! chunkIndex p) - readOffset p
           in if n < available then Inr (compactChunks (p\<lparr>readOffset := readOffset p + n\<rparr>))
              else consume_loop (p\<lparr>chunkIndex := chunkIndex p + 1, readOffset := 0\<rparr>) (n - available)
         else Inl UndefinedChunk)
      else Inr (compactChunks p))"
  by pat_completeness auto
termination
  by (relation "measure (\<lambda>(p, n). length (chunks p) - chunkIndex p)") auto

declare consume_loop.simps [simp del]

definition consumeBytes :: "parser \<Rightarrow> nat \<Rightarrow> (packet_error, parser) result" where
  "consumeBytes p n =
     (if n = 0 then Inr p
      else if bufferedLength p < n then Inl ConsumeTooMany
      else consume_loop (p\<lparr>bufferedLength := bufferedLength p - n\<rparr>) n)"

definition readBytes :: "parser \<Rightarrow> nat \<Rightarrow> (packet_error, parser \<times> bytes option) result" where
  "readBytes p n =
     (case peekBytes p n of
        Inl e \<Rightarrow> Inl e
      | Inr None \<Rightarrow> Inr (p, None)
      | Inr (Some data) \<Rightarrow>
          (case consumeBytes p n of Inl e \<Rightarrow> Inl e | Inr p' \<Rightarrow> Inr (p', Some data)))"

definition getSeqNum :: "parser \<Rightarrow> nat" where
  "getSeqNum p = seqNum p"

definition getBufferLength :: "parser \<Rightarrow> nat" where
  "getBufferLength p = bufferedLength p"

subsection \<open>One packet\<close>

record SSHPacket =
  pkt_length :: nat
  pkt_padding :: nat
  pkt_payload :: bytes
  pkt_mac :: "bytes option"

text \<open>The \<open>decrypt\<close> callback: cipher state, data, sequence number, additional data, commit flag.\<close>

type_synonym 'c decryptor = "'c \<Rightarrow> bytes \<Rightarrow> nat \<Rightarrow> bytes option \<Rightarrow> bool \<Rightarrow> 'c \<times> bytes option"
type_synonym mac_verifier = "bytes \<Rightarrow> bytes \<Rightarrow> nat \<Rightarrow> bool"
type_synonym 'c next_result = "parser \<times> 'c \<times> (packet_error, SSHPacket option) result"

text \<open>The checks on the length field that both framings make, in the order of the code.\<close>

definition length_error :: "nat \<Rightarrow> packet_error option" where
  "length_error n =
     (if n < MIN_PACKET_LENGTH then Some (LengthBelowMinimum n)
      else if MAX_PACKET_SIZE < n then Some (LengthExceedsMaximum n)
      else None)"

definition nextPacketAuth :: "parser \<Rightarrow> 'c \<Rightarrow> nat \<Rightarrow> 'c decryptor \<Rightarrow> 'c next_result" where
  "nextPacketAuth p c blockSize decrypt =
     (case peekBytes p 4 of
        Inl e \<Rightarrow> (p, c, Inl e)
      | Inr None \<Rightarrow> (p, c, Inr None)
      | Inr (Some lengthBytes) \<Rightarrow>
          let pl = readUint32 lengthBytes 0 in
          (case length_error pl of
             Some e \<Rightarrow> (p, c, Inl e)
           | None \<Rightarrow>
               if pl mod blockSize \<noteq> 0 then (p, c, Inl (AuthLengthNotAligned pl blockSize))
               else let expectedSize = 4 + pl + 16 in
               if bufferedLength p < expectedSize then (p, c, Inr None)
               else (case readBytes p expectedSize of
                  Inl e \<Rightarrow> (p, c, Inl e)
                | Inr (p, None) \<Rightarrow> (p, c, Inr None)
                | Inr (p, Some raw) \<Rightarrow>
                    (case decrypt c (drop 4 raw) (seqNum p) (Some (take 4 raw)) True of
                       (c, None) \<Rightarrow> (p, c, Inl AuthDecryptionFailed)
                     | (c, Some decrypted) \<Rightarrow>
                         if length decrypted \<noteq> pl then (p, c, Inl (AuthBodyLength (length decrypted) pl))
                         else let pad = unat (u8_at decrypted 0) in
                         if pad < 4 \<or> pl \<le> pad then (p, c, Inl (InvalidPadding pad pl))
                         else (p\<lparr>seqNum := nextSequenceNumber (seqNum p)\<rparr>, c,
                               Inr (Some \<lparr>pkt_length = pl, pkt_padding = pad,
                                          pkt_payload = subarray decrypted 1 (1 + pl - 1 - pad),
                                          pkt_mac = Some (drop (4 + pl) raw)\<rparr>))))))"

definition nextPacketMac ::
  "parser \<Rightarrow> 'c \<Rightarrow> nat \<Rightarrow> 'c decryptor \<Rightarrow> nat \<Rightarrow> mac_verifier option \<Rightarrow> 'c next_result" where
  "nextPacketMac p c blockSize decrypt macLength verifyMac =
     (case peekBytes p blockSize of
        Inl e \<Rightarrow> (p, c, Inl e)
      | Inr None \<Rightarrow> (p, c, Inr None)
      | Inr (Some encryptedHeader) \<Rightarrow>
          (case decrypt c encryptedHeader (seqNum p) None False of
             (c, None) \<Rightarrow> (p, c, Inl HeaderDecryptionFailed)
           | (c, Some header) \<Rightarrow>
               let pl = readUint32 header 0 in
               (case length_error pl of
                  Some e \<Rightarrow> (p, c, Inl e)
                | None \<Rightarrow>
                    let totalSize = 4 + pl in
                    if totalSize mod blockSize \<noteq> 0 then (p, c, Inl (SizeNotAligned totalSize blockSize))
                    else if bufferedLength p < totalSize + macLength then (p, c, Inr None)
                    else (case readBytes p totalSize of
                       Inl e \<Rightarrow> (p, c, Inl e)
                     | Inr (p, encryptedPacket) \<Rightarrow>
                    (case readBytes p macLength of
                       Inl e \<Rightarrow> (p, c, Inl e)
                     | Inr (p, macBytes) \<Rightarrow>
                    (case (encryptedPacket, macBytes) of
                       (Some encrypted, Some m) \<Rightarrow>
                         (case decrypt c encrypted (seqNum p) None True of
                            (c, None) \<Rightarrow> (p, c, Inl DecryptionFailed)
                          | (c, Some decrypted) \<Rightarrow>
                              if length decrypted \<noteq> totalSize
                              then (p, c, Inl (DecryptedSize (length decrypted) totalSize))
                              else if (case verifyMac of None \<Rightarrow> False
                                       | Some v \<Rightarrow> 0 < macLength \<and> \<not> v decrypted m (seqNum p))
                              then (p, c, Inl InvalidMac)
                              else let pad = unat (u8_at decrypted 4) in
                              if pad < 4 \<or> pl \<le> pad then (p, c, Inl (InvalidPadding pad pl))
                              else (p\<lparr>seqNum := nextSequenceNumber (seqNum p)\<rparr>, c,
                                    Inr (Some \<lparr>pkt_length = pl, pkt_padding = pad,
                                               pkt_payload = subarray decrypted 5 (5 + pl - 1 - pad),
                                               pkt_mac = Some m\<rparr>)))
                     | _ \<Rightarrow> (p, c, Inr None)))))))"

definition nextPacket ::
  "parser \<Rightarrow> 'c \<Rightarrow> nat \<Rightarrow> 'c decryptor \<Rightarrow> bool \<Rightarrow> nat \<Rightarrow> mac_verifier option \<Rightarrow> 'c next_result" where
  "nextPacket p c blockSize decrypt hasAuthTag macLength verifyMac =
     (if blockSize < 4 then (p, c, Inl (InvalidBlockSize blockSize))
      else if hasAuthTag then nextPacketAuth p c blockSize decrypt
      else nextPacketMac p c blockSize decrypt macLength verifyMac)"

subsection \<open>Building a packet\<close>

type_synonym 'c encryptor = "'c \<Rightarrow> bytes \<Rightarrow> nat \<Rightarrow> bytes option \<Rightarrow> 'c \<times> bytes"
type_synonym mac_signer = "bytes \<Rightarrow> nat \<Rightarrow> bytes"

definition padding_length :: "nat \<Rightarrow> nat \<Rightarrow> bool \<Rightarrow> nat" where
  "padding_length payloadLength blockSize hasAuthTag =
     (let pl = 1 + payloadLength;
          alignBase = (if hasAuthTag then (1 + payloadLength) mod blockSize
                       else (4 + pl) mod blockSize);
          paddingNeeded = blockSize - (if alignBase = 0 then blockSize else alignBase)
      in if paddingNeeded < 4 then paddingNeeded + blockSize else paddingNeeded)"

text \<open>\<open>random i\<close> is the \<open>i\<close>-th byte that \<open>crypto.getRandomValues\<close> stores.\<close>

definition plain_packet :: "nat \<Rightarrow> (bytes \<Rightarrow> nat \<Rightarrow> bytes) \<Rightarrow> nat \<Rightarrow> bool \<Rightarrow> (nat \<Rightarrow> byte) \<Rightarrow> bytes" where
  "plain_packet payloadLength writePayload blockSize hasAuthTag random =
     (let pad = padding_length payloadLength blockSize hasAuthTag;
          packet = zeros (4 + 1 + payloadLength + pad);
          packet = writeUint32 packet 0 (1 + payloadLength + pad);
          packet = packet[4 := word_of_nat pad];
          packet = writePayload packet 5
      in u8_set packet (map random [0..<pad]) (5 + payloadLength))"

definition buildWithPayloadWriter ::
  "nat \<Rightarrow> (bytes \<Rightarrow> nat \<Rightarrow> bytes) \<Rightarrow> nat \<Rightarrow> 'c encryptor option \<Rightarrow> 'c \<Rightarrow> nat \<Rightarrow> bool
   \<Rightarrow> mac_signer option \<Rightarrow> (nat \<Rightarrow> byte) \<Rightarrow> 'c \<times> bytes" where
  "buildWithPayloadWriter payloadLength writePayload blockSize encrypt c seq hasAuthTag signMac random =
     (let packet = plain_packet payloadLength writePayload blockSize hasAuthTag random in
      case encrypt of
        None \<Rightarrow> (c, packet)
      | Some enc \<Rightarrow>
          if hasAuthTag then
            (case enc c (drop 4 packet) seq (Some (take 4 packet)) of
               (c, encryptedData) \<Rightarrow>
                 (c, u8_set (u8_set (zeros (4 + length encryptedData)) (take 4 packet) 0) encryptedData 4))
          else
            (case enc c packet seq None of
               (c, encryptedPacket) \<Rightarrow>
                 (case signMac of
                    None \<Rightarrow> (c, encryptedPacket)
                  | Some sg \<Rightarrow>
                      let macBytes = sg packet seq in
                      (c, u8_set (u8_set (zeros (length encryptedPacket + length macBytes)) encryptedPacket 0)
                            macBytes (length encryptedPacket)))))"

definition build ::
  "bytes \<Rightarrow> nat \<Rightarrow> 'c encryptor option \<Rightarrow> 'c \<Rightarrow> nat \<Rightarrow> bool \<Rightarrow> mac_signer option
   \<Rightarrow> (nat \<Rightarrow> byte) \<Rightarrow> 'c \<times> bytes" where
  "build data blockSize encrypt c seq hasAuthTag signMac random =
     buildWithPayloadWriter (length data) (\<lambda>packet offset. u8_set packet data offset)
       blockSize encrypt c seq hasAuthTag signMac random"

subsection \<open>The buffer implements a byte queue\<close>

definition buffered :: "parser \<Rightarrow> bytes" where
  "buffered p = drop (readOffset p) (concat (drop (chunkIndex p) (chunks p)))"

text \<open>The representation invariant: no empty chunk is kept, the offset points into the current
  chunk, and the byte count agrees with the bytes.\<close>

definition chunks_ok :: "parser \<Rightarrow> bool" where
  "chunks_ok p \<longleftrightarrow> [] \<notin> set (chunks p) \<and>
     (if chunkIndex p < length (chunks p) then readOffset p < length (chunks p ! chunkIndex p)
      else chunkIndex p = length (chunks p) \<and> readOffset p = 0)"

definition parser_inv :: "parser \<Rightarrow> bool" where
  "parser_inv p \<longleftrightarrow> chunks_ok p \<and> bufferedLength p = length (buffered p) \<and> seqNum p < 2 ^ 32"

lemma buffered_current:
  assumes "chunks_ok p" "chunkIndex p < length (chunks p)"
  shows "buffered p = drop (readOffset p) (chunks p ! chunkIndex p)
           @ concat (drop (chunkIndex p + 1) (chunks p))"
  using assms Cons_nth_drop_Suc [of "chunkIndex p" "chunks p", symmetric]
  by (simp add: buffered_def chunks_ok_def)

lemma buffered_exhausted:
  "chunks_ok p \<Longrightarrow> \<not> chunkIndex p < length (chunks p) \<Longrightarrow> buffered p = []"
  by (simp add: buffered_def)

lemma new_parser_inv: "parser_inv new_parser" "buffered new_parser = []"
  by (simp_all add: parser_inv_def chunks_ok_def buffered_def new_parser_def)

lemma buffered_feed: "chunks_ok p \<Longrightarrow> buffered (feed p data) = buffered p @ data"
proof (cases "chunkIndex p < length (chunks p)")
  case True
  moreover assume ok: "chunks_ok p"
  ultimately show ?thesis
    using Cons_nth_drop_Suc [of "chunkIndex p" "chunks p", symmetric]
    by (simp add: buffered_def feed_def chunks_ok_def)
next
  case False
  moreover assume "chunks_ok p"
  ultimately show ?thesis by (simp add: buffered_def feed_def chunks_ok_def)
qed

lemma feed_inv: "parser_inv p \<Longrightarrow> parser_inv (feed p data)"
  using buffered_feed [of p data]
  by (auto simp: parser_inv_def chunks_ok_def feed_def nth_append)

lemma seqNum_feed [simp]: "seqNum (feed p data) = seqNum p"
  by (simp add: feed_def)

definition rest_from :: "parser \<Rightarrow> nat \<Rightarrow> bytes" where
  "rest_from p i = (if i = chunkIndex p then buffered p else concat (drop i (chunks p)))"

lemma take_u8_set:
  "off + length src \<le> length d \<Longrightarrow> take (off + length src) (u8_set d src off) = take off d @ src"
  by (simp add: u8_set_def)

lemma rest_from_step:
  assumes "chunks_ok p" "chunkIndex p \<le> i" "i < length (chunks p)"
  shows "rest_from p i
       = drop (if i = chunkIndex p then readOffset p else 0) (chunks p ! i) @ rest_from p (i + 1)"
  using assms Cons_nth_drop_Suc [of i "chunks p", symmetric] buffered_current [of p]
  by (simp add: rest_from_def)

lemma peek_loop_correct:
  "chunks_ok p \<Longrightarrow> chunkIndex p \<le> i \<Longrightarrow> length res = n \<Longrightarrow> copied \<le> n
   \<Longrightarrow> n \<le> copied + length (rest_from p i)
   \<Longrightarrow> peek_loop p n i copied res = Inr (Some (take copied res @ take (n - copied) (rest_from p i)))"
proof (induction p n i copied res rule: peek_loop.induct)
  case (1 p n i copied res)
  show ?case
  proof (cases "copied < n")
    case True
    have i: "i < length (chunks p)"
    proof (rule ccontr)
      assume "\<not> i < length (chunks p)"
      then have "rest_from p i = []"
        using "1.prems" by (auto simp: rest_from_def buffered_exhausted)
      with True "1.prems" show False by simp
    qed
    define start where "start = (if i = chunkIndex p then readOffset p else 0)"
    define tk where "tk = min (length (chunks p ! i) - start) (n - copied)"
    define seg where "seg = subarray (chunks p ! i) start (start + tk)"
    have seg: "seg = take tk (drop start (chunks p ! i))" "length seg = tk"
      by (simp_all add: seg_def subarray_def tk_def)
    have rest: "rest_from p i = drop start (chunks p ! i) @ rest_from p (i + 1)"
      using "1.prems" i rest_from_step by (simp add: start_def)
    have "peek_loop p n (i + 1) (copied + tk) (u8_set res seg copied)
        = Inr (Some (take (copied + tk) (u8_set res seg copied)
                     @ take (n - (copied + tk)) (rest_from p (i + 1))))"
      unfolding seg_def tk_def start_def
      by (rule "1.IH" [OF True i refl refl refl])
        (use "1.prems" rest in \<open>auto simp: start_def length_subarray\<close>)
    also have "take (copied + tk) (u8_set res seg copied) = take copied res @ seg"
      using take_u8_set [of copied seg res] seg(2) "1.prems" by (simp add: tk_def)
    also have "(take copied res @ seg) @ take (n - (copied + tk)) (rest_from p (i + 1))
        = take copied res @ take (n - copied) (rest_from p i)"
      using "1.prems" True by (auto simp: rest seg(1) tk_def min_def)
    finally show ?thesis
      using True i by (simp add: peek_loop.simps [of p n i] Let_def start_def tk_def seg_def)
  next
    case False
    with "1.prems" show ?thesis by (simp add: peek_loop.simps [of p n i])
  qed
qed

lemma peekBytes_correct:
  assumes "parser_inv p"
  shows "peekBytes p n = Inr (if n \<le> length (buffered p) then Some (take n (buffered p)) else None)"
proof -
  have ok: "chunks_ok p" and len: "bufferedLength p = length (buffered p)"
    using assms by (auto simp: parser_inv_def)
  show ?thesis
  proof (cases "chunkIndex p < length (chunks p) \<and> n \<le> length (chunks p ! chunkIndex p) - readOffset p")
    case True
    then show ?thesis
      using buffered_current [OF ok] by (auto simp: peekBytes_def len subarray_def)
  next
    case False
    then show ?thesis
      using peek_loop_correct [OF ok order_refl, of "zeros n" n 0]
      by (auto simp: peekBytes_def len rest_from_def)
  qed
qed

lemma compactChunks_correct:
  assumes "chunks_ok p" "bufferedLength p = length (buffered p)"
  shows "chunks_ok (compactChunks p)" "buffered (compactChunks p) = buffered p"
    "bufferedLength (compactChunks p) = bufferedLength p" "seqNum (compactChunks p) = seqNum p"
  using assms by (auto simp: compactChunks_def chunks_ok_def buffered_def dest: in_set_dropD)

lemma consume_loop_correct:
  "chunks_ok p \<Longrightarrow> n \<le> length (buffered p) \<Longrightarrow> bufferedLength p = length (buffered p) - n
   \<Longrightarrow> \<exists>p'. consume_loop p n = Inr p' \<and> chunks_ok p' \<and> buffered p' = drop n (buffered p)
        \<and> bufferedLength p' = bufferedLength p \<and> seqNum p' = seqNum p"
proof (induction p n rule: consume_loop.induct)
  case (1 p n)
  show ?case
  proof (cases "0 < n")
    case True
    have i: "chunkIndex p < length (chunks p)"
      using "1.prems" True by (cases "chunkIndex p < length (chunks p)") (auto simp: buffered_exhausted)
    define av where "av = length (chunks p ! chunkIndex p) - readOffset p"
    note b = buffered_current [OF "1.prems"(1) i]
    show ?thesis
    proof (cases "n < av")
      case lt: True
      define q where "q = p\<lparr>readOffset := readOffset p + n\<rparr>"
      have q: "chunks_ok q" "buffered q = drop n (buffered p)"
        using "1.prems"(1) i lt by (auto simp: q_def chunks_ok_def av_def buffered_def add.commute)
      then have "bufferedLength q = length (buffered q)" using "1.prems" by (simp add: q_def)
      with q compactChunks_correct [of q] show ?thesis
        using True i lt by (auto simp: consume_loop.simps [of p n] Let_def av_def q_def)
    next
      case ge: False
      define q where "q = p\<lparr>chunkIndex := chunkIndex p + 1, readOffset := 0\<rparr>"
      have bq: "buffered q = drop av (buffered p)"
        unfolding b by (simp add: av_def q_def buffered_def)
      have "chunks p ! k \<noteq> []" if "k < length (chunks p)" for k
        using that "1.prems"(1) nth_mem [of k "chunks p"] unfolding chunks_ok_def by metis
      then have "chunks_ok q"
        using "1.prems"(1) i by (auto simp: chunks_ok_def q_def)
      moreover have "n - av \<le> length (buffered q)" "bufferedLength q = length (buffered q) - (n - av)"
        using "1.prems" ge by (auto simp: bq, simp add: q_def)
      ultimately obtain p' where "consume_loop q (n - av) = Inr p'" "chunks_ok p'"
        "buffered p' = drop (n - av) (buffered q)" "bufferedLength p' = bufferedLength q"
        "seqNum p' = seqNum q"
        using "1.IH" [OF True i av_def] ge by (auto simp: q_def)
      then show ?thesis
        using True i ge by (auto simp: consume_loop.simps [of p n] Let_def av_def [symmetric] q_def [symmetric] bq)
          (simp_all add: q_def)
    qed
  next
    case False
    then show ?thesis
      using "1.prems" compactChunks_correct [of p] by (auto simp: consume_loop.simps [of p 0])
  qed
qed

lemma consumeBytes_correct:
  assumes "parser_inv p" "n \<le> length (buffered p)"
  obtains p' where "consumeBytes p n = Inr p'" "parser_inv p'" "buffered p' = drop n (buffered p)"
    "seqNum p' = seqNum p"
proof (cases "n = 0")
  case True
  with assms that show ?thesis by (auto simp: consumeBytes_def)
next
  case False
  define q where "q = p\<lparr>bufferedLength := bufferedLength p - n\<rparr>"
  have "chunks_ok q" "buffered q = buffered p" "bufferedLength q = length (buffered p) - n"
    "seqNum q = seqNum p"
    using assms by (auto simp: q_def parser_inv_def chunks_ok_def buffered_def)
  with consume_loop_correct [of q n] assms(2) obtain p' where
    "consume_loop q n = Inr p'" "chunks_ok p'" "buffered p' = drop n (buffered p)"
    "bufferedLength p' = length (buffered p) - n" "seqNum p' = seqNum p" by auto
  with assms False that show ?thesis by (auto simp: consumeBytes_def parser_inv_def q_def)
qed

text \<open>What a framing routine needs from its receive buffer.\<close>

locale byte_queue =
  fixes push :: "'q \<Rightarrow> bytes \<Rightarrow> 'q"
    and peek :: "'q \<Rightarrow> nat \<Rightarrow> ('e, bytes option) result"
    and pop :: "'q \<Rightarrow> nat \<Rightarrow> ('e, 'q) result"
    and size_of :: "'q \<Rightarrow> nat"
    and content :: "'q \<Rightarrow> bytes"
    and invar :: "'q \<Rightarrow> bool"
  assumes push_content: "invar q \<Longrightarrow> content (push q d) = content q @ d"
    and push_invar: "invar q \<Longrightarrow> invar (push q d)"
    and peek_content: "invar q \<Longrightarrow> peek q n =
      Inr (if n \<le> length (content q) then Some (take n (content q)) else None)"
    and pop_content: "invar q \<Longrightarrow> n \<le> length (content q) \<Longrightarrow>
      \<exists>q'. pop q n = Inr q' \<and> invar q' \<and> content q' = drop n (content q)"
    and size_content: "invar q \<Longrightarrow> size_of q = length (content q)"
begin

lemma pushes_content:
  "invar q \<Longrightarrow> invar (fold (\<lambda>d q. push q d) ds q) \<and> content (fold (\<lambda>d q. push q d) ds q) = content q @ concat ds"
  by (induction ds arbitrary: q) (auto simp: push_content push_invar)

lemma peek_after_pushes:
  "invar q \<Longrightarrow> n \<le> length (content q @ concat ds) \<Longrightarrow>
   peek (fold (\<lambda>d q. push q d) ds q) n = Inr (Some (take n (content q @ concat ds)))"
  using pushes_content [of q ds] by (simp add: peek_content)

lemma chunking_irrelevant:
  "invar q \<Longrightarrow> concat ds = concat es \<Longrightarrow>
   peek (fold (\<lambda>d q. push q d) ds q) n = peek (fold (\<lambda>d q. push q d) es q) n"
  using pushes_content [of q ds] pushes_content [of q es] by (simp add: peek_content)

end

interpretation parser_queue: byte_queue feed peekBytes consumeBytes bufferedLength buffered parser_inv
proof
  fix p :: parser and d :: bytes and n :: nat
  assume inv: "parser_inv p"
  then show "buffered (feed p d) = buffered p @ d" by (simp add: parser_inv_def buffered_feed)
  from inv show "parser_inv (feed p d)" by (rule feed_inv)
  from inv show "peekBytes p n = Inr (if n \<le> length (buffered p) then Some (take n (buffered p)) else None)"
    by (rule peekBytes_correct)
  show "\<exists>q'. consumeBytes p n = Inr q' \<and> parser_inv q' \<and> buffered q' = drop n (buffered p)"
    if "n \<le> length (buffered p)"
    using consumeBytes_correct [OF inv that] by metis
  from inv show "bufferedLength p = length (buffered p)" by (simp add: parser_inv_def)
qed

lemma readBytes_correct:
  assumes "parser_inv p" "n \<le> length (buffered p)"
  obtains p' where "readBytes p n = Inr (p', Some (take n (buffered p)))" "parser_inv p'"
    "buffered p' = drop n (buffered p)" "seqNum p' = seqNum p"
proof -
  obtain p' where "consumeBytes p n = Inr p'" "parser_inv p'" "buffered p' = drop n (buffered p)"
    "seqNum p' = seqNum p"
    using assms by (rule consumeBytes_correct)
  moreover have "peekBytes p n = Inr (Some (take n (buffered p)))"
    using parser_queue.peek_content [OF assms(1), of n] assms(2) by simp
  ultimately show thesis by (intro that [of p']) (simp_all add: readBytes_def)
qed

subsection \<open>Framing refines a step on a flat buffer\<close>

text \<open>The same step with the receive buffer as one byte string: what is buffered, the sequence
  number and the cipher state go in and come out.\<close>

type_synonym 'c flat_result = "bytes \<times> nat \<times> 'c \<times> (packet_error, SSHPacket option) result"

definition auth_spec :: "bytes \<Rightarrow> nat \<Rightarrow> 'c \<Rightarrow> nat \<Rightarrow> 'c decryptor \<Rightarrow> 'c flat_result" where
  "auth_spec buf seq c blockSize decrypt =
     (if length buf < 4 then (buf, seq, c, Inr None)
      else let pl = readUint32 buf 0 in
      case length_error pl of
        Some e \<Rightarrow> (buf, seq, c, Inl e)
      | None \<Rightarrow>
          if pl mod blockSize \<noteq> 0 then (buf, seq, c, Inl (AuthLengthNotAligned pl blockSize))
          else if length buf < 4 + pl + 16 then (buf, seq, c, Inr None)
          else let buf' = drop (4 + pl + 16) buf in
          case decrypt c (subarray buf 4 (4 + pl + 16)) seq (Some (take 4 buf)) True of
            (c, None) \<Rightarrow> (buf', seq, c, Inl AuthDecryptionFailed)
          | (c, Some d) \<Rightarrow>
              if length d \<noteq> pl then (buf', seq, c, Inl (AuthBodyLength (length d) pl))
              else let pad = unat (u8_at d 0) in
              if pad < 4 \<or> pl \<le> pad then (buf', seq, c, Inl (InvalidPadding pad pl))
              else (buf', nextSequenceNumber seq, c,
                    Inr (Some \<lparr>pkt_length = pl, pkt_padding = pad, pkt_payload = subarray d 1 (pl - pad),
                               pkt_mac = Some (subarray buf (4 + pl) (4 + pl + 16))\<rparr>)))"

definition mac_spec ::
  "bytes \<Rightarrow> nat \<Rightarrow> 'c \<Rightarrow> nat \<Rightarrow> 'c decryptor \<Rightarrow> nat \<Rightarrow> mac_verifier option \<Rightarrow> 'c flat_result" where
  "mac_spec buf seq c blockSize decrypt macLength verifyMac =
     (if length buf < blockSize then (buf, seq, c, Inr None)
      else case decrypt c (take blockSize buf) seq None False of
        (c, None) \<Rightarrow> (buf, seq, c, Inl HeaderDecryptionFailed)
      | (c, Some header) \<Rightarrow>
          let pl = readUint32 header 0; total = 4 + pl in
          case length_error pl of
            Some e \<Rightarrow> (buf, seq, c, Inl e)
          | None \<Rightarrow>
              if total mod blockSize \<noteq> 0 then (buf, seq, c, Inl (SizeNotAligned total blockSize))
              else if length buf < total + macLength then (buf, seq, c, Inr None)
              else let buf' = drop (total + macLength) buf; m = subarray buf total (total + macLength) in
              case decrypt c (take total buf) seq None True of
                (c, None) \<Rightarrow> (buf', seq, c, Inl DecryptionFailed)
              | (c, Some d) \<Rightarrow>
                  if length d \<noteq> total then (buf', seq, c, Inl (DecryptedSize (length d) total))
                  else if (case verifyMac of None \<Rightarrow> False | Some v \<Rightarrow> 0 < macLength \<and> \<not> v d m seq)
                  then (buf', seq, c, Inl InvalidMac)
                  else let pad = unat (u8_at d 4) in
                  if pad < 4 \<or> pl \<le> pad then (buf', seq, c, Inl (InvalidPadding pad pl))
                  else (buf', nextSequenceNumber seq, c,
                        Inr (Some \<lparr>pkt_length = pl, pkt_padding = pad,
                                   pkt_payload = subarray d 5 (4 + pl - pad), pkt_mac = Some m\<rparr>)))"

definition nextPacket_spec ::
  "bytes \<Rightarrow> nat \<Rightarrow> 'c \<Rightarrow> nat \<Rightarrow> 'c decryptor \<Rightarrow> bool \<Rightarrow> nat \<Rightarrow> mac_verifier option \<Rightarrow> 'c flat_result" where
  "nextPacket_spec buf seq c blockSize decrypt hasAuthTag macLength verifyMac =
     (if blockSize < 4 then (buf, seq, c, Inl (InvalidBlockSize blockSize))
      else if hasAuthTag then auth_spec buf seq c blockSize decrypt
      else mac_spec buf seq c blockSize decrypt macLength verifyMac)"

definition flat :: "'c next_result \<Rightarrow> 'c flat_result" where
  "flat r = (case r of (p, c, out) \<Rightarrow> (buffered p, seqNum p, c, out))"

lemma buffered_seqNum_update [simp]: "buffered (p\<lparr>seqNum := s\<rparr>) = buffered p"
  by (simp add: buffered_def)

lemma parser_inv_nextSeq [simp]: "parser_inv (p\<lparr>seqNum := nextSequenceNumber s\<rparr>) = parser_inv (p\<lparr>seqNum := 0\<rparr>)"
  by (simp add: parser_inv_def chunks_ok_def nextSequenceNumber_mod)

lemma parser_inv_seq0: "parser_inv p \<Longrightarrow> parser_inv (p\<lparr>seqNum := 0\<rparr>)"
  by (simp add: parser_inv_def chunks_ok_def)

lemma drop_take_subarray: "drop k (take n b) = subarray b k n"
  by (simp add: subarray_def drop_take)

lemma nextPacketAuth_refines:
  assumes inv: "parser_inv p"
  shows "flat (nextPacketAuth p c blockSize decrypt) = auth_spec (buffered p) (seqNum p) c blockSize decrypt"
    and "parser_inv (fst (nextPacketAuth p c blockSize decrypt))"
proof -
  let ?b = "buffered p" let ?pl = "readUint32 (buffered p) 0"
  note peek = parser_queue.peek_content [OF inv] and size = parser_queue.size_content [OF inv]
  have pl: "readUint32 (take 4 ?b) 0 = ?pl" by (simp add: readUint32_take)
  have "flat (nextPacketAuth p c blockSize decrypt) = auth_spec ?b (seqNum p) c blockSize decrypt
    \<and> parser_inv (fst (nextPacketAuth p c blockSize decrypt))"
  proof (cases "20 + ?pl \<le> length ?b")
    case True
    then obtain p' where r: "readBytes p (20 + ?pl) = Inr (p', Some (take (20 + ?pl) ?b))"
      "parser_inv p'" "buffered p' = drop (20 + ?pl) ?b" "seqNum p' = seqNum p"
      by (rule readBytes_correct [OF inv])
    have t: "take 4 (take (20 + ?pl) ?b) = take 4 ?b" by simp
    from True show ?thesis
      using r(2) parser_inv_seq0 [OF r(2)] inv
      by (auto simp: nextPacketAuth_def auth_spec_def flat_def peek size pl Let_def drop_take_subarray t r
          simp del: take_take drop_take split: option.splits prod.splits)
  next
    case False
    then show ?thesis using inv
      by (auto simp: nextPacketAuth_def auth_spec_def flat_def peek size pl Let_def split: option.splits)
  qed
  then show "flat (nextPacketAuth p c blockSize decrypt) = auth_spec ?b (seqNum p) c blockSize decrypt"
    and "parser_inv (fst (nextPacketAuth p c blockSize decrypt))" by auto
qed

lemma nextPacketMac_refines:
  assumes inv: "parser_inv p"
  shows "flat (nextPacketMac p c blockSize decrypt macLength verifyMac)
       = mac_spec (buffered p) (seqNum p) c blockSize decrypt macLength verifyMac"
    and "parser_inv (fst (nextPacketMac p c blockSize decrypt macLength verifyMac))"
proof -
  let ?b = "buffered p" let ?s = "seqNum p"
  note peek = parser_queue.peek_content [OF inv] and size = parser_queue.size_content [OF inv]
  note defs = nextPacketMac_def mac_spec_def flat_def peek size Let_def
  have "flat (nextPacketMac p c blockSize decrypt macLength verifyMac)
      = mac_spec ?b ?s c blockSize decrypt macLength verifyMac
    \<and> parser_inv (fst (nextPacketMac p c blockSize decrypt macLength verifyMac))"
  proof (cases "blockSize \<le> length ?b")
    case True
    obtain c1 hd where d: "decrypt c (take blockSize ?b) ?s None False = (c1, hd)" by fastforce
    show ?thesis
    proof (cases hd)
      case None
      with True d inv show ?thesis by (simp add: defs)
    next
      case (Some header)
      let ?t = "4 + readUint32 header 0"
      show ?thesis
      proof (cases "?t + macLength \<le> length ?b")
        case fits: True
        then have "?t \<le> length ?b" by simp
        then obtain p1 where r1: "readBytes p ?t = Inr (p1, Some (take ?t ?b))" "parser_inv p1"
          "buffered p1 = drop ?t ?b" "seqNum p1 = ?s" by (rule readBytes_correct [OF inv])
        have "macLength \<le> length (buffered p1)" using fits by (simp add: r1(3))
        then obtain p2 where r2: "readBytes p1 macLength = Inr (p2, Some (take macLength (buffered p1)))"
          "parser_inv p2" "buffered p2 = drop macLength (buffered p1)" "seqNum p2 = seqNum p1"
          by (rule readBytes_correct [OF r1(2)])
        have m: "take macLength (buffered p1) = subarray ?b ?t (?t + macLength)"
          "drop macLength (buffered p1) = drop (?t + macLength) ?b"
          by (simp_all add: r1(3) subarray_def add.commute)
        from True fits Some d show ?thesis
          using r2(2) parser_inv_seq0 [OF r2(2)] inv
          by (auto simp: defs r1(1,4) r2(1,3,4) m split: option.splits prod.splits)
      next
        case False
        with True Some d inv show ?thesis by (auto simp: defs split: option.splits)
      qed
    qed
  next
    case False
    with inv show ?thesis by (simp add: defs)
  qed
  then show "flat (nextPacketMac p c blockSize decrypt macLength verifyMac)
      = mac_spec ?b ?s c blockSize decrypt macLength verifyMac"
    and "parser_inv (fst (nextPacketMac p c blockSize decrypt macLength verifyMac))" by auto
qed

lemma nextPacket_refines:
  assumes "parser_inv p"
  shows "flat (nextPacket p c blockSize decrypt hasAuthTag macLength verifyMac)
       = nextPacket_spec (buffered p) (seqNum p) c blockSize decrypt hasAuthTag macLength verifyMac"
    and "parser_inv (fst (nextPacket p c blockSize decrypt hasAuthTag macLength verifyMac))"
  using assms nextPacketAuth_refines [OF assms] nextPacketMac_refines [OF assms]
  by (auto simp: nextPacket_def nextPacket_spec_def flat_def)

subsection \<open>The layout of a built packet\<close>

definition align_base :: "nat \<Rightarrow> bool \<Rightarrow> nat" where
  "align_base payloadLength hasAuthTag = (if hasAuthTag then 1 + payloadLength else 5 + payloadLength)"

lemma padding_length_bounds:
  assumes "4 \<le> blockSize"
  shows "4 \<le> padding_length n blockSize hasAuthTag"
    and "padding_length n blockSize hasAuthTag < blockSize + 4"
    and "blockSize dvd align_base n hasAuthTag + padding_length n blockSize hasAuthTag"
proof -
  define r where "r = align_base n hasAuthTag mod blockSize"
  have r: "r < blockSize" using assms by (simp add: r_def)
  have pad: "padding_length n blockSize hasAuthTag =
      (if r = 0 then blockSize else if blockSize - r < 4 then blockSize - r + blockSize else blockSize - r)"
    using assms by (auto simp: padding_length_def Let_def r_def align_base_def)
  show "4 \<le> padding_length n blockSize hasAuthTag" "padding_length n blockSize hasAuthTag < blockSize + 4"
    using assms r by (auto simp: pad)
  have d: "blockSize dvd align_base n hasAuthTag + (blockSize - r)"
  proof -
    have "align_base n hasAuthTag + (blockSize - r) = align_base n hasAuthTag div blockSize * blockSize + blockSize"
      using r div_mult_mod_eq [of "align_base n hasAuthTag" blockSize] unfolding r_def by linarith
    then show ?thesis by simp
  qed
  have e: "blockSize dvd align_base n hasAuthTag + (blockSize - r + blockSize)"
    using dvd_add [OF d dvd_refl [of blockSize]] by (simp add: add.assoc)
  show "blockSize dvd align_base n hasAuthTag + padding_length n blockSize hasAuthTag"
    unfolding pad using d e by auto
qed

text \<open>A payload writer fills exactly \<open>data\<close> at the given offset of the zeroed buffer.\<close>

definition writes_payload :: "(bytes \<Rightarrow> nat \<Rightarrow> bytes) \<Rightarrow> bytes \<Rightarrow> bool" where
  "writes_payload w data \<longleftrightarrow>
     (\<forall>pre n. length data \<le> n \<longrightarrow> w (pre @ zeros n) (length pre) = (pre @ data) @ zeros (n - length data))"

lemma writes_payload_set: "writes_payload (\<lambda>packet offset. u8_set packet data offset) data"
  by (simp add: writes_payload_def buf_simps)

lemma plain_packet_layout:
  assumes pad_def: "pad = padding_length (length data) blockSize hasAuthTag"
    and w: "writes_payload w data"
  shows "plain_packet (length data) w blockSize hasAuthTag random =
     be32 (1 + length data + pad) @ [word_of_nat pad] @ data @ map random [0..<pad]"
proof -
  let ?h = "be32 (1 + length data + pad) @ [word_of_nat pad]"
  have "writeUint32 (zeros (4 + 1 + length data + pad)) 0 (1 + length data + pad)
      = be32 (1 + length data + pad) @ zeros (1 + (length data + pad))"
    by (subst writeUint32_zeros) (auto intro: arg_cong [where f = zeros])
  moreover have "(be32 (1 + length data + pad) @ zeros (1 + (length data + pad)))[4 := word_of_nat pad]
      = ?h @ zeros (length data + pad)"
    by (subst upd_append) simp_all
  moreover have "w (?h @ zeros (length data + pad)) 5 = (?h @ data) @ zeros pad"
  proof -
    have "w (?h @ zeros (length data + pad)) (length ?h) = (?h @ data) @ zeros (length data + pad - length data)"
      using w unfolding writes_payload_def by (metis le_add1)
    then show ?thesis by (simp add: numeral_eq_Suc)
  qed
  moreover have "u8_set ((?h @ data) @ zeros pad) (map random [0..<pad]) (5 + length data)
      = (?h @ data) @ map random [0..<pad]"
    by (subst u8_set_append) simp_all
  ultimately show ?thesis by (simp add: plain_packet_def Let_def pad_def)
qed

lemma build_plain:
  "build data blockSize None c seq hasAuthTag signMac random =
     (let pad = padding_length (length data) blockSize hasAuthTag
      in (c, be32 (1 + length data + pad) @ [word_of_nat pad] @ data @ map random [0..<pad]))"
  by (simp add: build_def buildWithPayloadWriter_def plain_packet_layout [OF refl writes_payload_set] Let_def)

lemma plain_packet_length:
  "writes_payload w data \<Longrightarrow> length (plain_packet (length data) w blockSize hasAuthTag random)
     = 5 + length data + padding_length (length data) blockSize hasAuthTag"
  by (simp add: plain_packet_layout [OF refl])

subsection \<open>What is built is what is parsed\<close>

text \<open>A whole stream. \<open>send_all\<close> is the sequence of \<open>build\<close> calls that the serialised sender
  makes; \<open>recv\<close> asks the parser for \<open>n\<close> packets. \<open>small\<close> is the payload size that fits
  the receiver's packet limit.\<close>

definition small :: "nat \<Rightarrow> bytes \<Rightarrow> bool" where
  "small blockSize data \<longleftrightarrow> length data + blockSize + 4 \<le> MAX_PACKET_SIZE"

fun send_all ::
  "nat \<Rightarrow> bool \<Rightarrow> 'c encryptor option \<Rightarrow> mac_signer option \<Rightarrow> 'c \<Rightarrow> nat \<Rightarrow> (nat \<Rightarrow> nat \<Rightarrow> byte)
   \<Rightarrow> bytes list \<Rightarrow> bytes" where
  "send_all blockSize aead encrypt signMac c seq random [] = []"
| "send_all blockSize aead encrypt signMac c seq random (data # ds) =
     (case build data blockSize encrypt c seq aead signMac (random seq) of
        (c', wire) \<Rightarrow> wire @ send_all blockSize aead encrypt signMac c' (nextSequenceNumber seq) random ds)"

fun recv ::
  "nat \<Rightarrow> bool \<Rightarrow> nat \<Rightarrow> 'd decryptor \<Rightarrow> mac_verifier option \<Rightarrow> nat \<Rightarrow> parser \<Rightarrow> 'd
   \<Rightarrow> bytes list \<times> parser" where
  "recv blockSize aead macLength decrypt verifyMac 0 p d = ([], p)"
| "recv blockSize aead macLength decrypt verifyMac (Suc n) p d =
     (case nextPacket p d blockSize decrypt aead macLength verifyMac of
        (p', d', Inr (Some pkt)) \<Rightarrow>
          (case recv blockSize aead macLength decrypt verifyMac n p' d' of
             (ps, q) \<Rightarrow> (pkt_payload pkt # ps, q))
      | (p', d', _) \<Rightarrow> ([], p'))"

text \<open>The contract between the sending and the receiving end of one direction of a connection.
  \<open>synced c d\<close> relates the sender's and the receiver's cipher states.\<close>

locale record_layer =
  fixes blockSize :: nat
    and aead :: bool
    and macLength :: nat
    and encrypt :: "'c encryptor option"
    and signMac :: "mac_signer option"
    and decrypt :: "'d decryptor"
    and verifyMac :: "mac_verifier option"
    and synced :: "'c \<Rightarrow> 'd \<Rightarrow> bool"
  assumes block: "4 \<le> blockSize" "blockSize \<le> 252"
    and aead_law: "aead \<Longrightarrow> synced c d \<Longrightarrow>
      \<exists>enc c' d' ct. encrypt = Some enc \<and> enc c body seq (Some hdr) = (c', ct)
        \<and> length ct = length body + 16 \<and> decrypt d ct seq (Some hdr) True = (d', Some body) \<and> synced c' d'"
    and mac_law: "\<not> aead \<Longrightarrow> synced c d \<Longrightarrow> blockSize dvd length pkt \<Longrightarrow> blockSize \<le> length pkt \<Longrightarrow>
      \<exists>c' d' ct. (case encrypt of None \<Rightarrow> (c, pkt) | Some enc \<Rightarrow> enc c pkt seq None) = (c', ct)
        \<and> length ct = length pkt
        \<and> decrypt d (take blockSize ct) seq None False = (d, Some (take blockSize pkt))
        \<and> decrypt d ct seq None True = (d', Some pkt) \<and> synced c' d'"
    and sign_law: "\<not> aead \<Longrightarrow>
      (case (encrypt, signMac) of
         (Some enc, Some sg) \<Rightarrow> length (sg pkt seq) = macLength
           \<and> (case verifyMac of None \<Rightarrow> True | Some v \<Rightarrow> v pkt (sg pkt seq) seq)
       | _ \<Rightarrow> macLength = 0)"
begin

lemma pad_facts:
  fixes data :: bytes
  assumes small: "small blockSize data"
  defines "pad \<equiv> padding_length (length data) blockSize aead"
  shows "length_error (1 + length data + pad) = None"
    and "(1 + length data + pad) mod 2 ^ 32 = 1 + length data + pad"
    and "unat (word_of_nat pad :: byte) = pad"
    and "4 \<le> pad"
proof -
  note pb = padding_length_bounds [OF block(1), of "length data" aead, folded pad_def]
  have "1 + length data + pad < 2 ^ 32"
    using small pb(2) by (simp add: small_def MAX_PACKET_SIZE_def)
  then show "(1 + length data + pad) mod 2 ^ 32 = 1 + length data + pad" by simp
  show "length_error (1 + length data + pad) = None"
    using small pb by (simp add: length_error_def small_def MIN_PACKET_LENGTH_def MAX_PACKET_SIZE_def)
  show "4 \<le> pad" by (rule pb(1))
  have "pad < 256" using pb(2) block(2) by simp
  then show "unat (word_of_nat pad :: byte) = pad" by (simp add: unat_of_nat)
qed

lemma auth_roundtrip:
  assumes aead: "aead" and sync: "synced c d" and w: "writes_payload w data" and small: "small blockSize data"
    and b: "buildWithPayloadWriter (length data) w blockSize encrypt c seq aead signMac random = (c', wire)"
  shows "\<exists>d' pkt. auth_spec (wire @ rest) seq d blockSize decrypt = (rest, nextSequenceNumber seq, d', Inr (Some pkt))
           \<and> pkt_payload pkt = data \<and> synced c' d'"
proof -
  let ?pad = "padding_length (length data) blockSize aead"
  let ?pkt = "plain_packet (length data) w blockSize aead random"
  let ?pl = "1 + length data + ?pad"
  note h = pad_facts [OF small]
  have layout: "?pkt = be32 ?pl @ word_of_nat ?pad # data @ map random [0..<?pad]"
    using plain_packet_layout [OF refl w] by simp
  then have t4: "take 4 ?pkt = be32 ?pl" and d4: "drop 4 ?pkt = word_of_nat ?pad # data @ map random [0..<?pad]"
    by simp_all
  obtain enc c1 d' ct where e: "encrypt = Some enc" "enc c (drop 4 ?pkt) seq (Some (take 4 ?pkt)) = (c1, ct)"
    "length ct = length (drop 4 ?pkt) + 16" "decrypt d ct seq (Some (take 4 ?pkt)) True = (d', Some (drop 4 ?pkt))"
    "synced c1 d'"
    using aead_law [OF aead sync] by blast
  have "u8_set (u8_set (zeros (4 + length ct)) (be32 ?pl) 0) ct 4 = be32 ?pl @ ct"
    by (rule two_part_buffer) simp_all
  with b e(1,2) have wire: "c' = c1" "wire = be32 ?pl @ ct"
    by (simp_all add: buildWithPayloadWriter_def Let_def t4 if_P [OF aead])
  have len: "length ct = ?pl + 16" using e(3) by (simp add: d4)
  have sub: "subarray (wire @ rest) 4 (4 + ?pl + 16) = ct" "take 4 (wire @ rest) = take 4 ?pkt"
    "drop (4 + ?pl + 16) (wire @ rest) = rest"
    using len by (simp_all add: wire(2) subarray_def t4)
  have rd: "readUint32 (wire @ rest) 0 = ?pl"
    using h(2) by (simp add: wire(2) wire_simps)
  have al: "?pl mod blockSize = 0"
    using padding_length_bounds(3) [OF block(1), of "length data" aead] aead by (simp add: align_base_def)
  have body: "length (drop 4 ?pkt) = ?pl" "u8_at (drop 4 ?pkt) 0 = word_of_nat ?pad"
    "subarray (drop 4 ?pkt) 1 (?pl - ?pad) = data"
    by (simp_all add: d4 u8_at_def subarray_def)
  have big: "\<not> length (wire @ rest) < 4 + ?pl + 16" "\<not> length (wire @ rest) < 4"
    using len by (simp_all add: wire(2))
  show ?thesis
    unfolding auth_spec_def rd h(1) Let_def
    using big sub e(4,5) al body h(3,4) wire(1) by (simp del: drop_drop take_append drop_append length_append)
qed

lemma mac_roundtrip:
  assumes naead: "\<not> aead" and sync: "synced c d" and w: "writes_payload w data" and small: "small blockSize data"
    and b: "buildWithPayloadWriter (length data) w blockSize encrypt c seq aead signMac random = (c', wire)"
  shows "\<exists>d' pkt. mac_spec (wire @ rest) seq d blockSize decrypt macLength verifyMac
             = (rest, nextSequenceNumber seq, d', Inr (Some pkt))
           \<and> pkt_payload pkt = data \<and> synced c' d'"
proof -
  let ?pad = "padding_length (length data) blockSize aead"
  let ?pkt = "plain_packet (length data) w blockSize aead random"
  let ?pl = "1 + length data + ?pad"
  let ?m = "case encrypt of None \<Rightarrow> [] | Some enc \<Rightarrow>
              (case signMac of None \<Rightarrow> [] | Some sg \<Rightarrow> sg ?pkt seq)"
  note h = pad_facts [OF small]
  have layout: "?pkt = be32 ?pl @ word_of_nat ?pad # data @ map random [0..<?pad]"
    using plain_packet_layout [OF refl w] by simp
  then have len: "length ?pkt = 4 + ?pl" by simp
  have al: "blockSize dvd 4 + ?pl"
    using padding_length_bounds(3) [OF block(1), of "length data" aead] naead by (simp add: align_base_def add.assoc)
  then have ge: "blockSize \<le> length ?pkt" unfolding len by (rule dvd_imp_le) simp
  obtain c1 d' ct where e: "(case encrypt of None \<Rightarrow> (c, ?pkt) | Some enc \<Rightarrow> enc c ?pkt seq None) = (c1, ct)"
    "length ct = length ?pkt" "decrypt d (take blockSize ct) seq None False = (d, Some (take blockSize ?pkt))"
    "decrypt d ct seq None True = (d', Some ?pkt)" "synced c1 d'"
    using mac_law [OF naead sync, of ?pkt seq] al ge len by auto
  have sg: "length ?m = macLength"
    "\<not> (case verifyMac of None \<Rightarrow> False | Some v \<Rightarrow> 0 < macLength \<and> \<not> v ?pkt ?m seq)"
    using sign_law [OF naead, of ?pkt seq] by (auto split: option.splits)
  have wire: "c' = c1" "wire = ct @ ?m"
    using b e(1) two_part_buffer [OF refl refl, of ct]
    by (auto simp: buildWithPayloadWriter_def Let_def if_not_P [OF naead] split: option.splits prod.splits)
  have rd: "readUint32 (take blockSize ?pkt) 0 = ?pl"
    using h(2) block(1) by (simp add: readUint32_take layout wire_simps)
  have tk: "take blockSize (wire @ rest) = take blockSize ct" "take (4 + ?pl) (wire @ rest) = ct"
    "subarray (wire @ rest) (4 + ?pl) (4 + ?pl + macLength) = ?m"
    "drop (4 + ?pl + macLength) (wire @ rest) = rest"
    using e(2) len ge sg(1) by (simp_all add: wire(2) subarray_def)
  have big: "\<not> length (wire @ rest) < 4 + ?pl + macLength" "\<not> length (wire @ rest) < blockSize"
    using e(2) len ge sg(1) by (simp_all add: wire(2))
  have body: "u8_at ?pkt 4 = word_of_nat ?pad" "subarray ?pkt 5 (4 + ?pl - ?pad) = data"
    by (simp_all add: layout u8_at_def nth_append subarray_def)
  have "mac_spec (wire @ rest) seq d blockSize decrypt macLength verifyMac
      = (rest, nextSequenceNumber seq, d',
         Inr (Some \<lparr>pkt_length = ?pl, pkt_padding = ?pad, pkt_payload = data, pkt_mac = Some ?m\<rparr>))"
    unfolding mac_spec_def tk(1) e(3) Let_def prod.case option.case rd h(1) tk(2-) e(4)
    using big al len sg(2) body h(3,4) by (simp del: take_append drop_append length_append)
  then show ?thesis using e(5) wire(1) by simp
qed

lemma packet_roundtrip:
  assumes "synced c d" "writes_payload w data" "small blockSize data"
    and "buildWithPayloadWriter (length data) w blockSize encrypt c seq aead signMac random = (c', wire)"
  shows "\<exists>d' pkt. nextPacket_spec (wire @ rest) seq d blockSize decrypt aead macLength verifyMac
             = (rest, nextSequenceNumber seq, d', Inr (Some pkt))
           \<and> pkt_payload pkt = data \<and> synced c' d'"
  using auth_roundtrip [OF _ assms] mac_roundtrip [OF _ assms] block(1)
  by (cases aead) (auto simp: nextPacket_spec_def)

lemma recv_send_all:
  assumes "parser_inv p" "synced c d" "\<forall>x \<in> set ds. small blockSize x"
    and "buffered p = send_all blockSize aead encrypt signMac c (seqNum p) random ds @ rest"
  shows "\<exists>q. recv blockSize aead macLength decrypt verifyMac (length ds) p d = (ds, q) \<and> parser_inv q \<and> buffered q = rest"
  using assms
proof (induction ds arbitrary: p c d)
  case Nil
  then show ?case by simp
next
  case (Cons x ds)
  obtain c' wire where b: "build x blockSize encrypt c (seqNum p) aead signMac (random (seqNum p)) = (c', wire)"
    by fastforce
  let ?rest = "send_all blockSize aead encrypt signMac c' (nextSequenceNumber (seqNum p)) random ds @ rest"
  have buf: "buffered p = wire @ ?rest" using Cons.prems(4) b by simp
  obtain d' pkt where np: "nextPacket_spec (wire @ ?rest) (seqNum p) d blockSize decrypt aead macLength verifyMac
      = (?rest, nextSequenceNumber (seqNum p), d', Inr (Some pkt))" "pkt_payload pkt = x" "synced c' d'"
    using packet_roundtrip [OF Cons.prems(2) writes_payload_set _ b [unfolded build_def], where rest = ?rest]
      Cons.prems(3) by auto
  obtain p' where p': "nextPacket p d blockSize decrypt aead macLength verifyMac = (p', d', Inr (Some pkt))"
    "buffered p' = ?rest" "seqNum p' = nextSequenceNumber (seqNum p)" "parser_inv p'"
    using nextPacket_refines [OF Cons.prems(1), of d blockSize decrypt aead macLength verifyMac] np(1)
    by (auto simp: flat_def buf split: prod.splits)
  obtain q where "recv blockSize aead macLength decrypt verifyMac (length ds) p' d' = (ds, q)" "parser_inv q" "buffered q = rest"
    using Cons.IH [OF p'(4) np(3)] Cons.prems(3) p'(2,3) by auto
  then show ?case using p'(1) np(2) by simp
qed

text \<open>However the network cuts the stream into chunks, the receiver sees the sent payloads.\<close>

lemma stream_roundtrip:
  assumes "synced c d" "\<forall>x \<in> set ds. small blockSize x" "concat cs = send_all blockSize aead encrypt signMac c 0 random ds"
  shows "fst (recv blockSize aead macLength decrypt verifyMac (length ds) (fold (\<lambda>chunk p. feed p chunk) cs new_parser) d) = ds"
proof -
  let ?p = "fold (\<lambda>chunk p. feed p chunk) cs new_parser"
  have p: "parser_inv ?p" "buffered ?p = send_all blockSize aead encrypt signMac c 0 random ds @ []"
    using parser_queue.pushes_content [OF new_parser_inv(1), of cs] new_parser_inv(2) assms(3) by auto
  have "seqNum (fold (\<lambda>chunk p. feed p chunk) cs q) = seqNum q" for q
    by (induction cs arbitrary: q) auto
  then have "seqNum ?p = 0" by (simp add: new_parser_def)
  with recv_send_all [OF p(1) assms(1,2), where random = random and rest = "[]"] p(2) show ?thesis by auto
qed

end

text \<open>Before \<open>NEWKEYS\<close> both directions run without a cipher: the sender passes \<open>null\<close> for
  \<open>encrypt\<close> and the receiver \<open>(data) => data\<close>, with blocks of 8 bytes and no MAC.\<close>

definition plain_decrypt :: "unit decryptor" where
  "plain_decrypt c data seq aad commit = (c, Some data)"

interpretation plain_layer: record_layer 8 False 0 "None :: unit encryptor option" None plain_decrypt None "\<lambda>_ _. True"
  by unfold_locales (auto simp: plain_decrypt_def)

subsection \<open>Safety of a delivered packet\<close>

lemma length_error_None:
  "length_error n = None \<longleftrightarrow> MIN_PACKET_LENGTH \<le> n \<and> n \<le> MAX_PACKET_SIZE"
  by (auto simp: length_error_def)

lemma auth_spec_delivers:
  assumes "auth_spec buf seq c blockSize decrypt = (buf', seq', c', Inr (Some pkt))"
  shows "length_error (pkt_length pkt) = None" "blockSize dvd pkt_length pkt"
    "4 \<le> pkt_padding pkt" "pkt_padding pkt < pkt_length pkt"
    "length (pkt_payload pkt) = pkt_length pkt - 1 - pkt_padding pkt"
    "seq' = nextSequenceNumber seq" "4 + pkt_length pkt + 16 \<le> length buf"
    "buf' = drop (4 + pkt_length pkt + 16) buf"
  using assms unfolding auth_spec_def Let_def
  by (auto simp: length_subarray split: if_splits option.splits prod.splits)

lemma mac_spec_delivers:
  assumes "mac_spec buf seq c blockSize decrypt macLength verifyMac = (buf', seq', c', Inr (Some pkt))"
  shows "length_error (pkt_length pkt) = None" "blockSize dvd 4 + pkt_length pkt"
    "4 \<le> pkt_padding pkt" "pkt_padding pkt < pkt_length pkt"
    "length (pkt_payload pkt) = pkt_length pkt - 1 - pkt_padding pkt"
    "seq' = nextSequenceNumber seq" "4 + pkt_length pkt + macLength \<le> length buf"
    "buf' = drop (4 + pkt_length pkt + macLength) buf"
    "verifyMac = Some v \<Longrightarrow> 0 < macLength \<Longrightarrow>
       \<exists>d. length d = 4 + pkt_length pkt \<and> v d (the (pkt_mac pkt)) seq
         \<and> pkt_payload pkt = subarray d 5 (4 + pkt_length pkt - pkt_padding pkt)"
  using assms unfolding mac_spec_def Let_def
  by (auto simp: length_subarray split: if_splits option.splits prod.splits)

subsection \<open>Properties\<close>

text \<open>C4: Framing. On every reachable buffer \<open>nextPacket\<close> is exactly the step on the flat byte
  string: same result or error, same remaining bytes, sequence number and cipher state, for both
  framings and any cipher; the chunk representation stays well formed.\<close>

theorem nextPacket_framing:
  assumes "parser_inv p"
  shows "flat (nextPacket p c blockSize decrypt hasAuthTag macLength verifyMac)
       = nextPacket_spec (buffered p) (seqNum p) c blockSize decrypt hasAuthTag macLength verifyMac
     \<and> parser_inv (fst (nextPacket p c blockSize decrypt hasAuthTag macLength verifyMac))"
  by (intro conjI nextPacket_refines [OF assms])

theorem nextPacket_framing_witness:
  "flat (nextPacket (feed (feed new_parser [0, 0]) [0, 12, 4]) () 8 plain_decrypt False 0 None)
     = nextPacket_spec [0, 0, 0, 12, 4] 0 () 8 plain_decrypt False 0 None"
proof -
  let ?p = "feed (feed new_parser [0, 0]) [0, 12, 4]"
  have "parser_inv ?p" by (intro feed_inv new_parser_inv)
  moreover have "buffered ?p = [0, 0, 0, 12, 4]" "seqNum ?p = 0"
    by (simp_all add: buffered_def feed_def new_parser_def)
  ultimately show ?thesis
    using nextPacket_framing [of ?p "()" 8 plain_decrypt False 0 None] by simp
qed

text \<open>C20: Before encryption starts, whatever the sender builds, in whatever chunks the network
  delivers it, the parser returns the same payloads in the same order.\<close>

theorem plain_stream_roundtrip:
  assumes "\<forall>x \<in> set ds. small 8 x"
    and "concat cs = send_all 8 False (None :: unit encryptor option) None () 0 random ds"
  shows "fst (recv 8 False 0 plain_decrypt None (length ds) (fold (\<lambda>chunk p. feed p chunk) cs new_parser) ()) = ds"
  using plain_layer.stream_roundtrip [OF TrueI assms] .

theorem plain_stream_roundtrip_witness:
  "fst (recv 8 False 0 plain_decrypt None 2
     (fold (\<lambda>chunk p. feed p chunk)
       [[0, 0, 0, 12], [10, 20, 0, 0, 0, 0, 0, 0, 0, 0, 0, 0, 0, 0, 0, 12, 9], [21, 22, 1, 1, 1, 1, 1, 1, 1, 1, 1]]
       new_parser) ()) = [[20], [21, 22]]"
  using plain_stream_roundtrip [of "[[20], [21, 22]]"
      "[[0, 0, 0, 12], [10, 20, 0, 0, 0, 0, 0, 0, 0, 0, 0, 0, 0, 0, 0, 12, 9], [21, 22, 1, 1, 1, 1, 1, 1, 1, 1, 1]]"
      "\<lambda>seq i. word_of_nat seq"]
  by (simp add: small_def MAX_PACKET_SIZE_def build_plain padding_length_def be32_def nextSequenceNumber_def upt_conv_Cons
      numeral_2_eq_2 [symmetric] del: recv.simps)

text \<open>C17: A packet is only ever delivered when its length field is within the bounds, the packet is
  a whole number of cipher blocks, the padding is at least four bytes and smaller than the packet,
  the payload is what the padding leaves, the sequence number advances by one modulo \<open>2^32\<close>, exactly
  the packet's bytes leave the buffer and, when a MAC is configured, the MAC of the very bytes the
  payload is cut from has been verified under the current sequence number.\<close>

theorem delivered_packet_checked:
  assumes "parser_inv p"
    and "nextPacket p c blockSize decrypt hasAuthTag macLength verifyMac = (p', c', Inr (Some pkt))"
  shows "4 \<le> blockSize \<and> 5 \<le> pkt_length pkt \<and> pkt_length pkt \<le> 256 * 1024
    \<and> blockSize dvd (if hasAuthTag then pkt_length pkt else 4 + pkt_length pkt)
    \<and> 4 \<le> pkt_padding pkt \<and> pkt_padding pkt < pkt_length pkt
    \<and> length (pkt_payload pkt) = pkt_length pkt - 1 - pkt_padding pkt
    \<and> seqNum p' = (seqNum p + 1) mod 2 ^ 32
    \<and> length (buffered p) = 4 + pkt_length pkt + (if hasAuthTag then 16 else macLength) + length (buffered p')
    \<and> buffered p' = drop (4 + pkt_length pkt + (if hasAuthTag then 16 else macLength)) (buffered p)
    \<and> (\<forall>v. \<not> hasAuthTag \<longrightarrow> verifyMac = Some v \<longrightarrow> 0 < macLength \<longrightarrow>
         (\<exists>d. length d = 4 + pkt_length pkt \<and> v d (the (pkt_mac pkt)) (seqNum p)
            \<and> pkt_payload pkt = subarray d 5 (4 + pkt_length pkt - pkt_padding pkt)))"
proof -
  have spec: "nextPacket_spec (buffered p) (seqNum p) c blockSize decrypt hasAuthTag macLength verifyMac
      = (buffered p', seqNum p', c', Inr (Some pkt))"
    using nextPacket_refines(1) [OF assms(1), of c blockSize decrypt hasAuthTag macLength verifyMac] assms(2)
    by (simp add: flat_def)
  then have b: "4 \<le> blockSize" by (auto simp: nextPacket_spec_def split: if_splits)
  show ?thesis
  proof (cases hasAuthTag)
    case True
    with spec b have "auth_spec (buffered p) (seqNum p) c blockSize decrypt = (buffered p', seqNum p', c', Inr (Some pkt))"
      by (simp add: nextPacket_spec_def)
    note d = auth_spec_delivers [OF this]
    show ?thesis using b d True
      by (simp add: length_error_None nextSequenceNumber_mod MIN_PACKET_LENGTH_def MAX_PACKET_SIZE_def)
  next
    case False
    with spec b have "mac_spec (buffered p) (seqNum p) c blockSize decrypt macLength verifyMac
        = (buffered p', seqNum p', c', Inr (Some pkt))"
      by (simp add: nextPacket_spec_def)
    note d = mac_spec_delivers [OF this]
    show ?thesis using b d False
      by (simp add: length_error_None nextSequenceNumber_mod MIN_PACKET_LENGTH_def MAX_PACKET_SIZE_def)
  qed
qed

theorem delivered_packet_checked_witness:
  "\<exists>p' pkt. nextPacket (feed new_parser [0, 0, 0, 12, 10, 20, 0, 0, 0, 0, 0, 0, 0, 0, 0, 0]) () 8 plain_decrypt False 0 None
       = (p', (), Inr (Some pkt)) \<and> pkt_payload pkt = [20] \<and> 4 \<le> pkt_padding pkt \<and> seqNum p' = 1"
proof -
  let ?p = "feed new_parser [0, 0, 0, 12, 10, 20, 0, 0, 0, 0, 0, 0, 0, 0, 0, 0]"
  have inv: "parser_inv ?p" by (intro feed_inv new_parser_inv)
  have "buffered ?p = [0, 0, 0, 12, 10, 20, 0, 0, 0, 0, 0, 0, 0, 0, 0, 0]" "seqNum ?p = 0"
    by (simp_all add: buffered_def feed_def new_parser_def)
  then have "flat (nextPacket ?p () 8 plain_decrypt False 0 None) =
      ([], 1, (), Inr (Some \<lparr>pkt_length = 12, pkt_padding = 10, pkt_payload = [20], pkt_mac = Some []\<rparr>))"
    by (simp add: nextPacket_refines [OF inv] nextPacket_spec_def mac_spec_def plain_decrypt_def readUint32_def u8_at_def
        be32_word_def length_error_def MIN_PACKET_LENGTH_def MAX_PACKET_SIZE_def subarray_def nextSequenceNumber_def)
  then obtain p' pkt where e: "nextPacket ?p () 8 plain_decrypt False 0 None = (p', (), Inr (Some pkt))" "pkt_payload pkt = [20]"
    by (auto simp: flat_def split: prod.splits)
  have "4 \<le> pkt_padding pkt" "seqNum p' = 1"
    using delivered_packet_checked [OF inv e(1)] by (simp_all add: new_parser_def)
  with e show ?thesis by blast
qed

text \<open>The padding that the builder chooses is at least 4 bytes, fits the one-byte length field
  for every cipher block size in use, and makes the encrypted part a whole number of blocks.\<close>

lemma padding_length_correct:
  assumes "4 \<le> blockSize" "blockSize \<le> 252"
  shows "4 \<le> padding_length n blockSize hasAuthTag \<and> padding_length n blockSize hasAuthTag < 256
    \<and> blockSize dvd (if hasAuthTag then 1 + n else 5 + n) + padding_length n blockSize hasAuthTag"
  using padding_length_bounds [OF assms(1), of n hasAuthTag] assms(2) by (auto simp: align_base_def split: if_splits)

end
