(* ===== verification/Ssh_Crypto.thy ===== *)
theory Ssh_Crypto
  imports Ssh_Packet
begin

text \<open>
  The packet ciphers and MACs of \<^verbatim>\<open>worker/src/webssh/ssh/crypto.ts\<close>. The primitives
  (\<open>crypto.subtle\<close>) are the platform's: they are the arguments \<open>importKey\<close>, \<open>subtleEncrypt\<close>,
  \<open>subtleDecrypt\<close>, \<open>subtleSign\<close>, \<open>subtleVerify\<close> of the model, and what WebCrypto documents of
  them are the hypotheses \<open>gcm_laws\<close>, \<open>ctr_laws\<close> and \<open>hmac_laws\<close>. The state the sources own, the
  GCM invocation counter and the CTR block counter, is modelled in full and shown to count modulo
  \<open>2^64\<close> and \<open>2^128\<close>. Under the laws both ciphers meet the contract \<open>record_layer\<close>.
\<close>

unbundle bit_operations_syntax

datatype crypto_error = BadIvLength nat | CipherNotInitialized | UnsupportedMac string | MacNotInitialized

definition buildMacData :: "nat \<Rightarrow> bytes \<Rightarrow> bytes" where
  "buildMacData seq packet = u8_set (writeUint32 (zeros (4 + length packet)) 0 seq) packet 4"

lemma buildMacData_eq: "buildMacData seq packet = be32 seq @ packet"
  by (simp add: buildMacData_def buf_simps)

subsection \<open>AES-GCM\<close>

record 'k SSHAESGCMCipher =
  gcm_key :: "'k option"
  gcm_iv :: bytes
  gcm_rawKey :: bytes

definition new_SSHAESGCMCipher :: "bytes \<Rightarrow> bytes \<Rightarrow> (crypto_error, 'k SSHAESGCMCipher) result" where
  "new_SSHAESGCMCipher rawKey iv =
     (if length iv \<noteq> 12 then Inl (BadIvLength (length iv))
      else Inr \<lparr>gcm_key = None, gcm_iv = iv, gcm_rawKey = rawKey\<rparr>)"

definition gcm_init :: "(bytes \<Rightarrow> 'k) \<Rightarrow> 'k SSHAESGCMCipher \<Rightarrow> 'k SSHAESGCMCipher" where
  "gcm_init importKey c = c\<lparr>gcm_key := Some (importKey (gcm_rawKey c))\<rparr>"

text \<open>\<open>for (let i = 11; i >= 4; i--) { iv[i]++; if (iv[i] !== 0) break; }\<close>\<close>

fun incIV_loop :: "bytes \<Rightarrow> nat \<Rightarrow> bytes" where
  "incIV_loop iv i =
     (if 4 \<le> i then
        let iv = iv[i := u8_at iv i + 1]
        in if u8_at iv i \<noteq> 0 then iv else incIV_loop iv (i - 1)
      else iv)"

declare incIV_loop.simps [simp del]

definition incIV :: "'k SSHAESGCMCipher \<Rightarrow> 'k SSHAESGCMCipher" where
  "incIV c = c\<lparr>gcm_iv := incIV_loop (gcm_iv c) 11\<rparr>"

definition gcm_encrypt ::
  "('k \<Rightarrow> bytes \<Rightarrow> bytes option \<Rightarrow> bytes \<Rightarrow> bytes) \<Rightarrow> 'k SSHAESGCMCipher \<Rightarrow> bytes \<Rightarrow> nat \<Rightarrow> bytes option
   \<Rightarrow> (crypto_error, 'k SSHAESGCMCipher \<times> bytes) result" where
  "gcm_encrypt subtleEncrypt c plaintext seq aad =
     (case gcm_key c of
        None \<Rightarrow> Inl CipherNotInitialized
      | Some key \<Rightarrow> Inr (incIV c, subtleEncrypt key (gcm_iv c) aad plaintext))"

text \<open>A failed authentication returns \<open>null\<close> and leaves the counter as it was.\<close>

definition gcm_decrypt ::
  "('k \<Rightarrow> bytes \<Rightarrow> bytes option \<Rightarrow> bytes \<Rightarrow> bytes option) \<Rightarrow> 'k SSHAESGCMCipher \<Rightarrow> bytes \<Rightarrow> nat
   \<Rightarrow> bytes option \<Rightarrow> bool \<Rightarrow> (crypto_error, 'k SSHAESGCMCipher \<times> bytes option) result" where
  "gcm_decrypt subtleDecrypt c ciphertext seq aad commit =
     (case gcm_key c of
        None \<Rightarrow> Inl CipherNotInitialized
      | Some key \<Rightarrow>
          (case subtleDecrypt key (gcm_iv c) aad ciphertext of
             None \<Rightarrow> Inr (c, None)
           | Some d \<Rightarrow> Inr (incIV c, Some d)))"

subsection \<open>AES-CTR\<close>

record 'k SSHAESCTRCipher =
  ctr_key :: "'k option"
  ctr_counter :: bytes
  ctr_rawKey :: bytes

definition new_SSHAESCTRCipher :: "bytes \<Rightarrow> bytes \<Rightarrow> (crypto_error, 'k SSHAESCTRCipher) result" where
  "new_SSHAESCTRCipher rawKey iv =
     (if length iv \<noteq> 16 then Inl (BadIvLength (length iv))
      else Inr \<lparr>ctr_key = None, ctr_counter = iv, ctr_rawKey = rawKey\<rparr>)"

definition ctr_init :: "(bytes \<Rightarrow> 'k) \<Rightarrow> 'k SSHAESCTRCipher \<Rightarrow> 'k SSHAESCTRCipher" where
  "ctr_init importKey c = c\<lparr>ctr_key := Some (importKey (ctr_rawKey c))\<rparr>"

text \<open>\<open>incCounter_loop counter n carry\<close> is the loop at index \<open>i = n - 1\<close>.\<close>

fun incCounter_loop :: "bytes \<Rightarrow> nat \<Rightarrow> nat \<Rightarrow> bytes" where
  "incCounter_loop counter 0 carry = counter"
| "incCounter_loop counter (Suc i) carry =
     (if 0 < carry then
        let add = carry mod 256;
            sum = unat (u8_at counter i) + add
        in incCounter_loop (counter[i := word_of_nat (sum mod 256)]) i (carry div 256 + sum div 256)
      else counter)"

definition incCounter :: "'k SSHAESCTRCipher \<Rightarrow> nat \<Rightarrow> 'k SSHAESCTRCipher" where
  "incCounter c blocks = c\<lparr>ctr_counter := incCounter_loop (ctr_counter c) 16 blocks\<rparr>"

definition ceil_div16 :: "nat \<Rightarrow> nat" where
  "ceil_div16 n = (n + 15) div 16"

definition ctr_encrypt ::
  "('k \<Rightarrow> bytes \<Rightarrow> bytes \<Rightarrow> bytes) \<Rightarrow> 'k SSHAESCTRCipher \<Rightarrow> bytes \<Rightarrow> nat \<Rightarrow> bytes option \<Rightarrow> bool
   \<Rightarrow> (crypto_error, 'k SSHAESCTRCipher \<times> bytes) result" where
  "ctr_encrypt subtleEncrypt c plaintext seq aad commit =
     (case ctr_key c of
        None \<Rightarrow> Inl CipherNotInitialized
      | Some key \<Rightarrow>
          Inr (if commit then incCounter c (ceil_div16 (length plaintext)) else c,
               subtleEncrypt key (ctr_counter c) plaintext))"

definition ctr_decrypt ::
  "('k \<Rightarrow> bytes \<Rightarrow> bytes \<Rightarrow> bytes option) \<Rightarrow> 'k SSHAESCTRCipher \<Rightarrow> bytes \<Rightarrow> nat \<Rightarrow> bytes option \<Rightarrow> bool
   \<Rightarrow> (crypto_error, 'k SSHAESCTRCipher \<times> bytes option) result" where
  "ctr_decrypt subtleDecrypt c ciphertext seq aad commit =
     (case ctr_key c of
        None \<Rightarrow> Inl CipherNotInitialized
      | Some key \<Rightarrow>
          (case subtleDecrypt key (ctr_counter c) ciphertext of
             None \<Rightarrow> Inr (c, None)
           | Some d \<Rightarrow> Inr (if commit then incCounter c (ceil_div16 (length ciphertext)) else c, Some d)))"

subsection \<open>HMAC\<close>

datatype hash_name = SHA_256 | SHA_512

record 'k SSHHMAC =
  hmac_key :: "'k option"
  hmac_rawKey :: bytes
  hmac_hash :: hash_name
  hmac_length :: nat

definition new_SSHHMAC :: "string \<Rightarrow> bytes \<Rightarrow> (crypto_error, 'k SSHHMAC) result" where
  "new_SSHHMAC algorithm rawKey =
     (if algorithm = ''hmac-sha2-256''
      then Inr \<lparr>hmac_key = None, hmac_rawKey = rawKey, hmac_hash = SHA_256, hmac_length = 32\<rparr>
      else if algorithm = ''hmac-sha2-512''
      then Inr \<lparr>hmac_key = None, hmac_rawKey = rawKey, hmac_hash = SHA_512, hmac_length = 64\<rparr>
      else Inl (UnsupportedMac algorithm))"

definition hmac_init :: "(hash_name \<Rightarrow> bytes \<Rightarrow> 'k) \<Rightarrow> 'k SSHHMAC \<Rightarrow> 'k SSHHMAC" where
  "hmac_init importKey m = m\<lparr>hmac_key := Some (importKey (hmac_hash m) (hmac_rawKey m))\<rparr>"

definition hmac_sign :: "('k \<Rightarrow> bytes \<Rightarrow> bytes) \<Rightarrow> 'k SSHHMAC \<Rightarrow> bytes \<Rightarrow> nat \<Rightarrow> (crypto_error, bytes) result" where
  "hmac_sign subtleSign m packet seq =
     (case hmac_key m of
        None \<Rightarrow> Inl MacNotInitialized
      | Some key \<Rightarrow> Inr (subtleSign key (buildMacData seq packet)))"

definition hmac_verify ::
  "('k \<Rightarrow> bytes \<Rightarrow> bytes \<Rightarrow> bool) \<Rightarrow> 'k SSHHMAC \<Rightarrow> bytes \<Rightarrow> nat \<Rightarrow> bytes \<Rightarrow> (crypto_error, bool) result" where
  "hmac_verify subtleVerify m packet seq expected =
     (case hmac_key m of
        None \<Rightarrow> Inl MacNotInitialized
      | Some key \<Rightarrow> Inr (subtleVerify key expected (buildMacData seq packet)))"

subsection \<open>The counters\<close>

lemma be_value_less: "be_value xs < 256 ^ length xs"
proof (induction xs)
  case (Cons b bs)
  have "unat b * 256 ^ length bs + be_value bs < unat b * 256 ^ length bs + 256 ^ length bs"
    using Cons.IH by simp
  also have "\<dots> = (unat b + 1) * 256 ^ length bs" by simp
  also have "\<dots> \<le> 256 * 256 ^ length bs"
    using unat_byte_less [of b] by (intro mult_le_mono1) simp
  finally show ?case by simp
qed simp

lemma mod_shift:
  fixes x m r :: nat
  assumes "r < 256"
  shows "x mod m * 256 + r = (x * 256 + r) mod (m * 256)"
proof (cases "m = 0")
  case False
  have "x mod m + 1 \<le> m" using False by (simp add: Suc_leI)
  then have "(x mod m + 1) * 256 \<le> m * 256" by (rule mult_le_mono1)
  with assms have lt: "x mod m * 256 + r < m * 256" by simp
  have "x * 256 + r = (x div m * m + x mod m) * 256 + r" by simp
  also have "\<dots> = x mod m * 256 + r + x div m * (m * 256)" by (simp only: algebra_simps)
  finally have eq: "x * 256 + r = x mod m * 256 + r + x div m * (m * 256)" .
  show ?thesis unfolding eq mod_mult_self1 using lt by (rule mod_less [symmetric])
qed simp

lemma incCounter_loop_0: "incCounter_loop counter n 0 = counter"
  by (cases n) simp_all

lemma incCounter_loop_correct:
  "n \<le> length counter \<Longrightarrow>
   length (incCounter_loop counter n carry) = length counter \<and>
   drop n (incCounter_loop counter n carry) = drop n counter \<and>
   be_value (take n (incCounter_loop counter n carry)) = (be_value (take n counter) + carry) mod 256 ^ n"
proof (induction counter n carry rule: incCounter_loop.induct)
  case (1 counter carry)
  then show ?case by simp
next
  case (2 counter i carry)
  show ?case
  proof (cases "0 < carry")
    case True
    define b where "b = unat (counter ! i)"
    define sum where "sum = b + carry mod 256"
    define ctr where "ctr = counter[i := word_of_nat (sum mod 256)]"
    define carry' where "carry' = carry div 256 + sum div 256"
    have i: "i < length counter" using "2.prems" by simp
    have IH: "length (incCounter_loop ctr i carry') = length ctr"
      "drop i (incCounter_loop ctr i carry') = drop i ctr"
      "be_value (take i (incCounter_loop ctr i carry')) = (be_value (take i ctr) + carry') mod 256 ^ i"
      using "2.IH" [OF True refl refl] i
      by (simp_all add: ctr_def carry'_def sum_def b_def u8_at_def)
    have loop: "incCounter_loop counter (Suc i) carry = incCounter_loop ctr i carry'"
      using True i by (simp add: ctr_def carry'_def sum_def b_def u8_at_def Let_def)
    let ?r = "incCounter_loop ctr i carry'"
    have di: "drop i ?r = word_of_nat (sum mod 256) # drop (Suc i) counter"
      using IH(2) i by (simp add: ctr_def drop_update_swap Cons_nth_drop_Suc [symmetric])
    have il: "i < length ?r" by (metis IH(1) ctr_def i length_list_update)
    then have "?r ! i = word_of_nat (sum mod 256)"
      using di by (metis hd_drop_conv_nth list.sel(1))
    with il have "take (Suc i) ?r = take i ?r @ [word_of_nat (sum mod 256)]"
      by (simp only: take_Suc_conv_app_nth)
    then have "be_value (take (Suc i) ?r) = (be_value (take i counter) + carry') mod 256 ^ i * 256 + sum mod 256"
      using IH(3) by (simp add: be_value_append ctr_def unat_of_nat)
    also have "\<dots> = ((be_value (take i counter) + carry') * 256 + sum mod 256) mod 256 ^ Suc i"
      by (subst mod_shift) (simp_all add: mult.commute)
    also have "(be_value (take i counter) + carry') * 256 + sum mod 256
        = be_value (take (Suc i) counter) + carry"
      using i by (simp add: take_Suc_conv_app_nth be_value_append carry'_def sum_def b_def algebra_simps)
    finally have "be_value (take (Suc i) ?r) = (be_value (take (Suc i) counter) + carry) mod 256 ^ Suc i" .
    moreover have "drop (Suc i) ?r = drop (Suc i) counter"
      using di by (metis drop_Suc drop0 list.sel(3) tl_drop drop_Suc_Cons)
    ultimately show ?thesis unfolding loop using IH(1) by (simp add: ctr_def)
  next
    case False
    with be_value_less [of "take (Suc i) counter"] "2.prems" show ?thesis by simp
  qed
qed

text \<open>The GCM loop is the same addition with carry 1 on the last eight bytes.\<close>

lemma incIV_loop_eq:
  "k + 4 \<le> length iv \<Longrightarrow> incIV_loop iv (k + 3) = take 4 iv @ incCounter_loop (drop 4 iv) k 1"
proof (induction k arbitrary: iv)
  case 0
  then show ?case by (simp add: incIV_loop.simps)
next
  case (Suc k)
  define b where "b = iv ! (4 + k)"
  define iv' where "iv' = iv[4 + k := b + 1]"
  have split: "take 4 iv' = take 4 iv" "drop 4 iv' = (drop 4 iv)[k := b + 1]"
    by (simp_all add: iv'_def take_update_cancel drop_update_swap)
  have at: "u8_at iv (4 + k) = b" "u8_at iv' (4 + k) = b + 1" "u8_at (drop 4 iv) k = b"
    using Suc.prems by (auto simp: u8_at_def b_def iv'_def add.commute)
  have "incIV_loop iv (4 + k) = (if b + 1 \<noteq> 0 then iv' else incIV_loop iv' (3 + k))"
    using at by (subst incIV_loop.simps) (simp add: Let_def iv'_def)
  then have step: "incIV_loop iv (Suc k + 3) = (if b + 1 \<noteq> 0 then iv' else incIV_loop iv' (k + 3))"
    by (simp add: add.commute)
  have ctr: "incCounter_loop (drop 4 iv) (Suc k) 1 = incCounter_loop (drop 4 iv') k ((unat b + 1) div 256)"
    using at(3) by (simp add: split(2) byte_plus_1(1) [simplified] Let_def)
  show ?case
  proof (cases "b + 1 = 0")
    case True
    have "k + 4 \<le> length iv'" using Suc.prems by (simp add: iv'_def)
    then have "incIV_loop iv' (k + 3) = take 4 iv' @ incCounter_loop (drop 4 iv') k 1" by (rule Suc.IH)
    with True step have "incIV_loop iv (Suc k + 3) = take 4 iv' @ incCounter_loop (drop 4 iv') k 1" by metis
    with True show ?thesis by (simp only: ctr byte_plus_1(2) split(1))
  next
    case False
    then have "(unat b + 1) div 256 = 0" by (simp only: byte_plus_1(3))
    then have "incCounter_loop (drop 4 iv) (Suc k) 1 = drop 4 iv'"
      unfolding ctr by (simp add: incCounter_loop_0)
    with False show ?thesis by (simp only: step split(1) [symmetric] append_take_drop_id if_True simp_thms)
  qed
qed

lemma incCounter_loop_all:
  assumes "length counter = n"
  shows "length (incCounter_loop counter n carry) = n"
    and "be_value (incCounter_loop counter n carry) = (be_value counter + carry) mod 256 ^ n"
  using incCounter_loop_correct [of n counter carry] assms by auto

lemma incIV_correct:
  assumes "length (gcm_iv c) = 12"
  shows "length (gcm_iv (incIV c)) = 12"
    and "take 4 (gcm_iv (incIV c)) = take 4 (gcm_iv c)"
    and "be_value (drop 4 (gcm_iv (incIV c))) = (be_value (drop 4 (gcm_iv c)) + 1) mod 2 ^ 64"
proof -
  have eq: "gcm_iv (incIV c) = take 4 (gcm_iv c) @ incCounter_loop (drop 4 (gcm_iv c)) 8 1"
    using incIV_loop_eq [of 8 "gcm_iv c"] assms by (simp add: incIV_def)
  have p: "(256 :: nat) ^ 8 = 2 ^ 64" by simp
  show "length (gcm_iv (incIV c)) = 12" "take 4 (gcm_iv (incIV c)) = take 4 (gcm_iv c)"
    "be_value (drop 4 (gcm_iv (incIV c))) = (be_value (drop 4 (gcm_iv c)) + 1) mod 2 ^ 64"
    using incCounter_loop_all [of "drop 4 (gcm_iv c)" 8 1] assms
    by (simp_all add: eq p del: power_numeral incCounter_loop.simps)
qed

lemma incIV_iterate:
  assumes "length (gcm_iv c) = 12"
  shows "length (gcm_iv ((incIV ^^ n) c)) = 12 \<and>
    be_value (drop 4 (gcm_iv ((incIV ^^ n) c))) = (be_value (drop 4 (gcm_iv c)) + n) mod 2 ^ 64"
proof (induction n)
  case 0
  with assms be_value_less [of "drop 4 (gcm_iv c)"] show ?case by simp
next
  case (Suc n)
  then show ?case
    using incIV_correct [of "(incIV ^^ n) c"] by (simp add: mod_Suc_eq)
qed

lemma incCounter_correct:
  assumes "length (ctr_counter c) = 16"
  shows "length (ctr_counter (incCounter c n)) = 16"
    and "be_value (ctr_counter (incCounter c n)) = (be_value (ctr_counter c) + n) mod 2 ^ 128"
  using incCounter_loop_all [of "ctr_counter c" 16 n] assms
  by (simp_all add: incCounter_def del: incCounter_loop.simps)

subsection \<open>The ciphers meet the record-layer contract\<close>

text \<open>What WebCrypto documents of the primitives: authenticated decryption inverts encryption and
  the tag is 16 bytes; AES-CTR is a stream cipher, so it preserves lengths and works prefix by
  prefix; a signature verifies, and has the hash's length.\<close>

definition gcm_laws ::
  "('k \<Rightarrow> bytes \<Rightarrow> bytes option \<Rightarrow> bytes \<Rightarrow> bytes) \<Rightarrow> ('k \<Rightarrow> bytes \<Rightarrow> bytes option \<Rightarrow> bytes \<Rightarrow> bytes option) \<Rightarrow> bool" where
  "gcm_laws enc dec \<longleftrightarrow> (\<forall>key iv aad d.
     length (enc key iv aad d) = length d + 16 \<and> dec key iv aad (enc key iv aad d) = Some d)"

definition ctr_laws ::
  "('k \<Rightarrow> bytes \<Rightarrow> bytes \<Rightarrow> bytes) \<Rightarrow> ('k \<Rightarrow> bytes \<Rightarrow> bytes \<Rightarrow> bytes option) \<Rightarrow> bool" where
  "ctr_laws enc dec \<longleftrightarrow> (\<forall>key counter d n.
     length (enc key counter d) = length d \<and>
     dec key counter (take n (enc key counter d)) = Some (take n d))"

definition hash_bytes :: "hash_name \<Rightarrow> nat" where
  "hash_bytes h = (case h of SHA_256 \<Rightarrow> 32 | SHA_512 \<Rightarrow> 64)"

definition hmac_laws ::
  "(hash_name \<Rightarrow> bytes \<Rightarrow> 'k) \<Rightarrow> ('k \<Rightarrow> bytes \<Rightarrow> bytes) \<Rightarrow> ('k \<Rightarrow> bytes \<Rightarrow> bytes \<Rightarrow> bool) \<Rightarrow> bool" where
  "hmac_laws importKey sign verify \<longleftrightarrow> (\<forall>h raw d.
     length (sign (importKey h raw) d) = hash_bytes h \<and>
     verify (importKey h raw) (sign (importKey h raw) d) d)"

text \<open>The callbacks that the session hands to the packet layer once \<open>init\<close> has run.\<close>

definition gcm_encryptor ::
  "('k \<Rightarrow> bytes \<Rightarrow> bytes option \<Rightarrow> bytes \<Rightarrow> bytes) \<Rightarrow> 'k SSHAESGCMCipher encryptor" where
  "gcm_encryptor enc c data seq aad = (case gcm_encrypt enc c data seq aad of Inl e \<Rightarrow> (c, []) | Inr r \<Rightarrow> r)"

definition gcm_decryptor ::
  "('k \<Rightarrow> bytes \<Rightarrow> bytes option \<Rightarrow> bytes \<Rightarrow> bytes option) \<Rightarrow> 'k SSHAESGCMCipher decryptor" where
  "gcm_decryptor dec c data seq aad commit =
     (case gcm_decrypt dec c data seq aad commit of Inl e \<Rightarrow> (c, None) | Inr r \<Rightarrow> r)"

definition ctr_encryptor :: "('k \<Rightarrow> bytes \<Rightarrow> bytes \<Rightarrow> bytes) \<Rightarrow> 'k SSHAESCTRCipher encryptor" where
  "ctr_encryptor enc c data seq aad =
     (case ctr_encrypt enc c data seq aad True of Inl e \<Rightarrow> (c, []) | Inr r \<Rightarrow> r)"

definition ctr_decryptor :: "('k \<Rightarrow> bytes \<Rightarrow> bytes \<Rightarrow> bytes option) \<Rightarrow> 'k SSHAESCTRCipher decryptor" where
  "ctr_decryptor dec c data seq aad commit =
     (case ctr_decrypt dec c data seq aad commit of Inl e \<Rightarrow> (c, None) | Inr r \<Rightarrow> r)"

definition hmac_signer :: "('k \<Rightarrow> bytes \<Rightarrow> bytes) \<Rightarrow> 'k SSHHMAC \<Rightarrow> mac_signer" where
  "hmac_signer sign m packet seq = (case hmac_sign sign m packet seq of Inl e \<Rightarrow> [] | Inr r \<Rightarrow> r)"

definition hmac_verifier :: "('k \<Rightarrow> bytes \<Rightarrow> bytes \<Rightarrow> bool) \<Rightarrow> 'k SSHHMAC \<Rightarrow> mac_verifier" where
  "hmac_verifier verify m packet macBytes seq =
     (case hmac_verify verify m packet seq macBytes of Inl e \<Rightarrow> False | Inr r \<Rightarrow> r)"

lemma gcm_record_layer:
  assumes "gcm_laws enc dec"
  shows "record_layer 16 True 0 (Some (gcm_encryptor enc)) None (gcm_decryptor dec) None
           (\<lambda>c d. c = d \<and> gcm_key c \<noteq> None)"
  using assms
  by unfold_locales
    (auto simp: gcm_laws_def gcm_encryptor_def gcm_encrypt_def gcm_decryptor_def gcm_decrypt_def incIV_def)

lemma ctr_record_layer:
  assumes "ctr_laws enc dec" "hmac_laws importKey sign verify"
    and m: "m = hmac_init importKey m0" "hmac_length m0 = hash_bytes (hmac_hash m0)"
  shows "record_layer 16 False (hmac_length m) (Some (ctr_encryptor enc)) (Some (hmac_signer sign m))
           (ctr_decryptor dec) (Some (hmac_verifier verify m)) (\<lambda>c d. c = d \<and> ctr_key c \<noteq> None)"
proof
  fix c d :: "'a SSHAESCTRCipher" and pkt :: bytes and seq :: nat
  assume s: "c = d \<and> ctr_key c \<noteq> None"
  then obtain k where k: "ctr_key d = Some k" "c = d" by auto
  from assms(1) have laws: "length (enc k ctr x) = length x" "dec k ctr (take n (enc k ctr x)) = Some (take n x)"
    "dec k ctr (enc k ctr x) = Some x" for ctr x n
    by (auto simp: ctr_laws_def) (metis order_refl take_all)
  show "\<exists>c' d' ct. (case Some (ctr_encryptor enc) of None \<Rightarrow> (c, pkt) | Some enc \<Rightarrow> enc c pkt seq None) = (c', ct)
        \<and> length ct = length pkt
        \<and> ctr_decryptor dec d (take 16 ct) seq None False = (d, Some (take 16 pkt))
        \<and> ctr_decryptor dec d ct seq None True = (d', Some pkt) \<and> (c' = d' \<and> ctr_key c' \<noteq> None)"
    by (simp add: ctr_encryptor_def ctr_encrypt_def ctr_decryptor_def ctr_decrypt_def k laws incCounter_def)
next
  fix pkt :: bytes and seq :: nat
  show "case (Some (ctr_encryptor enc), Some (hmac_signer sign m)) of
         (Some enc, Some sg) \<Rightarrow> length (sg pkt seq) = hmac_length m
           \<and> (case Some (hmac_verifier verify m) of None \<Rightarrow> True | Some v \<Rightarrow> v pkt (sg pkt seq) seq)
       | _ \<Rightarrow> hmac_length m = 0"
    using assms by (simp add: hmac_signer_def hmac_sign_def hmac_verifier_def hmac_verify_def hmac_init_def hmac_laws_def)
qed simp_all

subsection \<open>Properties\<close>

text \<open>A run of \<open>encrypt\<close> calls on one GCM cipher object, each with its data and additional data.\<close>

fun gcm_encrypt_all ::
  "('k \<Rightarrow> bytes \<Rightarrow> bytes option \<Rightarrow> bytes \<Rightarrow> bytes) \<Rightarrow> 'k SSHAESGCMCipher \<Rightarrow> (bytes \<times> bytes option) list
   \<Rightarrow> (crypto_error, 'k SSHAESGCMCipher \<times> bytes list) result" where
  "gcm_encrypt_all enc c [] = Inr (c, [])"
| "gcm_encrypt_all enc c ((d, aad) # ms) =
     (case gcm_encrypt enc c d 0 aad of
        Inl e \<Rightarrow> Inl e
      | Inr (c, out) \<Rightarrow> (case gcm_encrypt_all enc c ms of Inl e \<Rightarrow> Inl e | Inr (c, outs) \<Rightarrow> Inr (c, out # outs)))"

lemma gcm_key_incIV [simp]: "gcm_key (incIV c) = gcm_key c"
  by (simp add: incIV_def)

lemma gcm_encrypt_all_nonces:
  "gcm_key c = Some k \<Longrightarrow>
   gcm_encrypt_all enc c ms =
     Inr ((incIV ^^ length ms) c,
          map2 (\<lambda>iv (d, aad). enc k iv aad d) (map (\<lambda>i. gcm_iv ((incIV ^^ i) c)) [0..<length ms]) ms)"
proof (induction enc c ms rule: gcm_encrypt_all.induct)
  case (2 enc c d aad ms)
  have "map (\<lambda>i. gcm_iv ((incIV ^^ i) c)) [0..<length ((d, aad) # ms)]
      = gcm_iv c # map (\<lambda>i. gcm_iv ((incIV ^^ i) (incIV c))) [0..<length ms]"
    by (simp add: upt_conv_Cons map_Suc_upt [symmetric] funpow_swap1 del: upt_Suc)
  with 2 show ?case by (simp add: gcm_encrypt_def funpow_swap1 del: upt_Suc)
qed simp

lemma incIV_distinct:
  assumes "length (gcm_iv c) = 12" "n \<le> 2 ^ 64"
  shows "distinct (map (\<lambda>i. gcm_iv ((incIV ^^ i) c)) [0..<n])"
proof -
  have "inj_on (\<lambda>i. gcm_iv ((incIV ^^ i) c)) {0..<n}"
  proof (rule inj_onI)
    fix i j assume "i \<in> {0..<n}" "j \<in> {0..<n}"
      and eq: "gcm_iv ((incIV ^^ i) c) = gcm_iv ((incIV ^^ j) c)"
    with assms(2) have "i < 2 ^ 64" "j < 2 ^ 64" by auto
    with eq incIV_iterate [OF assms(1), of i] incIV_iterate [OF assms(1), of j] show "i = j"
      by (intro mod_add_eq_imp_eq [of "be_value (drop 4 (gcm_iv c))" i "2 ^ 64" j]) metis+
  qed
  then show ?thesis by (simp add: distinct_map)
qed

text \<open>C18: AES-GCM never repeats a nonce under one key: any run of up to \<open>2^64\<close> encryptions on an
  initialised cipher succeeds, the i-th call uses the key with the i-th nonce, and the nonces are
  12 bytes long and pairwise distinct.\<close>

theorem gcm_nonces_distinct:
  assumes "gcm_key c = Some k" "length (gcm_iv c) = 12" "length ms \<le> 2 ^ 64"
  shows "\<exists>c' nonces. gcm_encrypt_all enc c ms = Inr (c', map2 (\<lambda>iv (d, aad). enc k iv aad d) nonces ms)
    \<and> length nonces = length ms \<and> distinct nonces \<and> list_all (\<lambda>iv. length iv = 12) nonces"
  using gcm_encrypt_all_nonces [OF assms(1)] incIV_distinct [OF assms(2,3)] incIV_iterate [OF assms(2)]
  by (intro exI conjI) (auto simp: list_all_iff)

theorem gcm_nonces_distinct_witness:
  "\<exists>c' nonces. gcm_encrypt_all (\<lambda>k iv aad d. iv @ d) \<lparr>gcm_key = Some (), gcm_iv = replicate 12 255, gcm_rawKey = []\<rparr> [([1], None), ([2], None)]
     = Inr (c', map2 (\<lambda>iv (d, aad :: bytes option). iv @ d) nonces [([1], None), ([2], None)]) \<and> length nonces = Suc 1 \<and> distinct nonces"
proof -
  let ?c = "\<lparr>gcm_key = Some (), gcm_iv = replicate 12 255, gcm_rawKey = []\<rparr>"
  have "gcm_key ?c = Some ()" "length (gcm_iv ?c) = 12" "length [([1 :: byte], None), ([2], None)] \<le> 2 ^ 64" by simp_all
  from gcm_nonces_distinct [OF this, of "\<lambda>k iv aad d. iv @ d"] show ?thesis
    by (simp only: list.size One_nat_def add_Suc add_0 add_0_right) blast
qed

text \<open>C5: End-to-end transport under AES-GCM. If WebCrypto's authenticated decryption inverts its
  encryption, two ends that derive the same key and IV exchange any sequence of payloads, of any
  content and in any chunking, without loss, duplication or reordering.\<close>

theorem gcm_stream_roundtrip:
  assumes "gcm_laws enc dec"
    and "new_SSHAESGCMCipher rawKey iv = Inr c0" "c = gcm_init importKey c0"
    and "\<forall>x \<in> set ds. small 16 x"
    and "concat cs = send_all 16 True (Some (gcm_encryptor enc)) None c 0 random ds"
  shows "fst (recv 16 True 0 (gcm_decryptor dec) None (length ds) (fold (\<lambda>chunk p. feed p chunk) cs new_parser) c) = ds"
  using record_layer.stream_roundtrip [OF gcm_record_layer [OF assms(1)] _ assms(4,5)] assms(3)
  by (simp add: gcm_init_def)

theorem gcm_stream_roundtrip_witness:
  "\<exists>wire. fst (recv 16 True 0 (gcm_decryptor (\<lambda>k iv aad ct. Some (take (length ct - 16) ct))) None 2
     (feed new_parser wire) (gcm_init id \<lparr>gcm_key = None, gcm_iv = zeros 12, gcm_rawKey = []\<rparr>)) = [[20], [21, 22]]"
proof -
  let ?enc = "\<lambda>(k :: bytes) (iv :: bytes) (aad :: bytes option) (d :: bytes). d @ zeros 16"
  let ?ci = "\<lparr>gcm_key = None, gcm_iv = zeros 12, gcm_rawKey = []\<rparr>"
  let ?wire = "send_all 16 True (Some (gcm_encryptor ?enc)) None (gcm_init id ?ci) 0 (\<lambda>seq i. 0) [[20], [21, 22]]"
  have "fst (recv 16 True 0 (gcm_decryptor (\<lambda>k iv aad ct. Some (take (length ct - 16) ct))) None (length [[20], [21, 22 :: byte]])
     (fold (\<lambda>chunk p. feed p chunk) [?wire] new_parser) (gcm_init id ?ci)) = [[20], [21, 22]]"
    by (rule gcm_stream_roundtrip [where enc = ?enc and rawKey = "[]" and iv = "zeros 12" and ?c0.0 = ?ci
          and importKey = id and random = "\<lambda>seq i. 0"])
      (simp_all add: gcm_laws_def new_SSHAESGCMCipher_def small_def MAX_PACKET_SIZE_def del: send_all.simps)
  then show ?thesis by (intro exI [of _ ?wire]) (simp add: numeral_2_eq_2 [symmetric] del: send_all.simps recv.simps)
qed

text \<open>C16: End-to-end transport under AES-CTR with HMAC, for both supported MAC algorithms: under
  WebCrypto's laws for the stream cipher and the MAC, what is sent is what is received, for any
  payloads and any chunking.\<close>

theorem ctr_hmac_stream_roundtrip:
  assumes "ctr_laws enc dec" "hmac_laws importMacKey sign verify"
    and "new_SSHAESCTRCipher rawKey iv = Inr c0" "c = ctr_init importKey c0"
    and "new_SSHHMAC algorithm macKey = Inr m0" "m = hmac_init importMacKey m0"
    and "\<forall>x \<in> set ds. small 16 x"
    and "concat cs = send_all 16 False (Some (ctr_encryptor enc)) (Some (hmac_signer sign m)) c 0 random ds"
  shows "fst (recv 16 False (hmac_length m) (ctr_decryptor dec) (Some (hmac_verifier verify m)) (length ds)
           (fold (\<lambda>chunk p. feed p chunk) cs new_parser) c) = ds"
proof -
  have "hmac_length m0 = hash_bytes (hmac_hash m0)"
    using assms(5) by (auto simp: new_SSHHMAC_def hash_bytes_def split: if_splits)
  from record_layer.stream_roundtrip [OF ctr_record_layer [OF assms(1,2,6) this] _ assms(7,8)] assms(4)
  show ?thesis by (simp add: ctr_init_def)
qed

theorem ctr_hmac_stream_roundtrip_witness:
  "\<exists>wire m. hmac_length m = 32 \<and> fst (recv 16 False 32 (ctr_decryptor (\<lambda>k iv ct. Some ct))
     (Some (hmac_verifier (\<lambda>k s d. s = k) m)) 2
     (feed new_parser wire) (ctr_init id \<lparr>ctr_key = None, ctr_counter = zeros 16, ctr_rawKey = []\<rparr>)) = [[20], [21, 22]]"
proof -
  let ?enc = "\<lambda>(k :: bytes) (iv :: bytes) (d :: bytes). d"
  let ?imp = "\<lambda>h (raw :: bytes). zeros (hash_bytes h)"
  let ?sign = "\<lambda>k (d :: bytes). (k :: bytes)"
  let ?ci = "\<lparr>ctr_key = None, ctr_counter = zeros 16, ctr_rawKey = []\<rparr>"
  let ?hm = "\<lparr>hmac_key = None, hmac_rawKey = [], hmac_hash = SHA_256, hmac_length = 32\<rparr>"
  let ?m = "hmac_init ?imp ?hm"
  let ?wire = "send_all 16 False (Some (ctr_encryptor ?enc)) (Some (hmac_signer ?sign ?m)) (ctr_init id ?ci) 0 (\<lambda>seq i. 0) [[20], [21, 22]]"
  have "fst (recv 16 False (hmac_length ?m) (ctr_decryptor (\<lambda>k iv ct. Some ct)) (Some (hmac_verifier (\<lambda>k s d. s = k) ?m))
     (length [[20], [21, 22 :: byte]]) (fold (\<lambda>chunk p. feed p chunk) [?wire] new_parser) (ctr_init id ?ci)) = [[20], [21, 22]]"
    by (rule ctr_hmac_stream_roundtrip [where enc = ?enc and importMacKey = ?imp and sign = ?sign and rawKey = "[]"
          and iv = "zeros 16" and ?c0.0 = ?ci and importKey = id and algorithm = "''hmac-sha2-256''" and macKey = "[]"
          and ?m0.0 = ?hm and random = "\<lambda>seq i. 0"])
      (simp_all add: ctr_laws_def hmac_laws_def new_SSHAESCTRCipher_def new_SSHHMAC_def small_def MAX_PACKET_SIZE_def del: send_all.simps)
  then show ?thesis
    by (intro exI [of _ ?wire] exI [of _ ?m])
      (simp add: numeral_2_eq_2 [symmetric] hmac_init_def del: send_all.simps recv.simps)
qed

text \<open>The CTR block counter. A committed operation advances it by exactly the number of 16-byte
  blocks of its input, modulo \<open>2^128\<close>; a peek (\<open>commit = false\<close>) and a failed decryption leave the
  cipher as it was. Both directions therefore stay in step.\<close>

lemma ctr_counter_advances:
  assumes "ctr_key c = Some k" "length (ctr_counter c) = 16"
  shows "\<exists>c' d'. ctr_encrypt enc c d seq aad True = Inr (c', enc k (ctr_counter c) d)
      \<and> ctr_decrypt dec c d seq aad True = Inr d'
      \<and> length (ctr_counter c') = 16
      \<and> be_value (ctr_counter c') = (be_value (ctr_counter c) + (length d + 15) div 16) mod 2 ^ 128
      \<and> d' = (case dec k (ctr_counter c) d of None \<Rightarrow> (c, None) | Some x \<Rightarrow> (c', Some x))
      \<and> ctr_encrypt enc c d seq aad False = Inr (c, enc k (ctr_counter c) d)
      \<and> ctr_decrypt dec c d seq aad False = Inr (c, dec k (ctr_counter c) d)"
  using assms incCounter_correct [OF assms(2)]
  by (auto simp: ctr_encrypt_def ctr_decrypt_def ceil_div16_def split: option.splits)

end
