(* ===== verification/Ssh_Kex.thy ===== *)
theory Ssh_Kex
  imports Ssh_Crypto
begin

text \<open>
  Algorithm negotiation and key derivation: \<^verbatim>\<open>algorithms.ts\<close>, \<^verbatim>\<open>kex.ts\<close>,
  \<^verbatim>\<open>keys.ts\<close> and \<^verbatim>\<open>transport.ts\<close> under \<^verbatim>\<open>worker/src/webssh/ssh\<close>.
  Lengths in KEXINIT and EXT_INFO are read with JavaScript's signed 32-bit operators, so offsets are
  integers here and a read outside the array yields 0 (\<open>js_at\<close>); \<open>js_subarray\<close> is
  \<open>TypedArray.prototype.subarray\<close> with its treatment of negative indices. The digest of
  \<open>crypto.subtle\<close> is an argument.
\<close>

subsection \<open>Algorithms\<close>

definition KEX_ALGORITHM_CURVE25519_SHA256 :: string where
  "KEX_ALGORITHM_CURVE25519_SHA256 = ''curve25519-sha256''"

definition KEX_ALGORITHM_ECDH_NISTP256 :: string where
  "KEX_ALGORITHM_ECDH_NISTP256 = ''ecdh-sha2-nistp256''"

definition SUPPORTED_KEX_ALGORITHMS :: "string list" where
  "SUPPORTED_KEX_ALGORITHMS = [KEX_ALGORITHM_CURVE25519_SHA256, KEX_ALGORITHM_ECDH_NISTP256]"

definition SUPPORTED_ENCRYPTION_ALGORITHMS :: "string list" where
  "SUPPORTED_ENCRYPTION_ALGORITHMS =
     [''aes128-gcm@openssh.com'', ''aes256-gcm@openssh.com'', ''aes128-ctr'', ''aes192-ctr'', ''aes256-ctr'']"

definition SUPPORTED_MAC_ALGORITHMS :: "string list" where
  "SUPPORTED_MAC_ALGORITHMS = [''hmac-sha2-256'', ''hmac-sha2-512'']"

datatype cipher_mode = Gcm | Ctr

record CipherSpec =
  cs_mode :: cipher_mode
  cs_blockSize :: nat
  cs_ivLength :: nat
  cs_keyLength :: nat
  cs_aead :: bool

record MacSpec =
  ms_length :: nat
  ms_keyLength :: nat

definition CIPHER_SPECS :: "string \<rightharpoonup> CipherSpec" where
  "CIPHER_SPECS = map_of
     [(''aes256-gcm@openssh.com'', \<lparr>cs_mode = Gcm, cs_blockSize = 16, cs_ivLength = 12, cs_keyLength = 32, cs_aead = True\<rparr>),
      (''aes128-gcm@openssh.com'', \<lparr>cs_mode = Gcm, cs_blockSize = 16, cs_ivLength = 12, cs_keyLength = 16, cs_aead = True\<rparr>),
      (''aes256-ctr'', \<lparr>cs_mode = Ctr, cs_blockSize = 16, cs_ivLength = 16, cs_keyLength = 32, cs_aead = False\<rparr>),
      (''aes192-ctr'', \<lparr>cs_mode = Ctr, cs_blockSize = 16, cs_ivLength = 16, cs_keyLength = 24, cs_aead = False\<rparr>),
      (''aes128-ctr'', \<lparr>cs_mode = Ctr, cs_blockSize = 16, cs_ivLength = 16, cs_keyLength = 16, cs_aead = False\<rparr>)]"

definition MAC_SPECS :: "string \<rightharpoonup> MacSpec" where
  "MAC_SPECS = map_of
     [(''none'', \<lparr>ms_length = 0, ms_keyLength = 32\<rparr>),
      (''hmac-sha2-256'', \<lparr>ms_length = 32, ms_keyLength = 32\<rparr>),
      (''hmac-sha2-512'', \<lparr>ms_length = 64, ms_keyLength = 64\<rparr>)]"

datatype kex_error =
    UnsupportedCipher string | UnsupportedMacAlgorithm string
  | KexInitHeader | KexInitTruncated nat | KexInitListLength nat | KexInitUtf8 nat | KexInitAlgorithms nat
  | KexInitTrailer | KexInitTrailing
  | NoCommon string
  | ExtInfoType | ExtInfoCount | ExtInfoTooMany int | ExtInfoNameLength | ExtInfoName
  | ExtInfoValueLength | ExtInfoValue | ExtInfoSigAlgs | ExtInfoTrailing

definition isCurve25519KEXAlgorithm :: "string \<Rightarrow> bool" where
  "isCurve25519KEXAlgorithm algorithm \<longleftrightarrow> algorithm = KEX_ALGORITHM_CURVE25519_SHA256"

text \<open>The lookups, for names that are not properties of \<open>Object.prototype\<close>; negotiated names never
  are.\<close>

definition getCipherSpec :: "string \<Rightarrow> (kex_error, CipherSpec) result" where
  "getCipherSpec algorithm =
     (case CIPHER_SPECS algorithm of None \<Rightarrow> Inl (UnsupportedCipher algorithm) | Some spec \<Rightarrow> Inr spec)"

definition getMacSpec :: "string \<Rightarrow> (kex_error, MacSpec) result" where
  "getMacSpec algorithm =
     (case MAC_SPECS algorithm of None \<Rightarrow> Inl (UnsupportedMacAlgorithm algorithm) | Some spec \<Rightarrow> Inr spec)"

subsection \<open>Identification\<close>

definition SSH_VERSION :: string where
  "SSH_VERSION = ''SSH-2.0-CFWorkersWebSSH_1.0''"

definition isSSH2Identification :: "string \<Rightarrow> bool" where
  "isSSH2Identification value \<longleftrightarrow> starts_with ''SSH-2.0-'' value \<or> starts_with ''SSH-1.99-'' value"

record SSHTransport =
  remoteVersion :: string
  localVersion :: string

definition new_SSHTransport :: SSHTransport where
  "new_SSHTransport = \<lparr>remoteVersion = [], localVersion = SSH_VERSION\<rparr>"

definition setRemoteVersion :: "SSHTransport \<Rightarrow> string \<Rightarrow> SSHTransport" where
  "setRemoteVersion t version = t\<lparr>remoteVersion := version\<rparr>"

definition getLocalIdentification :: "SSHTransport \<Rightarrow> bytes" where
  "getLocalIdentification t = utf8_encode (localVersion t @ [CHR 0x0D, CHR 0x0A])"

subsection \<open>Signed reads\<close>

definition js_at :: "bytes \<Rightarrow> int \<Rightarrow> byte" where
  "js_at d i = (if 0 \<le> i then u8_at d (nat i) else 0)"

text \<open>\<open>(d[i] << 24) | (d[i+1] << 16) | (d[i+2] << 8) | d[i+3]\<close>: a signed 32-bit number.\<close>

definition int32_at :: "bytes \<Rightarrow> int \<Rightarrow> int" where
  "int32_at d i = sint (be32_word (js_at d i) (js_at d (i + 1)) (js_at d (i + 2)) (js_at d (i + 3)))"

definition js_index :: "nat \<Rightarrow> int \<Rightarrow> nat" where
  "js_index len i = (if i < 0 then nat (max 0 (int len + i)) else min (nat i) len)"

definition js_subarray :: "bytes \<Rightarrow> int \<Rightarrow> int \<Rightarrow> bytes" where
  "js_subarray d start stop = subarray d (js_index (length d) start) (js_index (length d) stop)"

subsection \<open>KEXINIT\<close>

definition SSH_MSG_KEXINIT :: byte where "SSH_MSG_KEXINIT = 20"

record KEXInitMessage =
  kexAlgorithms :: "string list"
  hostKeyAlgorithms :: "string list"
  encryptionC2S :: "string list"
  encryptionS2C :: "string list"
  macC2S :: "string list"
  macS2C :: "string list"
  compressionC2S :: "string list"
  compressionS2C :: "string list"
  firstKexPacketFollows :: bool

definition kexinit_lists :: "string list" where
  "kexinit_lists =
     [join_with '','' (''ext-info-c'' # SUPPORTED_KEX_ALGORITHMS),
      ''ssh-ed25519,ecdsa-sha2-nistp256,ecdsa-sha2-nistp384,ecdsa-sha2-nistp521,rsa-sha2-512,rsa-sha2-256'',
      join_with '','' SUPPORTED_ENCRYPTION_ALGORITHMS, join_with '','' SUPPORTED_ENCRYPTION_ALGORITHMS,
      join_with '','' SUPPORTED_MAC_ALGORITHMS, join_with '','' SUPPORTED_MAC_ALGORITHMS,
      ''none'', ''none'', [], []]"

text \<open>The loop of \<open>KEXInitBuilder.build\<close> over its name lists; \<open>random\<close> is the cookie.\<close>

definition kexinit_parts :: "string list \<Rightarrow> bytes list" where
  "kexinit_parts nameLists = concat (map (\<lambda>name. [encodeUint32 (length (utf8_encode name)), utf8_encode name]) nameLists)"

definition KEXInitBuilder_build :: "(nat \<Rightarrow> byte) \<Rightarrow> bytes" where
  "KEXInitBuilder_build random =
     concat_arrays ([[SSH_MSG_KEXINIT]] @ [map random [0..<16]] @ kexinit_parts kexinit_lists @ [[0], zeros 4])"

definition valid_name_list :: "string \<Rightarrow> bool" where
  "valid_name_list name \<longleftrightarrow>
     \<not> (CHR 0x00 \<in> set name \<or> list_ex (\<lambda>entry. 0 < length entry \<and> \<not> list_all name_char entry) (split_on (CHR '','') name))"

fun parse_lists :: "nat \<Rightarrow> nat \<Rightarrow> bytes \<Rightarrow> int \<Rightarrow> (kex_error, string list \<times> int) result" where
  "parse_lists i 0 data offset = Inr ([], offset)"
| "parse_lists i (Suc n) data offset =
     (if int (length data) < offset + 4 then Inl (KexInitTruncated i)
      else let len = int32_at data offset; offset = offset + 4 in
      if len < 0 \<or> int (length data) < offset + len then Inl (KexInitListLength i)
      else (case utf8_decode (js_subarray data offset (offset + len)) of
              None \<Rightarrow> Inl (KexInitUtf8 i)
            | Some name \<Rightarrow>
                if \<not> valid_name_list name then Inl (KexInitAlgorithms i)
                else (case parse_lists (i + 1) n data (offset + len) of
                        Inl e \<Rightarrow> Inl e
                      | Inr (names, offset) \<Rightarrow> Inr (name # names, offset))))"

definition parseKEXInit :: "bytes \<Rightarrow> (kex_error, KEXInitMessage) result" where
  "parseKEXInit data =
     (if length data < 22 \<or> u8_at data 0 \<noteq> SSH_MSG_KEXINIT then Inl KexInitHeader
      else (case parse_lists 0 10 data 17 of
              Inl e \<Rightarrow> Inl e
            | Inr (nameLists, offset) \<Rightarrow>
                if int (length data) < offset + 5 then Inl KexInitTrailer
                else let follows = js_at data offset \<noteq> 0 in
                if offset + 5 \<noteq> int (length data) then Inl KexInitTrailing
                else let names = (\<lambda>i. split_on (CHR '','') (nameLists ! i)) in
                  Inr \<lparr>kexAlgorithms = names 0, hostKeyAlgorithms = names 1,
                       encryptionC2S = names 2, encryptionS2C = names 3, macC2S = names 4, macS2C = names 5,
                       compressionC2S = names 6, compressionS2C = names 7, firstKexPacketFollows = follows\<rparr>))"

fun negotiate :: "string list \<Rightarrow> string list \<Rightarrow> string \<Rightarrow> (kex_error, string) result" where
  "negotiate [] serverList category = Inl (NoCommon category)"
| "negotiate (algo # clientList) serverList category =
     (if algo \<in> set serverList then Inr algo else negotiate clientList serverList category)"

definition filterExtInfo :: "string list \<Rightarrow> string list" where
  "filterExtInfo xs = filter (\<lambda>a. \<not> starts_with ''ext-info-'' a) xs"

subsection \<open>EXT_INFO\<close>

fun ext_loop :: "nat \<Rightarrow> bytes \<Rightarrow> int \<Rightarrow> string list \<Rightarrow> (kex_error, string list) result" where
  "ext_loop 0 payload offset algs = (if offset \<noteq> int (length payload) then Inl ExtInfoTrailing else Inr algs)"
| "ext_loop (Suc n) payload offset algs =
     (if int (length payload) < offset + 4 then Inl ExtInfoNameLength
      else let nameLen = int32_at payload offset; offset = offset + 4 in
      if int (length payload) < offset + nameLen then Inl ExtInfoName
      else (case utf8_decode (js_subarray payload offset (offset + nameLen)) of
              None \<Rightarrow> Inl ExtInfoName
            | Some name \<Rightarrow>
                let offset = offset + nameLen in
                if int (length payload) < offset + 4 then Inl ExtInfoValueLength
                else let valueLen = int32_at payload offset; offset = offset + 4 in
                if int (length payload) < offset + valueLen then Inl ExtInfoValue
                else let valueBytes = js_subarray payload offset (offset + valueLen); offset = offset + valueLen in
                if name = ''server-sig-algs''
                then (case utf8_decode valueBytes of
                        None \<Rightarrow> Inl ExtInfoSigAlgs
                      | Some value \<Rightarrow>
                          ext_loop n payload offset
                            (filter (\<lambda>a. a \<noteq> [] \<and> list_all name_char a) (split_on (CHR '','') value)))
                else ext_loop n payload offset algs))"

definition parseServerSigAlgs :: "bytes \<Rightarrow> (kex_error, string list) result" where
  "parseServerSigAlgs payload =
     (if \<not> (0 < length payload \<and> payload ! 0 = 7) then Inl ExtInfoType
      else if length payload < 5 then Inl ExtInfoCount
      else let nrExtensions = int32_at payload 1 in
      if 1024 < nrExtensions then Inl (ExtInfoTooMany nrExtensions)
      else ext_loop (nat nrExtensions) payload 5 [])"

subsection \<open>Key derivation\<close>

record SessionKeys =
  ivClientToServer :: bytes
  ivServerToClient :: bytes
  encKeyClientToServer :: bytes
  encKeyServerToClient :: bytes
  integrityKeyC2S :: bytes
  integrityKeyS2C :: bytes
  sessionID :: bytes

fun expand_loop :: "(bytes \<Rightarrow> bytes) \<Rightarrow> bytes \<Rightarrow> bytes \<Rightarrow> nat \<Rightarrow> nat \<Rightarrow> bytes \<Rightarrow> nat \<Rightarrow> bytes" where
  "expand_loop digest K H needed 0 res offset = res"
| "expand_loop digest K H needed (Suc rounds) res offset =
     (let prevKeys = take offset res;
          currentHash = digest (concat_arrays [K, H, prevKeys]);
          remaining = needed - offset
      in expand_loop digest K H needed rounds (u8_set res (take (min 32 remaining) currentHash) offset) (offset + 32))"

definition expandKey :: "(bytes \<Rightarrow> bytes) \<Rightarrow> bytes \<Rightarrow> bytes \<Rightarrow> string \<Rightarrow> bytes \<Rightarrow> nat \<Rightarrow> bytes" where
  "expandKey digest K H X sessionId needed =
     (let rounds = (needed + 31) div 32;
          res = zeros needed;
          currentHash = digest (concat_arrays [K, H, utf8_encode X, sessionId]);
          res = u8_set res (take (min 32 needed) currentHash) 0
      in expand_loop digest K H needed (rounds - 1) res 32)"

definition deriveKeys ::
  "(bytes \<Rightarrow> bytes) \<Rightarrow> bytes \<Rightarrow> bytes \<Rightarrow> bytes \<Rightarrow> nat \<Rightarrow> nat \<Rightarrow> nat \<Rightarrow> nat \<Rightarrow> nat \<Rightarrow> nat \<Rightarrow> SessionKeys" where
  "deriveKeys digest sharedSecret exchangeHash sid ivLengthC2S ivLengthS2C integrityKeyLengthC2S
     integrityKeyLengthS2C encryptionKeyLengthC2S encryptionKeyLengthS2C =
     \<lparr>ivClientToServer = expandKey digest sharedSecret exchangeHash ''A'' sid ivLengthC2S,
      ivServerToClient = expandKey digest sharedSecret exchangeHash ''B'' sid ivLengthS2C,
      encKeyClientToServer = expandKey digest sharedSecret exchangeHash ''C'' sid encryptionKeyLengthC2S,
      encKeyServerToClient = expandKey digest sharedSecret exchangeHash ''D'' sid encryptionKeyLengthS2C,
      integrityKeyC2S = expandKey digest sharedSecret exchangeHash ''E'' sid integrityKeyLengthC2S,
      integrityKeyS2C = expandKey digest sharedSecret exchangeHash ''F'' sid integrityKeyLengthS2C,
      sessionID = sid\<rparr>"

subsection \<open>KEXINIT is parsed exactly\<close>

lemma int32_at_nat:
  "int32_at d (int off) = (if readUint32 d off < 2 ^ 31 then int (readUint32 d off) else int (readUint32 d off) - 2 ^ 32)"
proof -
  define w where "w = be32_word (u8_at d off) (u8_at d (off + 1)) (u8_at d (off + 2)) (u8_at d (off + 3))"
  have at: "js_at d (int off + int k) = u8_at d (off + k)" for k by (simp add: js_at_def nat_add_distrib)
  have "int32_at d (int off) = sint w"
    using at [of 0] at [of 1] at [of 2] at [of 3] by (simp add: int32_at_def w_def)
  moreover have "readUint32 d off = unat w" by (simp add: readUint32_def w_def)
  moreover have "sint w = (if unat w < 2 ^ 31 then int (unat w) else int (unat w) - 2 ^ 32)"
  proof -
    have u: "uint w < 2 ^ 32" "0 \<le> uint w" using uint_bounded [of w] by simp_all
    have "sint w = signed_take_bit 31 (uint w)" by (simp add: sint_uint)
    also have "\<dots> = (uint w + 2 ^ 31) mod 2 ^ 32 - 2 ^ 31"
      by (simp add: signed_take_bit_eq_take_bit_shift take_bit_eq_mod)
    also have "\<dots> = (if uint w < 2 ^ 31 then uint w else uint w - 2 ^ 32)"
    proof (cases "uint w < 2 ^ 31")
      case True
      then show ?thesis using u by simp
    next
      case False
      have "(uint w + 2 ^ 31) mod 2 ^ 32 = (uint w - 2 ^ 31 + 2 ^ 32) mod 2 ^ 32" by (simp add: add.commute)
      also have "\<dots> = (uint w - 2 ^ 31) mod 2 ^ 32" by (rule mod_add_self2)
      also have "\<dots> = uint w - 2 ^ 31" using u False by (intro mod_pos_pos_trivial) auto
      finally show ?thesis using False by simp
    qed
    finally have "sint w = (if uint w < 2 ^ 31 then uint w else uint w - 2 ^ 32)" .
    moreover have "uint w = int (unat w)" by simp
    ultimately show ?thesis by (metis of_nat_less_iff of_nat_numeral of_nat_power)
  qed
  ultimately show ?thesis by simp
qed

lemma js_subarray_nat:
  "a \<le> b \<Longrightarrow> b \<le> length d \<Longrightarrow> js_subarray d (int a) (int b) = subarray d a b"
  by (simp add: js_subarray_def js_index_def)

lemma parse_lists_complete:
  "list_all2 (\<lambda>raw name. utf8_decode raw = Some name \<and> valid_name_list name \<and> length raw < 2 ^ 31) raws names \<Longrightarrow>
   n = length raws \<Longrightarrow> off = int (length pre) \<Longrightarrow>
   parse_lists i n (pre @ concat (map encodeString raws) @ post) off
     = Inr (names, int (length pre + length (concat (map encodeString raws))))"
proof (induction raws names arbitrary: i n off pre rule: list_all2_induct)
  case Nil
  then show ?case by simp
next
  case (Cons raw raws name names)
  let ?data = "pre @ be32 (length raw) @ raw @ concat (map encodeString raws) @ post"
  have l: "length raw mod 2 ^ 32 = length raw" using Cons.hyps by simp
  have len: "int32_at ?data (int (length pre)) = int (length raw)"
    using Cons.hyps l by (simp add: int32_at_nat readUint32_be32)
  have "js_subarray ?data (int (length pre + 4)) (int (length pre + 4 + length raw)) = raw"
    by (subst js_subarray_nat) (simp_all add: subarray_def)
  then have sub: "js_subarray ?data (int (length pre) + 4) (int (length pre) + 4 + int (length raw)) = raw"
    by (simp add: algebra_simps)
  have IH: "parse_lists (i + 1) (length raws) ?data (int (length pre) + 4 + int (length raw))
      = Inr (names, int (length pre + 4 + length raw + length (concat (map encodeString raws))))"
    using Cons.IH [of "length raws" _ "pre @ encodeString raw" "i + 1"]
    by (simp add: encodeString_eq [of raw] algebra_simps)
  show ?case
    using Cons.hyps Cons.prems len sub IH by (simp add: encodeString_eq [of raw] Let_def)
qed

lemma parse_lists_sound:
  "parse_lists i n data (int off) = Inr (names, stop) \<Longrightarrow> off \<le> length data \<Longrightarrow>
   \<exists>raws. list_all2 (\<lambda>raw name. utf8_decode raw = Some name \<and> valid_name_list name \<and> length raw < 2 ^ 31) raws names
     \<and> length raws = n \<and> drop off data = concat (map encodeString raws) @ drop (nat stop) data
     \<and> stop = int (off + length (concat (map encodeString raws))) \<and> nat stop \<le> length data"
proof (induction n arbitrary: i off names)
  case 0
  then show ?case by auto
next
  case (Suc n)
  let ?v = "readUint32 data off"
  from Suc.prems(1) have a: "off + 4 \<le> length data" and v: "?v < 2 ^ 31" "off + 4 + ?v \<le> length data"
    using readUint32_bound [of data off] by (auto simp: int32_at_nat Let_def split: if_splits)
  have len: "int32_at data (int off) = int ?v" using v(1) by (simp add: int32_at_nat)
  define raw where "raw = subarray data (off + 4) (off + 4 + ?v)"
  have jsub: "js_subarray data (int off + 4) (int off + 4 + int ?v) = raw"
    using js_subarray_nat [of "off + 4" "off + 4 + ?v" data] v(2) by (simp add: raw_def algebra_simps)
  have nx: "int off + 4 + int ?v = int (off + 4 + ?v)" by simp
  from Suc.prems(1) a v obtain name rest where r: "utf8_decode raw = Some name" "valid_name_list name"
      "parse_lists (i + 1) n data (int (off + 4 + ?v)) = Inr (rest, stop)" "names = name # rest"
    unfolding nx [symmetric]
    by (auto simp: len jsub Let_def simp del: of_nat_add split: if_splits option.splits sum.splits prod.splits)
  from Suc.IH [OF r(3) v(2)]
  obtain raws where raws: "list_all2 (\<lambda>raw name. utf8_decode raw = Some name \<and> valid_name_list name \<and> length raw < 2 ^ 31) raws rest"
    "length raws = n" "drop (off + 4 + ?v) data = concat (map encodeString raws) @ drop (nat stop) data"
    "stop = int (off + 4 + ?v + length (concat (map encodeString raws)))" "nat stop \<le> length data"
    by blast
  have lr: "length raw = ?v" using v(2) by (simp add: raw_def length_subarray)
  have "drop off data = subarray data off (off + 4) @ raw @ drop (off + 4 + ?v) data"
    using drop_subarray [of off "off + 4" data] drop_subarray [of "off + 4" "off + 4 + ?v" data] by (simp add: raw_def)
  then have "drop off data = encodeString raw @ drop (off + 4 + ?v) data"
    using be32_readUint32 [OF a] lr by (simp add: encodeString_eq)
  with raws r lr v(1) show ?case by (intro exI [of _ "raw # raws"]) auto
qed

text \<open>The reference: a KEXINIT message is the type byte, a cookie, ten length-prefixed name lists, the
  flag and the reserved field, and each raw list decodes to a valid list of names.\<close>

definition kex_message :: "string list \<Rightarrow> bool \<Rightarrow> KEXInitMessage" where
  "kex_message names follows =
     (let entries = (\<lambda>i. split_on (CHR '','') (names ! i)) in
      \<lparr>kexAlgorithms = entries 0, hostKeyAlgorithms = entries 1, encryptionC2S = entries 2, encryptionS2C = entries 3,
       macC2S = entries 4, macS2C = entries 5, compressionC2S = entries 6, compressionS2C = entries 7,
       firstKexPacketFollows = follows\<rparr>)"

definition kexinit_wire :: "bytes \<Rightarrow> bytes list \<Rightarrow> byte \<Rightarrow> bytes \<Rightarrow> bytes" where
  "kexinit_wire cookie raws follows reserved = [20] @ cookie @ concat (map encodeString raws) @ [follows] @ reserved"

definition raw_names :: "bytes list \<Rightarrow> string list \<Rightarrow> bool" where
  "raw_names = list_all2 (\<lambda>raw name. utf8_decode raw = Some name \<and> valid_name_list name \<and> length raw < 2 ^ 31)"

lemma concat_encode_length: "4 * length raws \<le> length (concat (map encodeString raws))"
  by (induction raws) auto

lemma parseKEXInit_complete:
  assumes "raw_names raws names" "length raws = 10" "length cookie = 16" "length reserved = 4"
  shows "parseKEXInit (kexinit_wire cookie raws follows reserved) = Inr (kex_message names (follows \<noteq> 0))"
proof -
  let ?lists = "concat (map encodeString raws)"
  let ?data = "kexinit_wire cookie raws follows reserved"
  let ?stop = "17 + length ?lists"
  have pl: "parse_lists 0 10 (([20] @ cookie) @ ?lists @ ([follows] @ reserved)) 17
      = Inr (names, int (length ([20] @ cookie) + length ?lists))"
    by (rule parse_lists_complete) (use assms in \<open>simp_all add: raw_names_def\<close>)
  have "?data = ([20] @ cookie) @ ?lists @ ([follows] @ reserved)" by (simp add: kexinit_wire_def)
  with pl assms(3) have p: "parse_lists 0 10 ?data 17 = Inr (names, int ?stop)" by simp
  have len: "length ?data = ?stop + 5" using assms by (simp add: kexinit_wire_def)
  have at: "js_at ?data (int ?stop) = follows" "u8_at ?data 0 = SSH_MSG_KEXINIT"
    using assms by (simp_all add: kexinit_wire_def js_at_def u8_at_def nth_append SSH_MSG_KEXINIT_def nat_add_distrib)
  show ?thesis
    unfolding parseKEXInit_def p using at(1) by (simp add: len at(2) kex_message_def Let_def)
qed

lemma parseKEXInit_sound:
  assumes "parseKEXInit data = Inr m"
  shows "\<exists>cookie raws names follows reserved. data = kexinit_wire cookie raws follows reserved
    \<and> raw_names raws names \<and> length raws = 10 \<and> length cookie = 16 \<and> length reserved = 4
    \<and> m = kex_message names (follows \<noteq> 0)"
proof -
  from assms obtain names stop where a: "22 \<le> length data" "u8_at data 0 = 20" "parse_lists 0 10 data (int 17) = Inr (names, stop)"
    "stop + 5 = int (length data)" "m = kex_message names (js_at data stop \<noteq> 0)"
    by (auto simp: parseKEXInit_def SSH_MSG_KEXINIT_def Let_def kex_message_def not_less split: if_splits sum.splits prod.splits)
  have "17 \<le> length data" using a(1) by simp
  from parse_lists_sound [OF a(3) this] obtain raws where r: "raw_names raws names" "length raws = 10"
    "drop 17 data = concat (map encodeString raws) @ drop (nat stop) data"
    "stop = int (17 + length (concat (map encodeString raws)))" "nat stop \<le> length data"
    unfolding raw_names_def by blast
  define cookie where "cookie = subarray data 1 17"
  define reserved where "reserved = drop (Suc (nat stop)) data"
  have "length data = nat stop + 5" using a(4) r(4) by simp
  then have dstop: "drop (nat stop) data = data ! nat stop # reserved" and lres: "length reserved = 4"
    by (simp_all add: reserved_def Cons_nth_drop_Suc)
  have "data = subarray data 0 1 @ cookie @ drop 17 data"
    using drop_subarray [of 0 1 data] drop_subarray [of 1 17 data] by (simp add: cookie_def)
  moreover have "subarray data 0 1 = [20]"
    using a(1,2) by (cases data) (auto simp: subarray_def u8_at_def)
  ultimately have "data = kexinit_wire cookie raws (data ! nat stop) reserved"
    using r(3) dstop by (simp add: kexinit_wire_def)
  moreover have "js_at data stop = data ! nat stop"
    using \<open>length data = nat stop + 5\<close> r(4) by (simp add: js_at_def u8_at_def)
  moreover have "length cookie = 16" using a(1) by (simp add: cookie_def length_subarray)
  ultimately show ?thesis using r(1,2) lres a(5) by metis
qed

subsection \<open>EXT_INFO\<close>

definition ext_entry :: "bytes \<times> bytes \<Rightarrow> bytes" where
  "ext_entry e = encodeString (fst e) @ encodeString (snd e)"

text \<open>What the message means: the last \<open>server-sig-algs\<close> extension wins.\<close>

fun ext_spec :: "(bytes \<times> bytes) list \<Rightarrow> string list \<Rightarrow> (kex_error, string list) result" where
  "ext_spec [] algs = Inr algs"
| "ext_spec ((raw, val) # es) algs =
     (case utf8_decode raw of
        None \<Rightarrow> Inl ExtInfoName
      | Some name \<Rightarrow>
          if name = ''server-sig-algs'' then
            (case utf8_decode val of
               None \<Rightarrow> Inl ExtInfoSigAlgs
             | Some value \<Rightarrow> ext_spec es (filter (\<lambda>a. a \<noteq> [] \<and> list_all name_char a) (split_on (CHR '','') value)))
          else ext_spec es algs)"

lemma field_at:
  assumes "length raw < 2 ^ 31"
  shows "int32_at (pre @ encodeString raw @ post) (int (length pre)) = int (length raw)"
    and "js_subarray (pre @ encodeString raw @ post) (int (length pre) + 4) (int (length pre) + 4 + int (length raw)) = raw"
proof -
  have "length raw mod 2 ^ 32 = length raw" using assms by simp
  then show "int32_at (pre @ encodeString raw @ post) (int (length pre)) = int (length raw)"
    using assms by (simp add: int32_at_nat readUint32_be32 encodeString_eq)
  have "js_subarray (pre @ encodeString raw @ post) (int (length pre + 4)) (int (length pre + 4 + length raw)) = raw"
    by (subst js_subarray_nat) (simp_all add: subarray_def encodeString_eq)
  then show "js_subarray (pre @ encodeString raw @ post) (int (length pre) + 4) (int (length pre) + 4 + int (length raw)) = raw"
    by (simp add: algebra_simps)
qed

lemma ext_loop_wire:
  "\<forall>(raw, val) \<in> set exts. length raw < 2 ^ 31 \<and> length val < 2 ^ 31 \<Longrightarrow> off = int (length pre) \<Longrightarrow>
   ext_loop (length exts) (pre @ concat (map ext_entry exts)) off algs = ext_spec exts algs"
proof (induction exts arbitrary: pre off algs)
  case Nil
  then show ?case by simp
next
  case (Cons e exts)
  obtain raw val where e: "e = (raw, val)" by fastforce
  have l: "length raw < 2 ^ 31" "length val < 2 ^ 31" using Cons.prems e by auto
  let ?rest = "concat (map ext_entry exts)"
  let ?data = "pre @ encodeString raw @ encodeString val @ ?rest"
  note f = field_at [OF l(1), of pre "encodeString val @ ?rest"]
  let ?p1 = "pre @ encodeString raw" and ?p2 = "pre @ encodeString raw @ encodeString val"
  have g: "int32_at ?data (int (length ?p1)) = int (length val)"
    "js_subarray ?data (int (length ?p1) + 4) (int (length ?p1) + 4 + int (length val)) = val"
    using field_at [OF l(2), of ?p1 ?rest] by simp_all
  have offs: "int (length pre) + 4 + int (length raw) = int (length ?p1)"
    "int (length ?p1) + 4 + int (length val) = int (length ?p2)" by simp_all
  note subs = f(2) [unfolded offs] g(2) [unfolded offs]
  have len: "\<not> int (length ?data) < int (length pre) + 4" "\<not> int (length ?data) < int (length ?p1)"
    "\<not> int (length ?data) < int (length ?p1) + 4" "\<not> int (length ?data) < int (length ?p2)" by simp_all
  have IH: "ext_loop (length exts) ?data (int (length ?p2)) algs' = ext_spec exts algs'" for algs'
    using Cons.IH [of "int (length ?p2)" ?p2 algs'] Cons.prems by simp
  have "ext_loop (Suc (length exts)) ?data (int (length pre)) algs = ext_spec ((raw, val) # exts) algs"
    unfolding ext_loop.simps ext_spec.simps Let_def f(1) offs g(1) subs if_not_P [OF len(1)] if_not_P [OF len(2)]
      if_not_P [OF len(3)] if_not_P [OF len(4)] IH ..
  moreover have "ext_entry e = encodeString raw @ encodeString val" by (simp add: e ext_entry_def)
  ultimately show ?case using Cons.prems(2) by (simp add: e del: ext_loop.simps ext_spec.simps)
qed

subsection \<open>Key expansion\<close>

text \<open>RFC 4253, section 7.2: \<open>K1 = HASH(K || H || X || session_id)\<close> and
  \<open>Kn+1 = HASH(K || H || K1 || ... || Kn)\<close>; \<open>kdf n\<close> is \<open>K1 || ... || Kn\<close>.\<close>

fun kdf :: "(bytes \<Rightarrow> bytes) \<Rightarrow> bytes \<Rightarrow> bytes \<Rightarrow> bytes \<Rightarrow> bytes \<Rightarrow> nat \<Rightarrow> bytes" where
  "kdf digest K H X sid 0 = []"
| "kdf digest K H X sid (Suc 0) = digest (K @ H @ X @ sid)"
| "kdf digest K H X sid (Suc (Suc n)) =
     kdf digest K H X sid (Suc n) @ digest (K @ H @ kdf digest K H X sid (Suc n))"

lemma length_kdf: "\<forall>d. length (digest d) = 32 \<Longrightarrow> length (kdf digest K H X sid n) = 32 * n"
  by (induction digest K H X sid n rule: kdf.induct) auto

definition key_buffer :: "bytes \<Rightarrow> nat \<Rightarrow> bytes" where
  "key_buffer keys needed = take needed keys @ zeros (needed - length keys)"

lemma key_buffer_step:
  assumes "length keys < needed"
  shows "u8_set (key_buffer keys needed) (take (min (length h) (needed - length keys)) h) (length keys)
       = key_buffer (keys @ h) needed"
  using assms by (auto simp: key_buffer_def u8_set_def min_def)

lemma expand_loop_kdf:
  assumes hash: "\<forall>d. length (digest d) = 32"
  shows "1 \<le> k \<Longrightarrow> (rounds = 0 \<or> 32 * (k + rounds - 1) < needed) \<Longrightarrow>
     expand_loop digest K H needed rounds (key_buffer (kdf digest K H X sid k) needed) (32 * k)
       = key_buffer (kdf digest K H X sid (k + rounds)) needed"
proof (induction rounds arbitrary: k)
  case (Suc rounds)
  let ?ks = "kdf digest K H X sid k"
  have lk: "length ?ks = 32 * k" by (rule length_kdf [OF hash])
  have lt: "length ?ks < needed" using Suc.prems lk by auto
  have prev: "take (32 * k) (key_buffer ?ks needed) = ?ks" using lt lk by (simp add: key_buffer_def)
  obtain k' where k': "k = Suc k'" using Suc.prems(1) by (cases k) auto
  have nxt: "kdf digest K H X sid (Suc k) = ?ks @ digest (K @ H @ ?ks)" by (simp add: k')
  have "u8_set (key_buffer ?ks needed) (take (min 32 (needed - 32 * k)) (digest (K @ H @ ?ks))) (32 * k)
      = key_buffer (kdf digest K H X sid (Suc k)) needed"
    using key_buffer_step [OF lt, of "digest (K @ H @ ?ks)"] hash by (simp add: lk nxt)
  then show ?case
    using Suc.IH [of "Suc k"] Suc.prems prev by (simp add: Let_def concat_arrays_concat add.commute)
qed simp

lemma expandKey_kdf:
  assumes hash: "\<forall>d. length (digest d) = 32"
  shows "expandKey digest K H X sid needed = take needed (kdf digest K H (utf8_encode X) sid ((needed + 31) div 32))"
proof (cases "needed = 0")
  case True
  then show ?thesis by (simp add: expandKey_def u8_set_def)
next
  case False
  let ?r = "(needed + 31) div 32"
  let ?k = "kdf digest K H (utf8_encode X) sid"
  have r: "1 \<le> ?r" "32 * (?r - 1) < needed" "needed \<le> 32 * ?r" using False by linarith+
  have "u8_set (zeros needed) (take (min 32 needed) (digest (K @ H @ utf8_encode X @ sid))) 0 = key_buffer (?k 1) needed"
    using hash by (auto simp: key_buffer_def u8_set_def min_def)
  moreover have "expand_loop digest K H needed (?r - 1) (key_buffer (?k 1) needed) (32 * 1) = key_buffer (?k (1 + (?r - 1))) needed"
    by (rule expand_loop_kdf [OF hash]) (use r in auto)
  ultimately have "expandKey digest K H X sid needed = key_buffer (?k ?r) needed"
    using r(1) by (simp add: expandKey_def concat_arrays_concat Let_def)
  then show ?thesis using r(3) length_kdf [OF hash] by (simp add: key_buffer_def)
qed

subsection \<open>Properties\<close>

lemma negotiate_prefix:
  "a \<in> set ss \<Longrightarrow> set xs \<inter> set ss = {} \<Longrightarrow> negotiate (xs @ a # ys) ss category = Inr a"
  by (induction xs) auto

lemma negotiate_split:
  "negotiate cs ss category = Inr a \<Longrightarrow> \<exists>xs ys. cs = xs @ a # ys \<and> a \<in> set ss \<and> set xs \<inter> set ss = {}"
proof (induction cs)
  case (Cons c cs)
  show ?case
  proof (cases "c \<in> set ss")
    case True
    with Cons.prems show ?thesis by (intro exI [of _ "[]"] exI [of _ cs]) simp
  next
    case False
    with Cons obtain xs ys where "cs = xs @ a # ys" "a \<in> set ss" "set xs \<inter> set ss = {}" by auto
    with False show ?thesis by (intro exI [of _ "c # xs"] exI [of _ ys]) auto
  qed
qed simp

lemma negotiate_mem: "negotiate cs ss category = Inr a \<Longrightarrow> a \<in> set cs"
  by (induction cs) (auto split: if_splits)

lemma negotiate_error: "negotiate cs ss category = Inl (NoCommon category) \<longleftrightarrow> set cs \<inter> set ss = {}"
  by (induction cs) auto

lemma kexinit_lists_names: "raw_names (map utf8_encode kexinit_lists) kexinit_lists"
proof -
  have "list_all (\<lambda>s. ascii s \<and> valid_name_list s \<and> length s < 2 ^ 31) kexinit_lists"
    by (simp add: kexinit_lists_def SUPPORTED_KEX_ALGORITHMS_def KEX_ALGORITHM_CURVE25519_SHA256_def
        KEX_ALGORITHM_ECDH_NISTP256_def SUPPORTED_ENCRYPTION_ALGORITHMS_def SUPPORTED_MAC_ALGORITHMS_def
        ascii_def valid_name_list_def name_char_def Let_def)
  then show ?thesis
    by (auto simp: raw_names_def list_all2_conv_all_nth list_all_length utf8_decode_encode ascii_text_ok)
qed

lemma kexinit_build_wire:
  "KEXInitBuilder_build random = kexinit_wire (map random [0..<16]) (map utf8_encode kexinit_lists) 0 (zeros 4)"
  by (simp add: KEXInitBuilder_build_def kexinit_wire_def kexinit_parts_def concat_arrays_concat SSH_MSG_KEXINIT_def
      encodeUint32_be32 encodeString_eq kexinit_lists_def del: upt_Suc)

text \<open>C26: Our own KEXINIT, with any cookie, is parsed by our own parser to exactly the lists that
  were offered.\<close>

theorem kexinit_roundtrip:
  "parseKEXInit (KEXInitBuilder_build random) = Inr (kex_message kexinit_lists False)"
  using parseKEXInit_complete [OF kexinit_lists_names, of "map random [0..<16]" "zeros 4" 0]
  by (simp add: kexinit_build_wire kexinit_lists_def)

text \<open>C27: \<open>parseKEXInit\<close> accepts exactly the well-formed KEXINIT messages: a byte string is accepted
  with result \<open>m\<close> if and only if it is the type byte, a 16-byte cookie, ten length-prefixed lists that
  are valid UTF-8 and hold only legal algorithm names, the flag and four reserved bytes, and \<open>m\<close> holds
  the entries of the first eight lists.\<close>

theorem parseKEXInit_exact:
  "parseKEXInit data = Inr m \<longleftrightarrow>
     (\<exists>cookie raws names follows reserved. data = kexinit_wire cookie raws follows reserved
        \<and> raw_names raws names \<and> length raws = 10 \<and> length cookie = 16 \<and> length reserved = 4
        \<and> m = kex_message names (follows \<noteq> 0))"
  by (rule iffI, erule parseKEXInit_sound, elim exE conjE, simp only: parseKEXInit_complete)

text \<open>Negotiation picks the client's most preferred algorithm that the server offers, and fails
  exactly when the two lists are disjoint.\<close>

lemma negotiate_first_common:
  "(\<forall>a. negotiate clientList serverList category = Inr a \<longleftrightarrow>
      (\<exists>xs ys. clientList = xs @ a # ys \<and> a \<in> set serverList \<and> set xs \<inter> set serverList = {}))
   \<and> (negotiate clientList serverList category = Inl (NoCommon category) \<longleftrightarrow> set clientList \<inter> set serverList = {})"
  using negotiate_prefix negotiate_split negotiate_error by fast

text \<open>C28: Whatever the server offers, a negotiated cipher and MAC can be used: both have a table entry,
  the entry's IV length is the one the cipher class demands and its AEAD flag tells the two classes
  apart, and the MAC class accepts the name with the tag length of the table.\<close>

theorem negotiated_algorithms_usable:
  assumes "negotiate SUPPORTED_ENCRYPTION_ALGORITHMS serverCiphers category = Inr cipher"
    and "negotiate SUPPORTED_MAC_ALGORITHMS serverMacs category' = Inr macName"
  shows "\<exists>spec ms m. getCipherSpec cipher = Inr spec \<and> getMacSpec macName = Inr ms
    \<and> cs_blockSize spec = 16 \<and> cs_keyLength spec \<in> {16, 24, 32}
    \<and> (cs_aead spec \<longleftrightarrow> cs_mode spec = Gcm)
    \<and> (\<forall>key iv. length iv = cs_ivLength spec \<longrightarrow>
         (if cs_aead spec then (\<exists>c. new_SSHAESGCMCipher key iv = Inr (c :: bytes SSHAESGCMCipher))
          else (\<exists>c. new_SSHAESCTRCipher key iv = Inr (c :: bytes SSHAESCTRCipher))))
    \<and> new_SSHHMAC macName key = Inr (m :: bytes SSHHMAC) \<and> hmac_length m = ms_length ms"
proof -
  have "cipher \<in> set SUPPORTED_ENCRYPTION_ALGORITHMS" "macName \<in> set SUPPORTED_MAC_ALGORITHMS"
    using assms by (auto dest: negotiate_mem)
  then show ?thesis
    by (auto simp: SUPPORTED_ENCRYPTION_ALGORITHMS_def SUPPORTED_MAC_ALGORITHMS_def getCipherSpec_def getMacSpec_def
        CIPHER_SPECS_def MAC_SPECS_def new_SSHAESGCMCipher_def new_SSHAESCTRCipher_def new_SSHHMAC_def)
qed

theorem negotiated_algorithms_usable_witness:
  "\<exists>spec m. getCipherSpec ''aes192-ctr'' = Inr spec \<and> cs_blockSize spec = 16
     \<and> new_SSHHMAC ''hmac-sha2-512'' [] = Inr (m :: bytes SSHHMAC)"
proof -
  have "negotiate SUPPORTED_ENCRYPTION_ALGORITHMS [''chacha20'', ''aes192-ctr''] [] = Inr ''aes192-ctr''"
    "negotiate SUPPORTED_MAC_ALGORITHMS [''hmac-sha2-512''] [] = Inr ''hmac-sha2-512''"
    by (simp_all add: SUPPORTED_ENCRYPTION_ALGORITHMS_def SUPPORTED_MAC_ALGORITHMS_def)
  from negotiated_algorithms_usable [OF this, of "[]"] show ?thesis by blast
qed

text \<open>C29: Session keys follow RFC 4253: with a 32-byte hash, each of the six keys is the prefix of the
  requested length of \<open>K1 || K2 || ...\<close> for its letter, of any length, including lengths that are not
  multiples of the hash.\<close>

theorem deriveKeys_rfc4253:
  assumes "\<forall>d. length (digest d) = 32"
  shows "let keys = deriveKeys digest K H sid n1 n2 n3 n4 n5 n6;
             key = (\<lambda>X n. take n (kdf digest K H [X] sid ((n + 31) div 32)))
         in ivClientToServer keys = key 65 n1 \<and> ivServerToClient keys = key 66 n2
          \<and> encKeyClientToServer keys = key 67 n5 \<and> encKeyServerToClient keys = key 68 n6
          \<and> integrityKeyC2S keys = key 69 n3 \<and> integrityKeyS2C keys = key 70 n4
          \<and> sessionID keys = sid \<and> length (encKeyClientToServer keys) = n5 \<and> length (integrityKeyC2S keys) = n3"
proof -
  have "n \<le> 32 * ((n + 31) div 32)" for n :: nat by linarith
  then have "length (take n (kdf digest K H X sid ((n + 31) div 32))) = n" for n X
    by (simp add: length_kdf [OF assms])
  then show ?thesis by (simp add: deriveKeys_def expandKey_kdf [OF assms] utf8_encode_def Let_def)
qed

theorem deriveKeys_rfc4253_witness:
  "length (encKeyClientToServer (deriveKeys (\<lambda>d. zeros 32) [1] [2] [3] 12 12 64 64 40 40)) = 40"
proof -
  have "\<forall>d :: bytes. length (zeros 32) = 32" by simp
  from deriveKeys_rfc4253 [OF this] show ?thesis unfolding Let_def by blast
qed

text \<open>C30: On a well-formed EXT_INFO message \<open>parseServerSigAlgs\<close> returns the legal names of the last
  \<open>server-sig-algs\<close> extension (none if there is none), wherever it stands and whatever other
  extensions are present; undecodable names or values are rejected.\<close>

theorem parseServerSigAlgs_wellformed:
  assumes "length exts \<le> 1024" "\<forall>(raw, val) \<in> set exts. length raw < 2 ^ 31 \<and> length val < 2 ^ 31"
  shows "parseServerSigAlgs ([7] @ be32 (length exts) @ concat (map ext_entry exts)) = ext_spec exts []"
proof -
  let ?data = "[7] @ be32 (length exts) @ concat (map ext_entry exts)"
  have "length exts mod 2 ^ 32 = length exts" using assms(1) by simp
  then have "readUint32 ?data 1 = length exts"
    using readUint32_be32 [of 1 "[7]" "length exts" "concat (map ext_entry exts)"] by simp
  then have n: "int32_at ?data 1 = int (length exts)" using int32_at_nat [of ?data 1] assms(1) by simp
  have "ext_loop (length exts) (([7] @ be32 (length exts)) @ concat (map ext_entry exts)) 5 [] = ext_spec exts []"
    by (rule ext_loop_wire [OF assms(2)]) simp
  with n assms(1) show ?thesis by (simp add: parseServerSigAlgs_def Let_def)
qed

theorem parseServerSigAlgs_wellformed_witness:
  "parseServerSigAlgs ([7] @ be32 1 @ ext_entry (utf8_encode ''server-sig-algs'', utf8_encode ''rsa-sha2-512,,x y''))
     = Inr [''rsa-sha2-512'']"
proof -
  have "utf8_decode (utf8_encode ''server-sig-algs'') = Some ''server-sig-algs''"
    "utf8_decode (utf8_encode ''rsa-sha2-512,,x y'') = Some ''rsa-sha2-512,,x y''"
    by (simp_all add: utf8_decode_encode ascii_text_ok ascii_def)
  then show ?thesis
    using parseServerSigAlgs_wellformed [of "[(utf8_encode ''server-sig-algs'', utf8_encode ''rsa-sha2-512,,x y'')]"]
    by (simp add: name_char_def Let_def)
qed

text \<open>The counts and lengths of EXT_INFO are signed here: unlike \<open>parseKEXInit\<close>, \<open>parseServerSigAlgs\<close>
  has no check for negative values, so a message that announces \<open>2^32 - 1\<close> extensions and carries none
  is accepted.\<close>

lemma parseServerSigAlgs_negative_count: "parseServerSigAlgs [7, 255, 255, 255, 255] = Inr []"
proof -
  have "int32_at [7, 255, 255, 255, 255] 1 = - 1"
    using int32_at_nat [of "[7, 255, 255, 255, 255]" 1] by (simp add: readUint32_def u8_at_def be32_word_def)
  then show ?thesis by (simp add: parseServerSigAlgs_def)
qed

end
