(* ===== verification/Ssh_Exchange.thy ===== *)
theory Ssh_Exchange
  imports Ssh_Kex
begin

text \<open>
  The two key-exchange methods, \<^verbatim>\<open>worker/src/webssh/ssh/kex-curve25519.ts\<close> and
  \<^verbatim>\<open>kex-ecdh.ts\<close>, and the classification of a host key, \<^verbatim>\<open>host-key.ts\<close>. The two reply
  parsers differ in the test of the length of the server's point. \<open>derive\<close> stands for the import of the
  server's point and \<open>crypto.subtle.deriveBits\<close>, \<open>None\<close> when one of them rejects; \<open>sha256\<close> is the digest.
\<close>

datatype exchange_error =
    BadClientKeyLength nat | MalformedReply | MalformedHostKey | MalformedServerKey | MalformedSignature
  | BadServerKeyLength nat | AllZeroSecret | CryptoRejected

record exchange_reply =
  reply_hostKey :: bytes
  reply_serverKey :: bytes
  reply_signature :: bytes

fun isAllZero :: "bytes \<Rightarrow> bool" where
  "isAllZero [] = True"
| "isAllZero (b # bs) = (if b \<noteq> 0 then False else isAllZero bs)"

definition ecdh_buildInit :: "bytes \<Rightarrow> bytes" where
  "ecdh_buildInit clientRawPublicKey = concat_arrays [[30], encodeString clientRawPublicKey]"

definition curve25519_buildInit :: "bytes \<Rightarrow> (exchange_error, bytes) result" where
  "curve25519_buildInit clientRawPublicKey =
     (if length clientRawPublicKey \<noteq> 32 then Inl (BadClientKeyLength (length clientRawPublicKey))
      else Inr (concat_arrays [[30], encodeString clientRawPublicKey]))"

text \<open>The body of both parsers, over the test \<open>bad\<close> of the length of the server's point.\<close>

definition parse_reply :: "(nat \<Rightarrow> bool) \<Rightarrow> bytes \<Rightarrow> (exchange_error, exchange_reply) result" where
  "parse_reply bad data =
     (if length data < 13 \<or> u8_at data 0 \<noteq> 31 then Inl MalformedReply
      else
        let hostKeyLen = readUint32 data 1; offset = 5 in
        if hostKeyLen = 0 \<or> length data - offset < hostKeyLen then Inl MalformedHostKey
        else
          let hostKey = subarray data offset (offset + hostKeyLen); offset = offset + hostKeyLen in
          if length data < offset + 4 then Inl MalformedServerKey
          else
            let qSLen = readUint32 data offset; offset = offset + 4 in
            if bad qSLen \<or> length data - offset < qSLen then Inl MalformedServerKey
            else
              let serverKey = subarray data offset (offset + qSLen); offset = offset + qSLen in
              if length data < offset + 4 then Inl MalformedSignature
              else
                let sigLen = readUint32 data offset; offset = offset + 4 in
                if sigLen = 0 \<or> sigLen \<noteq> length data - offset then Inl MalformedSignature
                else Inr \<lparr>reply_hostKey = hostKey, reply_serverKey = serverKey,
                          reply_signature = subarray data offset (offset + sigLen)\<rparr>)"

definition curve25519_parseReply :: "bytes \<Rightarrow> (exchange_error, exchange_reply) result" where
  "curve25519_parseReply = parse_reply (\<lambda>n. n \<noteq> 32)"

definition ecdh_parseReply :: "bytes \<Rightarrow> (exchange_error, exchange_reply) result" where
  "ecdh_parseReply = parse_reply (\<lambda>n. n = 0)"

definition curve25519_computeSharedSecret ::
  "(bytes \<Rightarrow> bytes option) \<Rightarrow> bytes \<Rightarrow> (exchange_error, bytes) result" where
  "curve25519_computeSharedSecret derive serverKey =
     (if length serverKey \<noteq> 32 then Inl (BadServerKeyLength (length serverKey))
      else case derive serverKey of
             None \<Rightarrow> Inl CryptoRejected
           | Some secret \<Rightarrow>
               if isAllZero secret then Inl AllZeroSecret
               else (case x25519SecretToSSHMPInt secret of Inl _ \<Rightarrow> Inl CryptoRejected | Inr k \<Rightarrow> Inr k))"

definition ecdh_computeSharedSecret :: "(bytes \<Rightarrow> bytes option) \<Rightarrow> bytes \<Rightarrow> (exchange_error, bytes) result" where
  "ecdh_computeSharedSecret derive serverKey =
     (case derive serverKey of
        None \<Rightarrow> Inl CryptoRejected
      | Some secret \<Rightarrow> if isAllZero secret then Inl AllZeroSecret else Inr (toSSHMPInt secret))"

definition exchange_data ::
  "string \<Rightarrow> string \<Rightarrow> bytes \<Rightarrow> bytes \<Rightarrow> bytes \<Rightarrow> bytes \<Rightarrow> bytes \<Rightarrow> bytes \<Rightarrow> bytes" where
  "exchange_data clientVersion serverVersion clientKEXInit serverKEXInit hostKey clientKey serverKey sharedSecret =
     concat_arrays [encodeStringText clientVersion, encodeStringText serverVersion, encodeString clientKEXInit,
       encodeString serverKEXInit, encodeString hostKey, encodeString clientKey, encodeString serverKey, sharedSecret]"

definition computeExchangeHash ::
  "(bytes \<Rightarrow> bytes) \<Rightarrow> string \<Rightarrow> string \<Rightarrow> bytes \<Rightarrow> bytes \<Rightarrow> bytes \<Rightarrow> bytes \<Rightarrow> bytes \<Rightarrow> bytes \<Rightarrow> bytes" where
  "computeExchangeHash sha256 clientVersion serverVersion clientKEXInit serverKEXInit hostKey clientKey serverKey sharedSecret =
     sha256 (exchange_data clientVersion serverVersion clientKEXInit serverKEXInit hostKey clientKey serverKey sharedSecret)"

datatype HostKeyTrust = Trusted | FirstSeen | Changed

definition classifyHostKey :: "string option \<Rightarrow> string \<Rightarrow> HostKeyTrust" where
  "classifyHostKey expectedFingerprint fingerprint =
     (case expectedFingerprint of
        None \<Rightarrow> FirstSeen
      | Some e \<Rightarrow> if e = [] then FirstSeen else if e = fingerprint then Trusted else Changed)"

subsection \<open>The reply parsers are exact\<close>

text \<open>The layout of a reply.\<close>

definition reply_wire :: "exchange_reply \<Rightarrow> bytes" where
  "reply_wire r = [31] @ encodeString (reply_hostKey r) @ encodeString (reply_serverKey r) @ encodeString (reply_signature r)"

lemma drop_field:
  assumes "off + 4 \<le> length d" "readUint32 d off \<le> length d - (off + 4)"
  shows "drop off d = encodeString (subarray d (off + 4) (off + 4 + readUint32 d off)) @ drop (off + 4 + readUint32 d off) d"
proof -
  let ?n = "readUint32 d off"
  have "length (subarray d (off + 4) (off + 4 + ?n)) = ?n" using assms by (simp add: length_subarray)
  then show ?thesis
    using drop_subarray [of off "off + 4" d] drop_subarray [of "off + 4" "off + 4 + ?n" d] be32_readUint32 [OF assms(1)]
    by (simp add: encodeString_eq)
qed

lemma parse_reply_sound:
  assumes "parse_reply bad data = Inr r"
  shows "data = reply_wire r \<and> reply_hostKey r \<noteq> [] \<and> \<not> bad (length (reply_serverKey r)) \<and> reply_signature r \<noteq> []"
proof -
  define h where "h = readUint32 data 1"
  define o1 where "o1 = 5 + h"
  define q where "q = readUint32 data o1"
  define o2 where "o2 = o1 + 4 + q"
  define s where "s = readUint32 data o2"
  have b: "13 \<le> length data" "u8_at data 0 = 31" "h \<noteq> 0" "h \<le> length data - 5" "o1 + 4 \<le> length data" "\<not> bad q"
    "q \<le> length data - (o1 + 4)" "o2 + 4 \<le> length data" "s \<noteq> 0" "s = length data - (o2 + 4)"
    and r: "r = \<lparr>reply_hostKey = subarray data 5 (5 + h), reply_serverKey = subarray data (o1 + 4) (o1 + 4 + q),
       reply_signature = subarray data (o2 + 4) (o2 + 4 + s)\<rparr>"
    using assms unfolding parse_reply_def Let_def h_def o1_def q_def o2_def s_def by (auto split: if_splits)
  have "data \<noteq> []" using b(1) by auto
  then have "data = [31] @ drop 1 data" using b(2) by (cases data) (auto simp: u8_at_def)
  moreover have "drop 1 data = encodeString (subarray data 5 (5 + h)) @ drop o1 data"
    using drop_field [of 1 data] b unfolding h_def [symmetric] o1_def by simp
  moreover have "drop o1 data = encodeString (subarray data (o1 + 4) (o1 + 4 + q)) @ drop o2 data"
    using drop_field [of o1 data] b unfolding q_def [symmetric] o2_def by simp
  moreover have "drop o2 data = encodeString (subarray data (o2 + 4) (o2 + 4 + s))"
    using drop_field [of o2 data] b unfolding s_def [symmetric] by simp
  ultimately have "data = reply_wire r" by (simp add: reply_wire_def r)
  moreover have "length (subarray data 5 (5 + h)) = h" "length (subarray data (o1 + 4) (o1 + 4 + q)) = q"
    "length (subarray data (o2 + 4) (o2 + 4 + s)) = s" using b by (simp_all add: length_subarray)
  ultimately show ?thesis using b r by (auto simp del: length_0_conv simp flip: length_greater_0_conv)
qed

lemma parse_reply_complete:
  assumes "reply_hostKey r \<noteq> []" "\<not> bad (length (reply_serverKey r))" "reply_signature r \<noteq> []"
    "length (reply_wire r) < 2 ^ 32" "13 \<le> length (reply_wire r)"
  shows "parse_reply bad (reply_wire r) = Inr r"
proof -
  let ?h = "reply_hostKey r" and ?q = "reply_serverKey r" and ?s = "reply_signature r"
  let ?d = "[31] @ (be32 (length ?h) @ ?h) @ (be32 (length ?q) @ ?q) @ (be32 (length ?s) @ ?s)"
  have d: "reply_wire r = ?d" by (simp add: reply_wire_def encodeString_eq)
  have len: "length ?h < 2 ^ 32" "length ?q < 2 ^ 32" "length ?s < 2 ^ 32" using assms(4) by (simp_all add: d)
  have r1: "readUint32 ?d 1 = length ?h" using readUint32_be32 [of 1 "[31]"] len(1) by simp
  have r2: "readUint32 ?d (5 + length ?h) = length ?q"
    using readUint32_be32 [of "5 + length ?h" "[31] @ be32 (length ?h) @ ?h"] len(2) by simp
  have r3: "readUint32 ?d (9 + length ?h + length ?q) = length ?s"
    using readUint32_be32 [of "9 + length ?h + length ?q" "[31] @ be32 (length ?h) @ ?h @ be32 (length ?q) @ ?q"] len(3) by simp
  have s1: "subarray ?d 5 (5 + length ?h) = ?h" "subarray ?d (9 + length ?h) (9 + length ?h + length ?q) = ?q"
    "subarray ?d (13 + length ?h + length ?q) (13 + length ?h + length ?q + length ?s) = ?s"
    using subarray_append [of 5 "[31] @ be32 (length ?h)" "5 + length ?h" ?h "be32 (length ?q) @ ?q @ be32 (length ?s) @ ?s"]
      subarray_append [of "9 + length ?h" "[31] @ be32 (length ?h) @ ?h @ be32 (length ?q)" "9 + length ?h + length ?q" ?q
        "be32 (length ?s) @ ?s"]
      subarray_append [of "13 + length ?h + length ?q" "[31] @ be32 (length ?h) @ ?h @ be32 (length ?q) @ ?q @ be32 (length ?s)"
        "13 + length ?h + length ?q + length ?s" ?s "[]"]
    by simp_all
  have len_d: "length ?d = 13 + length ?h + length ?q + length ?s" by simp
  have u: "u8_at ?d 0 = 31" by (simp add: u8_at_def)
  show ?thesis
    unfolding d parse_reply_def Let_def
    using r1 r2 r3 s1 assms len_d u by (simp add: add.commute add.left_commute)
qed

lemma encodeString_append_inj:
  assumes "encodeString a @ x = encodeString b @ y" "length a < 2 ^ 32" "length b < 2 ^ 32"
  shows "a = b \<and> x = y"
proof -
  have "length a = readUint32 (encodeString a @ x) 0" "length b = readUint32 (encodeString b @ y) 0"
    using assms(2,3) by (simp_all add: encodeString_eq readUint32_be32_0)
  then have "length a = length b" using assms(1) by simp
  with assms(1) show ?thesis by (simp add: encodeString_eq)
qed

lemma utf8_encode_inj: "utf8_encode s = utf8_encode t \<Longrightarrow> s = t"
proof -
  assume "utf8_encode s = utf8_encode t"
  then have "map byte_char (utf8_encode s) = map byte_char (utf8_encode t)" by simp
  then show "s = t" by (simp add: utf8_encode_def comp_def)
qed

subsection \<open>Properties\<close>

text \<open>The reply parsers accept exactly the messages that are laid out as type, host key, server point and
  signature with nothing before, between or after, a non-empty host key and signature, and a point of 32
  bytes (Curve25519) or of any positive length (ECDH); they return these fields.\<close>

lemma exchange_reply_exact:
  assumes "length data < 2 ^ 32"
  shows "(curve25519_parseReply data = Inr r \<longleftrightarrow>
       data = reply_wire r \<and> reply_hostKey r \<noteq> [] \<and> length (reply_serverKey r) = 32 \<and> reply_signature r \<noteq> [])
    \<and> (ecdh_parseReply data = Inr r \<longleftrightarrow>
       data = reply_wire r \<and> reply_hostKey r \<noteq> [] \<and> reply_serverKey r \<noteq> [] \<and> reply_signature r \<noteq> [])"
proof -
  have c: "13 \<le> length (reply_wire r)" by (simp add: reply_wire_def)
  have "parse_reply bad data = Inr r \<longleftrightarrow>
      data = reply_wire r \<and> reply_hostKey r \<noteq> [] \<and> \<not> bad (length (reply_serverKey r)) \<and> reply_signature r \<noteq> []" for bad
    using parse_reply_sound [of bad data r] parse_reply_complete [of r bad, OF _ _ _ _ c] assms by blast
  then show ?thesis by (simp add: curve25519_parseReply_def ecdh_parseReply_def)
qed

text \<open>C39: The exchange hash binds the transcript: the data that is hashed determines both version strings, both
  KEXINIT payloads, the host key, both public points and the shared secret.\<close>

theorem exchange_data_binds_transcript:
  assumes "exchange_data vc vs ic is ks e f k = exchange_data vc' vs' ic' is' ks' e' f' k'"
    and "\<forall>b \<in> set [utf8_encode vc, utf8_encode vs, ic, is, ks, e, f, utf8_encode vc', utf8_encode vs', ic', is', ks', e', f'].
           length b < 2 ^ 32"
  shows "vc = vc' \<and> vs = vs' \<and> ic = ic' \<and> is = is' \<and> ks = ks' \<and> e = e' \<and> f = f' \<and> k = k'"
proof -
  let ?wire = "\<lambda>vc vs ic is ks e f k. encodeString vc @ encodeString vs @ encodeString ic @ encodeString is @ encodeString ks
     @ encodeString e @ encodeString f @ k"
  have eq: "?wire (utf8_encode vc) (utf8_encode vs) ic is ks e f k = ?wire (utf8_encode vc') (utf8_encode vs') ic' is' ks' e' f' k'"
    using assms(1) by (simp add: exchange_data_def concat_arrays_concat encodeStringText_def)
  have l: "length (utf8_encode vc) < 2 ^ 32" "length (utf8_encode vs) < 2 ^ 32" "length ic < 2 ^ 32" "length is < 2 ^ 32"
    "length ks < 2 ^ 32" "length e < 2 ^ 32" "length f < 2 ^ 32" "length (utf8_encode vc') < 2 ^ 32"
    "length (utf8_encode vs') < 2 ^ 32" "length ic' < 2 ^ 32" "length is' < 2 ^ 32" "length ks' < 2 ^ 32" "length e' < 2 ^ 32"
    "length f' < 2 ^ 32"
    using assms(2) by (simp_all del: length_utf8_encode)
  note s1 = encodeString_append_inj [OF eq l(1,8)]
  note s2 = encodeString_append_inj [OF conjunct2 [OF s1] l(2,9)]
  note s3 = encodeString_append_inj [OF conjunct2 [OF s2] l(3,10)]
  note s4 = encodeString_append_inj [OF conjunct2 [OF s3] l(4,11)]
  note s5 = encodeString_append_inj [OF conjunct2 [OF s4] l(5,12)]
  note s6 = encodeString_append_inj [OF conjunct2 [OF s5] l(6,13)]
  note s7 = encodeString_append_inj [OF conjunct2 [OF s6] l(7,14)]
  from s1 s2 s3 s4 s5 s6 s7 utf8_encode_inj show ?thesis by blast
qed

theorem exchange_data_binds_transcript_witness:
  "exchange_data ''a'' ''b'' [1] [2] [3] [4] [5] [6] \<noteq> exchange_data ''a'' ''b'' [1] [2] [3] [4] [5] [7]"
  using exchange_data_binds_transcript [of "''a''" "''b''" "[1]" "[2]" "[3]" "[4]" "[5]" "[6]" "''a''" "''b''" "[1]" "[2]" "[3]" "[4]" "[5]" "[7]"]
  by auto

end
