(* ===== verification/Ssh_Der.thy ===== *)
theory Ssh_Der
  imports Ssh_Utils
begin

text \<open>
  The number and DER encodings of \<^verbatim>\<open>worker/src/webssh/ssh/auth.ts\<close> (class \<open>SSHAuth\<close>, lines
  595--850): big-endian subtraction and remainder, DER integers, octet strings, sequences and lengths,
  the PKCS#1 and PKCS#8 key containers, and the conversion of ECDSA signatures to the SSH format. A
  \<open>throw\<close> is \<open>Inl\<close> with the fixed part of its message.
\<close>

datatype auth_error = AuthError string

subsection \<open>Big-endian numbers\<close>

text \<open>The loop of \<open>bigIntSubtract\<close>, for the indices below \<open>i\<close>, from the last byte to the first.\<close>

fun subtract_loop :: "bytes \<Rightarrow> bytes \<Rightarrow> nat \<Rightarrow> int \<Rightarrow> bytes \<Rightarrow> bytes" where
  "subtract_loop a b 0 borrow result = result"
| "subtract_loop a b (Suc i) borrow result =
     (let aByte = uint (u8_at a i);
          bByte = (if length a \<le> i + length b then uint (u8_at b (i + length b - length a)) else 0);
          diff = aByte - bByte - borrow
      in if diff < 0 then subtract_loop a b i 1 (result[i := word_of_int (diff + 256)])
         else subtract_loop a b i 0 (result[i := word_of_int diff]))"

definition bigIntSubtract :: "bytes \<Rightarrow> bytes \<Rightarrow> bytes" where
  "bigIntSubtract a b =
     (let result = subtract_loop a b (length a) 0 (zeros (length a))
      in drop (mpint_start result 0) result)"

text \<open>\<open>toBigInt\<close>: \<open>(value << 8n) | BigInt(byte)\<close> for each byte.\<close>

fun to_big :: "nat \<Rightarrow> bytes \<Rightarrow> nat" where
  "to_big n [] = n"
| "to_big n (b # bs) = to_big (push_bit 8 n OR unat b) bs"

definition hex_char :: "nat \<Rightarrow> char" where
  "hex_char d = char_of (if d < 10 then 48 + d else 87 + d)"

definition hex_value :: "char \<Rightarrow> nat" where
  "hex_value c = (let n = of_char c in if n \<le> 57 then n - 48 else n - 87)"

fun show_hex :: "nat \<Rightarrow> string" where
  "show_hex n = (if n < 16 then [hex_char n] else show_hex (n div 16) @ [hex_char (n mod 16)])"

declare show_hex.simps [simp del]

definition pad_start :: "nat \<Rightarrow> char \<Rightarrow> string \<Rightarrow> string" where
  "pad_start n c s = replicate (n - length s) c @ s"

fun hex_bytes :: "string \<Rightarrow> bytes" where
  "hex_bytes (a # b # rest) = word_of_nat (16 * hex_value a + hex_value b) # hex_bytes rest"
| "hex_bytes _ = []"

definition bigIntMod :: "bytes \<Rightarrow> bytes \<Rightarrow> (auth_error, bytes) result" where
  "bigIntMod a m =
     (if to_big 0 m = 0 then Inl (AuthError ''Division by zero'')
      else
        let r = to_big 0 a mod to_big 0 m;
            hex = pad_start 2 (CHR ''0'') (show_hex r);
            padded = (if length hex mod 2 \<noteq> 0 then CHR ''0'' # hex else hex)
        in Inr (hex_bytes padded))"

definition sshMPInt :: "bytes \<Rightarrow> bytes" where
  "sshMPInt value =
     (let significant = drop (mpint_start value 0) value;
          needsLeadingZero = (0 < length significant \<and> u8_at significant 0 AND 0x80 \<noteq> 0);
          data = (if needsLeadingZero then concat_arrays [[0], significant] else significant)
      in encodeString data)"

subsection \<open>DER\<close>

definition encodeDERLength :: "nat \<Rightarrow> (auth_error, bytes) result" where
  "encodeDERLength len =
     (if len < 0x80 then Inr [word_of_nat len]
      else if len < 0x100 then Inr [0x81, word_of_nat len]
      else if len < 0x10000 then Inr [0x82, word_of_nat (drop_bit 8 len AND 0xff), word_of_nat (len AND 0xff)]
      else Inl (AuthError ''DER length is out of range''))"

definition der_tlv :: "byte \<Rightarrow> bytes \<Rightarrow> (auth_error, bytes) result" where
  "der_tlv tag data = and_then (encodeDERLength (length data)) (\<lambda>len. Inr (concat_arrays [[tag], len, data]))"

definition buildDEROctetString :: "bytes \<Rightarrow> (auth_error, bytes) result" where
  "buildDEROctetString data = der_tlv 0x04 data"

definition buildDERSequence :: "bytes \<Rightarrow> (auth_error, bytes) result" where
  "buildDERSequence data = der_tlv 0x30 data"

fun strip_zero_pairs :: "bytes \<Rightarrow> bytes" where
  "strip_zero_pairs (a # b # rest) = (if a = 0 \<and> b = 0 then strip_zero_pairs (b # rest) else a # b # rest)"
| "strip_zero_pairs data = data"

definition buildDERInteger :: "bytes \<Rightarrow> (auth_error, bytes) result" where
  "buildDERInteger value =
     (let data = (if 0 < length value \<and> u8_at value 0 AND 0x80 \<noteq> 0 then concat_arrays [[0], value] else value)
      in der_tlv 0x02 (strip_zero_pairs data))"

fun der_concat :: "(auth_error, bytes) result list \<Rightarrow> (auth_error, bytes) result" where
  "der_concat [] = Inr []"
| "der_concat (r # rs) = and_then r (\<lambda>x. and_then (der_concat rs) (\<lambda>y. Inr (x @ y)))"

definition buildRSAPKCS1 :: "bytes \<Rightarrow> bytes \<Rightarrow> bytes \<Rightarrow> bytes \<Rightarrow> bytes \<Rightarrow> bytes \<Rightarrow> (auth_error, bytes) result" where
  "buildRSAPKCS1 n e d p q iqmp =
     (let pMinus1 = bigIntSubtract p [1]; qMinus1 = bigIntSubtract q [1] in
      and_then (der_concat
        [buildDERInteger [0], buildDERInteger n, buildDERInteger e, buildDERInteger d, buildDERInteger p, buildDERInteger q,
         and_then (bigIntMod d pMinus1) buildDERInteger, and_then (bigIntMod d qMinus1) buildDERInteger,
         buildDERInteger iqmp])
      buildDERSequence)"

definition buildRSAPKCS8 :: "bytes \<Rightarrow> bytes \<Rightarrow> bytes \<Rightarrow> bytes \<Rightarrow> bytes \<Rightarrow> bytes \<Rightarrow> (auth_error, bytes) result" where
  "buildRSAPKCS8 n e d p q iqmp =
     and_then (buildRSAPKCS1 n e d p q iqmp) (\<lambda>pkcs1.
       let rsaOid = [0x06, 0x09, 0x2a, 0x86, 0x48, 0x86, 0xf7, 0x0d, 0x01, 0x01, 0x01]; nullParam = [0x05, 0x00] in
       and_then (der_concat [Inr [0x02, 0x01, 0x00], buildDERSequence (concat_arrays [rsaOid, nullParam]), buildDEROctetString pkcs1])
         buildDERSequence)"

definition buildEd25519PKCS8 :: "bytes \<Rightarrow> bytes" where
  "buildEd25519PKCS8 seed =
     (let oid = [0x06, 0x03, 0x2b, 0x65, 0x70];
          seedOctet = 0x04 # word_of_nat (length seed) # seed;
          innerOctet = 0x04 # word_of_nat (length seedOctet) # seedOctet;
          algoSeq = 0x30 # word_of_nat (length oid) # oid;
          version = [0x02, 0x01, 0x00];
          totalLen = length version + length algoSeq + length innerOctet
      in 0x30 # word_of_nat totalLen # version @ algoSeq @ innerOctet)"

definition curve_oid :: "string \<Rightarrow> (auth_error, bytes) result" where
  "curve_oid namedCurve =
     (if namedCurve = ''P-256'' then Inr [0x06, 0x08, 0x2a, 0x86, 0x48, 0xce, 0x3d, 0x03, 0x01, 0x07]
      else if namedCurve = ''P-384'' then Inr [0x06, 0x05, 0x2b, 0x81, 0x04, 0x00, 0x22]
      else if namedCurve = ''P-521'' then Inr [0x06, 0x05, 0x2b, 0x81, 0x04, 0x00, 0x23]
      else Inl (AuthError ''Unsupported curve''))"

definition buildECDSAPKCS8 :: "string \<Rightarrow> bytes \<Rightarrow> (auth_error, bytes) result" where
  "buildECDSAPKCS8 namedCurve privateKey =
     and_then (curve_oid namedCurve) (\<lambda>curveOid.
     let parameters = 0xa0 # word_of_nat (length curveOid) # curveOid;
         ecOid = [0x06, 0x07, 0x2a, 0x86, 0x48, 0xce, 0x3d, 0x02, 0x01] in
     and_then (and_then (der_concat [buildDERInteger [1], buildDEROctetString privateKey, Inr parameters]) buildDERSequence) (\<lambda>ecPrivateKey.
     and_then (der_concat [buildDERInteger [0], buildDERSequence (concat_arrays [ecOid, curveOid]), buildDEROctetString ecPrivateKey])
       buildDERSequence))"

subsection \<open>ECDSA signatures\<close>

text \<open>The bytes of a long-form length, most significant first.\<close>

fun der_length_value :: "nat \<Rightarrow> bytes \<Rightarrow> nat" where
  "der_length_value n [] = n"
| "der_length_value n (b # bs) = der_length_value (n * 256 + unat b) bs"

definition readDERLength :: "bytes \<Rightarrow> nat \<Rightarrow> (auth_error, nat \<times> nat) result" where
  "readDERLength data offset =
     (if length data \<le> offset then Inl (AuthError ''Invalid DER length'')
      else
        let first = u8_at data offset; offset = offset + 1 in
        if first < 0x80 then Inr (unat first, offset)
        else
          let n = unat (first AND 0x7f) in
          if n = 0 \<or> 4 < n \<or> length data < offset + n \<or> u8_at data offset = 0 then Inl (AuthError ''Invalid DER length'')
          else
            let len = der_length_value 0 (subarray data offset (offset + n)) in
            if len < 0x80 \<or> MAX_SAFE_INTEGER < int len then Inl (AuthError ''Invalid DER length'')
            else Inr (len, offset + n))"

definition bad_der_integer :: "bytes \<Rightarrow> bool" where
  "bad_der_integer integer \<longleftrightarrow>
     u8_at integer 0 AND 0x80 \<noteq> 0 \<or> 1 < length integer \<and> u8_at integer 0 = 0 \<and> u8_at integer 1 AND 0x80 = 0"

text \<open>\<open>derSignature[offset] !== tag\<close>; past the end the read yields \<open>undefined\<close>.\<close>

definition tag_at :: "bytes \<Rightarrow> nat \<Rightarrow> byte \<Rightarrow> bool" where
  "tag_at d offset tag \<longleftrightarrow> offset < length d \<and> u8_at d offset = tag"

definition convertECDSADERToSSH :: "bytes \<Rightarrow> (auth_error, bytes) result" where
  "convertECDSADERToSSH d =
     (if length d < 8 \<or> \<not> tag_at d 0 0x30 then Inl (AuthError ''Invalid DER signature'')
      else and_then (readDERLength d 1) (\<lambda>(seqLen, offset).
      if seqLen \<noteq> length d - offset then Inl (AuthError ''Invalid DER signature length'')
      else if \<not> tag_at d offset 0x02 then Inl (AuthError ''Invalid DER signature'')
      else and_then (readDERLength d (offset + 1)) (\<lambda>(rLen, offset).
      if rLen = 0 \<or> length d - offset < rLen then Inl (AuthError ''Invalid DER signature integer'')
      else
        let r = subarray d offset (offset + rLen); offset = offset + rLen in
        if \<not> tag_at d offset 0x02 then Inl (AuthError ''Invalid DER signature'')
        else and_then (readDERLength d (offset + 1)) (\<lambda>(sLen, offset).
        if sLen = 0 \<or> sLen \<noteq> length d - offset then Inl (AuthError ''Invalid DER signature integer'')
        else
          let s = subarray d offset (offset + sLen) in
          if bad_der_integer r \<or> bad_der_integer s then Inl (AuthError ''Invalid DER signature integer encoding'')
          else Inr (concat_arrays [sshMPInt r, sshMPInt s])))))"

definition ecdsaWebCryptoToSSH :: "bytes \<Rightarrow> nat \<Rightarrow> (auth_error, bytes) result" where
  "ecdsaWebCryptoToSSH sigBytes coordBytes =
     (if length sigBytes < 2 then Inl (AuthError ''ECDSA signature is too short'')
      else if length sigBytes = coordBytes * 2
      then Inr (concat_arrays [sshMPInt (take coordBytes sigBytes), sshMPInt (drop coordBytes sigBytes)])
      else if u8_at sigBytes 0 = 0x30 then convertECDSADERToSSH sigBytes
      else Inl (AuthError ''Invalid ECDSA signature length''))"

subsection \<open>Number encodings denote numbers\<close>

lemma be_value_zeros [simp]: "be_value (zeros n) = 0"
  by (induction n) (auto simp: zeros_def)

lemma be_value_bound: "be_value bs < 256 ^ length bs"
proof (induction bs)
  case (Cons b bs)
  have "unat b * 256 ^ length bs \<le> 255 * 256 ^ length bs" using unat_byte_less [of b] by (intro mult_right_mono) auto
  with Cons have "unat b * 256 ^ length bs + be_value bs < 256 * 256 ^ length bs" by linarith
  then show ?case by simp
qed simp

lemma shift_or_byte: "push_bit 8 n OR unat (b :: byte) = n * 256 + unat b"
proof -
  have "push_bit 8 n + unat b = push_bit 8 n OR unat b"
    by (rule disjunctive_add) (auto simp: bit_simps dest: bit_imp_le_length)
  then show ?thesis by (simp add: push_bit_eq_mult)
qed

lemma to_big_eq: "to_big n bs = n * 256 ^ length bs + be_value bs"
  by (induction n bs rule: to_big.induct) (auto simp: shift_or_byte algebra_simps)

lemma der_length_value_eq: "der_length_value n bs = n * 256 ^ length bs + be_value bs"
  by (induction n bs rule: der_length_value.induct) (auto simp: algebra_simps)

lemma sshMPInt_eq: "sshMPInt value = toSSHMPInt value"
  by (simp add: sshMPInt_def toSSHMPInt_eq Let_def concat_arrays_concat encodeString_eq)

text \<open>Subtraction: after the loop has done the positions from \<open>i\<close> on, they hold the difference of the
  low parts, up to the borrow.\<close>

abbreviation ival :: "bytes \<Rightarrow> int" where
  "ival bs \<equiv> int (be_value bs)"

lemma ival_drop: "i < length xs \<Longrightarrow> ival (drop i xs) = uint (xs ! i) * 256 ^ (length xs - Suc i) + ival (drop (Suc i) xs)"
  by (simp add: Cons_nth_drop_Suc [symmetric])

lemma subtract_loop_eq:
  assumes "i \<le> length a" "length r = length a" "length b \<le> length a" "borrow = 0 \<or> borrow = 1"
    "ival (drop i r) = ival (drop i a) - ival (drop i (zeros (length a - length b) @ b)) + borrow * 256 ^ (length a - i)"
  shows "\<exists>c. (c = 0 \<or> c = 1) \<and> length (subtract_loop a b i borrow r) = length a
     \<and> ival (subtract_loop a b i borrow r) = ival a - ival b + c * 256 ^ length a"
  using assms
proof (induction i arbitrary: r borrow)
  case 0
  then show ?case by (auto simp: be_value_append)
next
  case (Suc i)
  let ?b = "zeros (length a - length b) @ b"
  let ?db = "if length a \<le> i + length b then uint (u8_at b (i + length b - length a)) else 0"
  define diff where "diff = uint (u8_at a i) - ?db - borrow"
  define nb where "nb = (if diff < 0 then 1 else 0 :: int)"
  define r' where "r' = r[i := word_of_int (diff + nb * 256)]"
  have i: "i < length a" "length ?b = length a" using Suc.prems by auto
  have bi: "uint (?b ! i) = ?db"
    using i Suc.prems(3) by (auto simp: nth_append u8_at_def zeros_def intro!: arg_cong [of _ _ "\<lambda>k. uint (b ! k)"])
  have range: "0 \<le> diff + nb * 256" "diff + nb * 256 < 256"
  proof -
    have u: "0 \<le> uint x" "uint x < 256" for x :: byte using uint_bounded [of x] by simp_all
    obtain A B where AB: "A = uint (u8_at a i)" "B = ?db" "0 \<le> A" "A < 256" "0 \<le> B" "B < 256" using u by simp
    then show "0 \<le> diff + nb * 256" "diff + nb * 256 < 256"
      using Suc.prems(4) unfolding diff_def nb_def AB(1,2) [symmetric] by auto
  qed
  have "uint (r' ! i) = diff + nb * 256"
  proof -
    have "uint (word_of_int (diff + nb * 256) :: byte) = diff + nb * 256"
      using range by (subst uint_word_of_int_eq) (simp add: take_bit_int_eq_self)
    then show ?thesis using i Suc.prems(2) by (simp add: r'_def del: of_int_add)
  qed
  moreover have "drop (Suc i) r' = drop (Suc i) r" by (simp add: r'_def)
  moreover have "length r' = length a" using Suc.prems(2) by (simp add: r'_def)
  ultimately have dr: "ival (drop i r') = (diff + nb * 256) * 256 ^ (length a - Suc i) + ival (drop (Suc i) r)"
    using ival_drop [of i r'] i by simp
  have p: "256 ^ (length a - i) = (256 :: int) * 256 ^ (length a - Suc i)"
    using i by (metis Suc_diff_Suc power_Suc)
  have da: "ival (drop i a) = uint (u8_at a i) * 256 ^ (length a - Suc i) + ival (drop (Suc i) a)"
    "ival (drop i ?b) = ?db * 256 ^ (length a - Suc i) + ival (drop (Suc i) ?b)"
    using ival_drop [of i a] ival_drop [of i ?b] i bi by (simp_all add: u8_at_def)
  have inv: "ival (drop i r') = ival (drop i a) - ival (drop i ?b) + nb * 256 ^ (length a - i)"
    unfolding dr da p Suc.prems(5) diff_def by (simp add: algebra_simps)
  have step: "subtract_loop a b (Suc i) borrow r = subtract_loop a b i nb r'"
    by (simp add: Let_def diff_def nb_def r'_def)
  show ?case unfolding step
    by (rule Suc.IH) (use Suc.prems inv i in \<open>auto simp: r'_def nb_def\<close>)
qed

lemma bigIntSubtract_value:
  assumes "length b \<le> length a" "be_value b \<le> be_value a"
  shows "be_value (bigIntSubtract a b) = be_value a - be_value b"
proof -
  let ?r = "subtract_loop a b (length a) 0 (zeros (length a))"
  obtain c where c: "c = 0 \<or> c = 1" "length ?r = length a" "ival ?r = ival a - ival b + c * 256 ^ length a"
    using subtract_loop_eq [of "length a" a "zeros (length a)" b 0] assms(1) by auto
  have "ival ?r < 256 ^ length a" using be_value_bound [of ?r] c(2) by (metis of_nat_less_iff of_nat_numeral of_nat_power)
  with c assms(2) have "ival ?r = ival a - ival b" by auto
  then show ?thesis using be_value_drop_mpint_start [of 0 ?r] by (simp add: bigIntSubtract_def Let_def)
qed

text \<open>Remainder: hexadecimal printing and pairing of the digits give the bytes of the number.\<close>

definition hex_digit :: "char \<Rightarrow> bool" where
  "hex_digit c \<longleftrightarrow> (\<exists>d < 16. c = hex_char d)"

fun hex_number :: "string \<Rightarrow> nat" where
  "hex_number [] = 0"
| "hex_number (c # cs) = hex_value c * 16 ^ length cs + hex_number cs"

lemma hex_value_char: "d < 16 \<Longrightarrow> hex_value (hex_char d) = d"
  by (auto simp: hex_value_def hex_char_def of_char_of)

lemma hex_number_append: "hex_number (xs @ ys) = hex_number xs * 16 ^ length ys + hex_number ys"
  by (induction xs) (auto simp: algebra_simps power_add)

lemma show_hex_number: "hex_number (show_hex n) = n \<and> list_all hex_digit (show_hex n) \<and> show_hex n \<noteq> []"
proof (induction n rule: show_hex.induct)
  case (1 n)
  show ?case
  proof (cases "n < 16")
    case True
    then show ?thesis by (subst (1 2 3) show_hex.simps) (auto simp: hex_value_char hex_digit_def)
  next
    case False
    moreover have "hex_digit (hex_char (n mod 16))" unfolding hex_digit_def by (rule exI [of _ "n mod 16"]) simp
    ultimately show ?thesis
      using 1 by (subst (1 2 3) show_hex.simps) (auto simp: hex_number_append hex_value_char)
  qed
qed

lemma hex_value_less: "hex_digit c \<Longrightarrow> hex_value c < 16"
  by (auto simp: hex_digit_def hex_value_char)

lemma hex_bytes_value: "even (length s) \<Longrightarrow> list_all hex_digit s \<Longrightarrow> be_value (hex_bytes s) = hex_number s \<and> 2 * length (hex_bytes s) = length s"
proof (induction s rule: hex_bytes.induct)
  case (1 a b rest)
  then have lt: "16 * hex_value a + hex_value b < 256" using hex_value_less [of a] hex_value_less [of b] by simp
  have u: "unat (word_of_nat (16 * hex_value a + hex_value b) :: byte) = 16 * hex_value a + hex_value b"
    using lt by (subst unat_of_nat) simp
  have IH: "be_value (hex_bytes rest) = hex_number rest" "length rest = 2 * length (hex_bytes rest)" using 1 by auto
  have "be_value (hex_bytes (a # b # rest)) = (16 * hex_value a + hex_value b) * 256 ^ length (hex_bytes rest) + hex_number rest"
    using u IH(1) by (simp del: of_nat_add of_nat_mult)
  also have "(256 :: nat) ^ length (hex_bytes rest) = 16 ^ length rest" unfolding IH(2) power_mult by simp
  finally show ?case using IH by (simp add: algebra_simps)
qed auto

lemma show_hex_lower: "length (show_hex n) = 1 \<or> 16 ^ (length (show_hex n) - 1) \<le> n"
proof (induction n rule: show_hex.induct)
  case (1 n)
  show ?case
  proof (cases "n < 16")
    case True
    then show ?thesis by (simp add: show_hex.simps [of n])
  next
    case False
    then have "16 ^ (length (show_hex (n div 16)) - 1) \<le> n div 16" using 1 by auto
    then have "16 * 16 ^ (length (show_hex (n div 16)) - 1) \<le> n" by linarith
    moreover have "length (show_hex (n div 16)) = Suc (length (show_hex (n div 16)) - 1)"
      using show_hex_number [of "n div 16"] by (cases "show_hex (n div 16)") auto
    ultimately have "16 ^ length (show_hex (n div 16)) \<le> n" by (metis power_Suc)
    with False show ?thesis by (simp add: show_hex.simps [of n])
  qed
qed

text \<open>Big-endian numbers without superfluous leading zero bytes.\<close>

definition canonical :: "bytes \<Rightarrow> bool" where
  "canonical v \<longleftrightarrow> v \<noteq> [] \<and> (length v = 1 \<or> hd v \<noteq> 0)"

lemma canonical_lower: "canonical v \<Longrightarrow> length v = 1 \<or> 256 ^ (length v - 1) \<le> be_value v"
proof -
  assume c: "canonical v"
  then obtain b bs where v: "v = b # bs" by (cases v) (auto simp: canonical_def)
  show ?thesis
  proof (cases "bs = []")
    case False
    with c v have "b \<noteq> 0" by (auto simp: canonical_def)
    then have "1 \<le> unat b" by (simp add: Suc_le_eq unat_gt_0)
    then have "1 * 256 ^ length bs \<le> unat b * 256 ^ length bs" by (rule mult_le_mono1)
    then have "256 ^ length bs \<le> unat b * 256 ^ length bs + be_value bs" by linarith
    with v show ?thesis by simp
  qed (simp add: v)
qed

lemma canonical_length: "canonical v \<Longrightarrow> be_value v < 256 ^ n \<Longrightarrow> 0 < n \<Longrightarrow> length v \<le> n"
proof (rule ccontr)
  assume "canonical v" "be_value v < 256 ^ n" "0 < n" "\<not> length v \<le> n"
  then have "256 ^ (length v - 1) \<le> be_value v" using canonical_lower [of v] by auto
  then have "256 ^ (length v - 1) < (256 :: nat) ^ n" using \<open>be_value v < 256 ^ n\<close> by (rule le_less_trans)
  then have "length v - 1 < n" by (rule power_less_imp_less_exp [rotated]) simp
  with \<open>\<not> length v \<le> n\<close> show False by simp
qed

lemma bigIntMod_value:
  assumes "be_value m \<noteq> 0"
  shows "\<exists>r. bigIntMod a m = Inr r \<and> be_value r = be_value a mod be_value m \<and> canonical r \<and> length r \<le> length m"
proof -
  let ?n = "be_value a mod be_value m"
  define hex where "hex = pad_start 2 (CHR ''0'') (show_hex ?n)"
  define padded where "padded = (if length hex mod 2 \<noteq> 0 then CHR ''0'' # hex else hex)"
  have z: "hex_char 0 = CHR ''0''" by (simp add: hex_char_def) code_simp
  have z': "hex_value (CHR ''0'') = 0" "hex_digit (CHR ''0'')" using hex_value_char [of 0] z by (auto simp: hex_digit_def intro: exI [of _ 0])
  have pad: "hex_number (replicate k (CHR ''0'') @ s) = hex_number s" "list_all hex_digit (replicate k (CHR ''0''))" for k s
    using z' by (induction k) auto
  note sh = show_hex_number [of ?n]
  have "even (length padded)" unfolding padded_def by (auto simp: even_iff_mod_2_eq_zero mod_Suc)
  moreover have "hex_number padded = ?n" "list_all hex_digit padded" "padded \<noteq> []"
    using sh z' pad by (auto simp: padded_def hex_def pad_start_def)
  ultimately have "even (length padded)" "hex_number padded = ?n" "list_all hex_digit padded" "padded \<noteq> []" .
  with hex_bytes_value [of padded] have "be_value (hex_bytes padded) = ?n" "hex_bytes padded \<noteq> []" by auto
  moreover have canon: "canonical (hex_bytes padded)"
  proof (cases "length (hex_bytes padded) = 1")
    case True
    then show ?thesis by (auto simp: canonical_def)
  next
    case False
    have lp: "length padded = 2 * length (hex_bytes padded)" "4 \<le> length padded"
      using hex_bytes_value [of padded] \<open>even (length padded)\<close> \<open>list_all hex_digit padded\<close> False \<open>hex_bytes padded \<noteq> []\<close>
      by (auto simp: Suc_le_eq) (cases "hex_bytes padded"; cases "tl (hex_bytes padded)"; simp)
    have "length hex = max 2 (length (show_hex ?n))" "length padded \<le> length hex + 1"
      by (auto simp: padded_def hex_def pad_start_def)
    with lp(2) have "length padded - 2 \<le> length (show_hex ?n) - 1" "length (show_hex ?n) \<noteq> 1" by auto
    then have "16 ^ (length padded - 2) \<le> (16 :: nat) ^ (length (show_hex ?n) - 1)" by (intro power_increasing) auto
    with show_hex_lower [of ?n] \<open>length (show_hex ?n) \<noteq> 1\<close> have "16 ^ (length padded - 2) \<le> ?n" by linarith
    moreover have "length padded - 2 = 2 * (length (hex_bytes padded) - 1)" using lp by simp
    ultimately have "256 ^ (length (hex_bytes padded) - 1) \<le> be_value (hex_bytes padded)"
      using \<open>be_value (hex_bytes padded) = ?n\<close> by (simp add: power_mult)
    moreover have "be_value (hex_bytes padded) < 256 ^ (length (hex_bytes padded) - 1)" if "hd (hex_bytes padded) = 0"
      using that be_value_bound [of "tl (hex_bytes padded)"] \<open>hex_bytes padded \<noteq> []\<close> by (cases "hex_bytes padded") auto
    ultimately show ?thesis using \<open>hex_bytes padded \<noteq> []\<close> by (auto simp: canonical_def)
  qed
  moreover have "length (hex_bytes padded) \<le> length m"
  proof (rule canonical_length [OF canon])
    have "?n < be_value m" using assms by simp
    then show "be_value (hex_bytes padded) < 256 ^ length m" using be_value_bound [of m] \<open>be_value (hex_bytes padded) = ?n\<close> by simp
    show "0 < length m" using assms by (cases m) auto
  qed
  moreover have "bigIntMod a m = Inr (hex_bytes padded)"
    using assms unfolding bigIntMod_def Let_def padded_def hex_def by (simp add: to_big_eq)
  ultimately show ?thesis by blast
qed

subsection \<open>DER encodings are unambiguous\<close>

text \<open>The reference form of a length: X.690, definite, shortest.\<close>

definition der_len :: "nat \<Rightarrow> bytes" where
  "der_len n = (if n < 128 then [word_of_nat n] else if n < 256 then [0x81, word_of_nat n]
                else [0x82, word_of_nat (n div 256), word_of_nat n])"

definition tlv :: "byte \<Rightarrow> bytes \<Rightarrow> bytes" where
  "tlv tag body = tag # der_len (length body) @ body"

lemma encodeDERLength_eq: "encodeDERLength n = (if n < 2 ^ 16 then Inr (der_len n) else Inl (AuthError ''DER length is out of range''))"
proof -
  have m: "(0xff :: nat) = mask 8" by (simp add: mask_eq_exp_minus_1)
  have "n AND 0xff = n mod 256" unfolding m take_bit_eq_mask [symmetric] by (simp add: take_bit_eq_mod)
  moreover have "drop_bit 8 n AND 0xff = n div 256 mod 256"
    unfolding m take_bit_eq_mask [symmetric] by (simp add: drop_bit_eq_div take_bit_eq_mod)
  ultimately show ?thesis by (auto simp: encodeDERLength_def der_len_def)
qed

lemma der_tlv_eq: "der_tlv tag data = (if length data < 2 ^ 16 then Inr (tlv tag data) else Inl (AuthError ''DER length is out of range''))"
  by (auto simp: der_tlv_def encodeDERLength_eq tlv_def concat_arrays_concat)

lemma readDERLength_der_len:
  assumes "n < 2 ^ 16" "off = length pre"
  shows "readDERLength (pre @ der_len n @ rest) off = Inr (n, off + length (der_len n))"
proof -
  consider "n < 128" | "128 \<le> n" "n < 256" | "256 \<le> n" by linarith
  then show ?thesis
  proof cases
    case 1
    then have "unat (word_of_nat n :: byte) = n" by (subst unat_of_nat) simp
    moreover from this have "(word_of_nat n :: byte) < 0x80" using 1 by (simp add: word_less_nat_alt)
    ultimately show ?thesis using 1 assms by (simp add: readDERLength_def der_len_def u8_at_def nth_append)
  next
    case 2
    then have u: "unat (word_of_nat n :: byte) = n" by (subst unat_of_nat) simp
    then have "(word_of_nat n :: byte) \<noteq> 0" using 2 by auto
    then show ?thesis using 2 assms u
      by (simp add: readDERLength_def der_len_def u8_at_def nth_append subarray_def MAX_SAFE_INTEGER_def Let_def)
  next
    case 3
    have u: "unat (word_of_nat n :: byte) = n mod 256" by (subst unat_of_nat) simp
    have u': "unat (word_of_nat (n div 256) :: byte) = n div 256" using assms by (subst unat_of_nat) simp
    then have "(word_of_nat (n div 256) :: byte) \<noteq> 0" using 3 by (metis div_greater_zero_iff not_less_eq numeral_eq_Suc unat_0 not_less0 zero_less_numeral)
    then show ?thesis using 3 assms u u'
      by (simp add: readDERLength_def der_len_def u8_at_def nth_append subarray_def MAX_SAFE_INTEGER_def Let_def)
  qed
qed

definition der_int :: "bytes \<Rightarrow> bool" where
  "der_int b \<longleftrightarrow> b \<noteq> [] \<and> \<not> bad_der_integer b"

lemma length_tlv: "length (tlv tag body) \<le> length body + 4"
  by (simp add: tlv_def der_len_def)

lemma strip_zero_pairs_canonical: "v = [] \<or> tl v = [] \<or> hd v \<noteq> 0 \<or> hd (tl v) \<noteq> 0 \<Longrightarrow> strip_zero_pairs v = v"
  by (cases v rule: strip_zero_pairs.cases) auto

lemma buildDERInteger_canonical:
  assumes "canonical v" "length v < 2 ^ 16 - 1"
  shows "\<exists>b. buildDERInteger v = Inr (tlv 0x02 b) \<and> be_value b = be_value v \<and> der_int b \<and> length b \<le> length v + 1"
proof -
  obtain x xs where v: "v = x # xs" "xs = [] \<or> x \<noteq> 0" using assms(1) by (cases v) (auto simp: canonical_def)
  let ?b = "if x AND 0x80 \<noteq> 0 then 0 # v else v"
  have "x AND 0x80 \<noteq> 0 \<Longrightarrow> x \<noteq> 0" by auto
  then have "strip_zero_pairs ?b = ?b" using v by (intro strip_zero_pairs_canonical) auto
  then have "buildDERInteger v = der_tlv 0x02 ?b"
    unfolding buildDERInteger_def Let_def concat_arrays_concat using v(1) by (cases "x AND 0x80 = 0") (simp_all add: u8_at_def)
  then have "buildDERInteger v = Inr (tlv 0x02 ?b)" using assms(2) by (simp add: der_tlv_eq)
  moreover have "be_value ?b = be_value v" "length ?b \<le> length v + 1" by simp_all
  moreover have "der_int ?b" using v by (auto simp: der_int_def bad_der_integer_def u8_at_def)
  ultimately show ?thesis by blast
qed

lemma der_concat_Inr: "der_concat (map Inr xs) = Inr (concat xs)"
  by (induction xs) auto

lemma canonical_single [simp]: "canonical [x]"
  by (simp add: canonical_def)

lemma pred_value:
  assumes "canonical p" "1 < be_value p"
  shows "be_value (bigIntSubtract p [1]) = be_value p - 1" "length (bigIntSubtract p [1]) \<le> length p"
proof -
  have "p \<noteq> []" using assms(1) by (simp add: canonical_def)
  then have "Suc 0 \<le> length p" by (simp add: Suc_le_eq)
  then show "be_value (bigIntSubtract p [1]) = be_value p - 1"
    using bigIntSubtract_value [of "[1]" p] assms(2) by simp
  have "length (subtract_loop p [1] i b r) = length r" for i b r
    by (induction i arbitrary: b r) (auto simp: Let_def)
  then show "length (bigIntSubtract p [1]) \<le> length p" by (simp add: bigIntSubtract_def Let_def)
qed

lemma crt_exponent:
  assumes "canonical p" "1 < be_value p" "length p < 2 ^ 16 - 1"
  shows "\<exists>b. and_then (bigIntMod d (bigIntSubtract p [1])) buildDERInteger = Inr (tlv 0x02 b)
     \<and> be_value b = be_value d mod (be_value p - 1) \<and> der_int b \<and> length b \<le> length p + 1"
proof -
  note pv = pred_value [OF assms(1,2)]
  obtain r where r: "bigIntMod d (bigIntSubtract p [1]) = Inr r" "be_value r = be_value d mod (be_value p - 1)"
    "canonical r" "length r \<le> length p"
    using bigIntMod_value [of "bigIntSubtract p [1]" d] pv assms(2) by fastforce
  with buildDERInteger_canonical [OF r(3)] assms(3) show ?thesis by fastforce
qed

lemma be_value_inj: "length a = length b \<Longrightarrow> be_value a = be_value b \<Longrightarrow> a = b"
proof (induction a b rule: list_induct2)
  case (Cons x xs y ys)
  let ?P = "256 ^ length xs :: nat"
  have b: "be_value xs < ?P" "be_value ys < ?P" using be_value_bound [of xs] be_value_bound [of ys] Cons.hyps by auto
  have "unat x * ?P + be_value xs = unat y * ?P + be_value ys" using Cons by simp
  then have "(unat x * ?P + be_value xs) div ?P = (unat y * ?P + be_value ys) div ?P" by simp
  then have "unat x = unat y" using b by simp
  then have "x = y" by (rule unsigned_word_eqI)
  with Cons show ?case by simp
qed simp

lemma canonical_unique:
  assumes "canonical a" "canonical b" "be_value a = be_value b"
  shows "a = b"
proof -
  have "0 < length a" "0 < length b" using assms(1,2) by (auto simp: canonical_def)
  with canonical_length [OF assms(1), of "length b"] canonical_length [OF assms(2), of "length a"]
    be_value_bound [of a] be_value_bound [of b] assms(3)
  show ?thesis by (intro be_value_inj) auto
qed

lemma canonical_mpint_start:
  assumes "v \<noteq> []"
  shows "canonical (drop (mpint_start v 0) v)"
proof -
  have "mpint_start v 0 < length v" using mpint_start_bound [of v 0] assms by simp
  moreover have "length (drop (mpint_start v 0) v) \<le> 1 \<or> u8_at (drop (mpint_start v 0) v) 0 \<noteq> 0"
    using mpint_start_minimal [of v 0] by (simp add: Let_def)
  ultimately show ?thesis by (auto simp: canonical_def u8_at_def hd_drop_conv_nth split: if_splits)
qed

lemma toSSHMPInt_cong:
  assumes "a \<noteq> []" "b \<noteq> []" "be_value a = be_value b"
  shows "toSSHMPInt a = toSSHMPInt b"
proof -
  have "drop (mpint_start a 0) a = drop (mpint_start b 0) b"
    using assms be_value_drop_mpint_start [of 0 a] be_value_drop_mpint_start [of 0 b]
    by (intro canonical_unique canonical_mpint_start) simp_all
  then show ?thesis unfolding toSSHMPInt_eq by (rule arg_cong)
qed

subsection \<open>Properties\<close>

text \<open>C34: The PKCS#1 container of an RSA key is a DER sequence of nine minimally encoded integers: the
  version 0, the modulus, the exponents, the primes, the private exponent reduced modulo \<open>p - 1\<close> and
  \<open>q - 1\<close>, and the coefficient. The container is produced for every key of realistic size.\<close>

theorem rsa_pkcs1_container:
  assumes "canonical n" "canonical e" "canonical d" "canonical p" "canonical q" "canonical iqmp"
    "1 < be_value p" "1 < be_value q"
    "length n + length e + length d + 2 * length p + 2 * length q + length iqmp < 65000"
  shows "\<exists>ints. buildRSAPKCS1 n e d p q iqmp = Inr (tlv 0x30 (concat (map (tlv 0x02) ints)))
     \<and> map be_value ints = [0, be_value n, be_value e, be_value d, be_value p, be_value q,
         be_value d mod (be_value p - 1), be_value d mod (be_value q - 1), be_value iqmp]
     \<and> list_all der_int ints"
proof -
  have z: "canonical [0]" by simp
  obtain b0 where b0: "buildDERInteger [0] = Inr (tlv 2 b0)" "be_value b0 = 0" "der_int b0" "length b0 \<le> 2"
    using buildDERInteger_canonical [OF z] by auto
  obtain bn where bn: "buildDERInteger n = Inr (tlv 2 bn)" "be_value bn = be_value n" "der_int bn" "length bn \<le> length n + 1"
    using buildDERInteger_canonical [OF assms(1)] assms(9) by auto
  obtain be where be: "buildDERInteger e = Inr (tlv 2 be)" "be_value be = be_value e" "der_int be" "length be \<le> length e + 1"
    using buildDERInteger_canonical [OF assms(2)] assms(9) by auto
  obtain bd where bd: "buildDERInteger d = Inr (tlv 2 bd)" "be_value bd = be_value d" "der_int bd" "length bd \<le> length d + 1"
    using buildDERInteger_canonical [OF assms(3)] assms(9) by auto
  obtain bp where bp: "buildDERInteger p = Inr (tlv 2 bp)" "be_value bp = be_value p" "der_int bp" "length bp \<le> length p + 1"
    using buildDERInteger_canonical [OF assms(4)] assms(9) by auto
  obtain bq where bq: "buildDERInteger q = Inr (tlv 2 bq)" "be_value bq = be_value q" "der_int bq" "length bq \<le> length q + 1"
    using buildDERInteger_canonical [OF assms(5)] assms(9) by auto
  obtain bi where bi: "buildDERInteger iqmp = Inr (tlv 2 bi)" "be_value bi = be_value iqmp" "der_int bi" "length bi \<le> length iqmp + 1"
    using buildDERInteger_canonical [OF assms(6)] assms(9) by auto
  obtain b1 where b1: "and_then (bigIntMod d (bigIntSubtract p [1])) buildDERInteger = Inr (tlv 2 b1)"
    "be_value b1 = be_value d mod (be_value p - 1)" "der_int b1" "length b1 \<le> length p + 1"
    using crt_exponent [OF assms(4,7)] assms(9) by fastforce
  obtain b2 where b2: "and_then (bigIntMod d (bigIntSubtract q [1])) buildDERInteger = Inr (tlv 2 b2)"
    "be_value b2 = be_value d mod (be_value q - 1)" "der_int b2" "length b2 \<le> length q + 1"
    using crt_exponent [OF assms(5,8)] assms(9) by fastforce
  let ?ints = "[b0, bn, be, bd, bp, bq, b1, b2, bi]"
  have c: "der_concat (map Inr (map (tlv 2) ?ints)) = Inr (concat (map (tlv 2) ?ints))" by (rule der_concat_Inr)
  have "length (concat (map (tlv 2) ?ints)) < 2 ^ 16"
    using length_tlv [of 2 b0] length_tlv [of 2 bn] length_tlv [of 2 be] length_tlv [of 2 bd] length_tlv [of 2 bp]
      length_tlv [of 2 bq] length_tlv [of 2 b1] length_tlv [of 2 b2] length_tlv [of 2 bi]
      b0(4) bn(4) be(4) bd(4) bp(4) bq(4) b1(4) b2(4) bi(4) assms(9) by simp
  with c have "buildRSAPKCS1 n e d p q iqmp = Inr (tlv 0x30 (concat (map (tlv 2) ?ints)))"
    unfolding buildRSAPKCS1_def Let_def b0(1) bn(1) be(1) bd(1) bp(1) bq(1) bi(1) b1(1) b2(1)
    by (simp add: buildDERSequence_def der_tlv_eq del: der_concat.simps)
  then show ?thesis
    by (intro exI [of _ ?ints]) (simp add: b0 bn be bd bp bq bi b1 b2)
qed

theorem rsa_pkcs1_container_witness:
  "\<exists>ints. buildRSAPKCS1 [0x0F] [3] [3] [5] [3] [2] = Inr (tlv 0x30 (concat (map (tlv 0x02) ints)))
     \<and> map be_value ints = [0, 15, 3, 3, 5, 3, 3, 1, 2]"
  using rsa_pkcs1_container [of "[0x0F]" "[3]" "[3]" "[5]" "[3]" "[2]"] by auto

text \<open>C35: A signature in DER form and the same signature in the fixed-width form that Web Crypto returns
  convert to the same SSH signature, two \<open>mpint\<close> fields, when the DER form does not happen to have the length
  of the fixed-width form.\<close>

theorem ecdsa_signature_forms_agree:
  assumes "length r = w" "length s = w" "0 < w" "der_int rd" "der_int sd" "be_value rd = be_value r" "be_value sd = be_value s"
    "der = tlv 0x30 (tlv 0x02 rd @ tlv 0x02 sd)" "length rd + length sd < 60000" "length der \<noteq> 2 * w"
  shows "ecdsaWebCryptoToSSH der w = ecdsaWebCryptoToSSH (r @ s) w
     \<and> ecdsaWebCryptoToSSH (r @ s) w = Inr (toSSHMPInt r @ toSSHMPInt s)"
proof -
  let ?rt = "tlv 2 rd" and ?st = "tlv 2 sd"
  let ?L = "length (?rt @ ?st)"
  have L: "?L < 2 ^ 16" "length rd < 2 ^ 16" "length sd < 2 ^ 16" using length_tlv [of 2 rd] length_tlv [of 2 sd] assms(9) by auto
  have pos: "0 < length rd" "0 < length sd" using assms(4,5) by (auto simp: der_int_def)
  define o1 where "o1 = 1 + length (der_len ?L)"
  define o2 where "o2 = o1 + 1 + length (der_len (length rd))"
  define o3 where "o3 = o2 + length rd"
  define o4 where "o4 = o3 + 1 + length (der_len (length sd))"
  have len: "length der = o4 + length sd" by (simp add: assms(8) tlv_def o1_def o2_def o3_def o4_def)
  have e1: "der = [0x30] @ der_len ?L @ ?rt @ ?st" by (simp add: assms(8) tlv_def)
  have e2: "der = ([0x30] @ der_len ?L @ [2]) @ der_len (length rd) @ rd @ ?st" by (simp add: assms(8) tlv_def)
  have e3: "der = ([0x30] @ der_len ?L @ [2] @ der_len (length rd) @ rd @ [2]) @ der_len (length sd) @ sd" by (simp add: assms(8) tlv_def)
  have r1: "readDERLength der 1 = Inr (?L, o1)" unfolding e1 by (subst readDERLength_der_len [OF L(1)]) (simp_all add: o1_def)
  have r2: "readDERLength der (o1 + 1) = Inr (length rd, o2)"
    unfolding e2 by (subst readDERLength_der_len [OF L(2)]) (simp_all add: o1_def o2_def)
  have r3: "readDERLength der (o3 + 1) = Inr (length sd, o4)"
    using readDERLength_der_len [OF L(3), of "o3 + 1" "[0x30] @ der_len ?L @ [2] @ der_len (length rd) @ rd @ [2]" sd]
    unfolding e3 by (simp add: o1_def o2_def o3_def o4_def)
  have tags: "tag_at der 0 0x30" "tag_at der o1 2" "tag_at der o3 2"
  proof -
    show "tag_at der 0 0x30" by (simp add: tag_at_def e1 u8_at_def)
    show "tag_at der o1 2" unfolding e2 by (simp add: tag_at_def u8_at_def o1_def nth_append)
    show "tag_at der o3 2" unfolding e3 by (simp add: tag_at_def u8_at_def o1_def o2_def o3_def nth_append)
  qed
  have sub: "subarray der o2 (o2 + length rd) = rd" "subarray der o4 (o4 + length sd) = sd"
  proof -
    show "subarray der o2 (o2 + length rd) = rd" unfolding e2 by (simp add: subarray_def o1_def o2_def)
    show "subarray der o4 (o4 + length sd) = sd" unfolding e3 by (simp add: subarray_def o1_def o2_def o3_def o4_def)
  qed
  have L': "?L = length der - o1" by (simp add: assms(8) tlv_def o1_def)
  have "1 \<le> length (der_len k)" for k by (simp add: der_len_def)
  from this [of ?L] this [of "length rd"] this [of "length sd"] pos have "8 \<le> length der"
    unfolding len o1_def o2_def o3_def o4_def by linarith
  moreover have ge: "length rd \<le> o4 + length sd - o2" by (simp add: o3_def o4_def)
  ultimately have conv: "convertECDSADERToSSH der = Inr (toSSHMPInt rd @ toSSHMPInt sd)"
    using pos assms(4,5) r1 r2 r3 tags sub len L' ge
    by (simp add: convertECDSADERToSSH_def o3_def der_int_def sshMPInt_eq concat_arrays_concat)
  have mp: "toSSHMPInt rd = toSSHMPInt r" "toSSHMPInt sd = toSSHMPInt s"
    using assms(1-7) by (auto intro!: toSSHMPInt_cong simp: der_int_def)
  have "ecdsaWebCryptoToSSH der w = Inr (toSSHMPInt r @ toSSHMPInt s)"
    using conv mp \<open>8 \<le> length der\<close> assms(10) tags(1) by (simp add: ecdsaWebCryptoToSSH_def tag_at_def mult.commute)
  moreover have "ecdsaWebCryptoToSSH (r @ s) w = Inr (toSSHMPInt r @ toSSHMPInt s)"
    using assms(1-3) by (simp add: ecdsaWebCryptoToSSH_def sshMPInt_eq concat_arrays_concat)
  ultimately show ?thesis by simp
qed

theorem ecdsa_signature_forms_agree_witness:
  "ecdsaWebCryptoToSSH [0x30, 7, 2, 2, 0, 0x80, 2, 1, 5] 2 = ecdsaWebCryptoToSSH ([0, 0x80] @ [0, 5]) 2"
  using ecdsa_signature_forms_agree [of "[0, 0x80]" 2 "[0, 5]" "[0, 0x80]" "[5]" "[0x30, 7, 2, 2, 0, 0x80, 2, 1, 5]"]
  by (simp add: der_int_def bad_der_integer_def u8_at_def tlv_def der_len_def)

end
