(* ===== verification/Ssh_Password.thy ===== *)
theory Ssh_Password
  imports Ssh_Utils Js_Text
begin

text \<open>
  Password and keyboard-interactive authentication, \<^verbatim>\<open>worker/src/webssh/ssh/auth-password.ts\<close>:
  the request builders, the challenge parser, and the rule that decides whether the stored password may
  answer a prompt. \<open>lower\<close> is \<open>String.prototype.toLowerCase\<close>, whose Unicode tables are not modelled.
  The module's own \<open>concat\<close>, \<open>encodeString\<close> and \<open>readUint32\<close> repeat those of \<open>utils.ts\<close>; its
  \<open>readUint32\<close> checks the bound first.
\<close>

datatype password_error =
    MalformedChallenge | MalformedText | MalformedMessageType | TooManyPrompts | MalformedPrompt | TrailingData
  | UnsupportedPrompt nat

record KeyboardInteractivePrompt =
  prompt_text :: string
  prompt_echo :: bool

record KeyboardInteractiveChallenge =
  challenge_name :: string
  challenge_instruction :: string
  challenge_language :: string
  challenge_prompts :: "KeyboardInteractivePrompt list"

record PasswordPromptIdentity =
  id_username :: string
  id_host :: string

definition MAX_KEYBOARD_INTERACTIVE_PROMPTS :: nat where "MAX_KEYBOARD_INTERACTIVE_PROMPTS = 16"

definition readUint32_checked :: "bytes \<Rightarrow> nat \<Rightarrow> (password_error, nat) result" where
  "readUint32_checked data offset =
     (if length data < offset + 4 then Inl MalformedChallenge else Inr (readUint32 data offset))"

definition readText :: "bytes \<Rightarrow> nat \<Rightarrow> (password_error, string \<times> nat) result" where
  "readText data offset =
     and_then (readUint32_checked data offset) (\<lambda>len.
       let start = offset + 4 in
       if length data - start < len then Inl MalformedChallenge
       else case utf8_decode (subarray data start (start + len)) of
              Some value \<Rightarrow> Inr (value, start + len)
            | None \<Rightarrow> Inl MalformedText)"

definition buildPasswordAuthRequest :: "string \<Rightarrow> string \<Rightarrow> bytes" where
  "buildPasswordAuthRequest username password =
     concat_arrays [[50], encodeStringText username, encodeStringText ''ssh-connection'', encodeStringText ''password'',
       [0], encodeStringText password]"

definition buildKeyboardInteractiveAuthRequest :: "string \<Rightarrow> bytes" where
  "buildKeyboardInteractiveAuthRequest username =
     concat_arrays [[50], encodeStringText username, encodeStringText ''ssh-connection'',
       encodeStringText ''keyboard-interactive'', encodeStringText '''', encodeStringText '''']"

fun parse_prompts :: "bytes \<Rightarrow> nat \<Rightarrow> nat \<Rightarrow> (password_error, KeyboardInteractivePrompt list \<times> nat) result" where
  "parse_prompts payload 0 offset = Inr ([], offset)"
| "parse_prompts payload (Suc n) offset =
     and_then (readText payload offset) (\<lambda>(text, offset).
       if length text = 0 \<or> length payload \<le> offset \<or> 1 < u8_at payload offset then Inl MalformedPrompt
       else and_then (parse_prompts payload n (offset + 1)) (\<lambda>(ps, offset').
         Inr (\<lparr>prompt_text = text, prompt_echo = (u8_at payload offset = 1)\<rparr> # ps, offset')))"

definition parseKeyboardInteractiveChallenge :: "bytes \<Rightarrow> (password_error, KeyboardInteractiveChallenge) result" where
  "parseKeyboardInteractiveChallenge payload =
     (if payload = [] \<or> u8_at payload 0 \<noteq> 60 then Inl MalformedMessageType
      else and_then (readText payload 1) (\<lambda>(name, offset).
      and_then (readText payload offset) (\<lambda>(instruction, offset).
      and_then (readText payload offset) (\<lambda>(language, offset).
      and_then (readUint32_checked payload offset) (\<lambda>promptCount.
      if MAX_KEYBOARD_INTERACTIVE_PROMPTS < promptCount then Inl TooManyPrompts
      else and_then (parse_prompts payload promptCount (offset + 4)) (\<lambda>(prompts, offset).
      if offset \<noteq> length payload then Inl TrailingData
      else Inr \<lparr>challenge_name = name, challenge_instruction = instruction, challenge_language = language,
                challenge_prompts = prompts\<rparr>))))))"

subsection \<open>Recognising a password prompt\<close>

text \<open>C0 and C1 control characters and DEL: \<open>[\u0000-\u001f\u007f-\u009f]\<close>.\<close>

fun has_control :: "bytes \<Rightarrow> bool" where
  "has_control [] = False"
| "has_control (b # bs) =
     (b < 0x20 \<or> b = 0x7F \<or> (b = 0xC2 \<and> bs \<noteq> [] \<and> 0x80 \<le> hd bs \<and> hd bs \<le> 0x9F) \<or> has_control bs)"

text \<open>One lower-case ASCII letter (or space) of a pattern under the flags \<open>iu\<close>: either case, and the
  long s U+017F folds to \<open>s\<close>.\<close>

definition ci_variants :: "char \<Rightarrow> string list" where
  "ci_variants c =
     (let n = of_char c :: nat in
      if 97 \<le> n \<and> n \<le> 122 then [[c], [char_of (n - 32)]] @ (if c = CHR ''s'' then [[CHR 0xC5, CHR 0xBF]] else [])
      else [[c]])"

fun match_ci :: "string \<Rightarrow> string \<Rightarrow> string option" where
  "match_ci [] s = Some s"
| "match_ci (c # pat) s =
     (case find (\<lambda>v. starts_with v s) (ci_variants c) of
        None \<Rightarrow> None
      | Some v \<Rightarrow> match_ci pat (drop (length v) s))"

definition colon_end :: "string \<Rightarrow> bool" where
  "colon_end s \<longleftrightarrow> strip_all ws_encodings s = '':'' \<or> strip_all ws_encodings s = [CHR 0xEF, CHR 0xBC, CHR 0x9A]"

text \<open>\<open>/^(?:password|...)\s*[:...]$/iu\<close> with the two Chinese words for password.\<close>

definition plain_prompt :: "string \<Rightarrow> bool" where
  "plain_prompt s \<longleftrightarrow>
     list_ex (\<lambda>r. case r of Some rest \<Rightarrow> colon_end rest | None \<Rightarrow> False)
       [match_ci ''password'' s,
        (let w = [CHR 0xE5, CHR 0xAF, CHR 0x86, CHR 0xE7, CHR 0xA0, CHR 0x81] in if starts_with w s then Some (drop (length w) s) else None),
        (let w = [CHR 0xE5, CHR 0x8F, CHR 0xA3, CHR 0xE4, CHR 0xBB, CHR 0xA4] in if starts_with w s then Some (drop (length w) s) else None)]"

fun has_line_end :: "string \<Rightarrow> bool" where
  "has_line_end [] = False"
| "has_line_end (c # cs) =
     (c = CHR 0x0A \<or> c = CHR 0x0D \<or> starts_with ([CHR 0xE2, CHR 0x80, CHR 0xA8]) (c # cs)
      \<or> starts_with ([CHR 0xE2, CHR 0x80, CHR 0xA9]) (c # cs) \<or> has_line_end cs)"

text \<open>\<open>(.+)@(.+)\<close>, greedy: the last \<open>@\<close> with text on both sides.\<close>

definition split_last_at :: "string \<Rightarrow> (string \<times> string) option" where
  "split_last_at s =
     map_option (\<lambda>i. (take i s, drop (i + 1) s))
       (find (\<lambda>i. s ! i = CHR ''@'') (rev [1..<length s - 1]))"

definition target_prompt :: "string \<Rightarrow> (string \<times> string) option" where
  "target_prompt s =
     (case match_ci ''password for '' s of
        None \<Rightarrow> None
      | Some rest \<Rightarrow>
          if rest = [] \<or> last rest \<noteq> CHR '':'' \<or> has_line_end (butlast rest) then None else split_last_at (butlast rest))"

definition isSupportedPasswordPrompt ::
  "(string \<Rightarrow> string) \<Rightarrow> KeyboardInteractiveChallenge \<Rightarrow> PasswordPromptIdentity \<Rightarrow> bool" where
  "isSupportedPasswordPrompt lower challenge identity =
     (if length (challenge_prompts challenge) \<noteq> 1 \<or> prompt_echo (challenge_prompts challenge ! 0) then False
      else if js_trim (challenge_name challenge) \<noteq> [] \<or> js_trim (challenge_instruction challenge) \<noteq> [] then False
      else
        let prompt = prompt_text (challenge_prompts challenge ! 0) in
        if has_control (utf8_encode prompt) then False
        else
          let normalized = js_trim prompt in
          if plain_prompt normalized then True
          else case target_prompt normalized of
                 Some (user, host) \<Rightarrow> user = id_username identity \<and> lower host = lower (id_host identity)
               | None \<Rightarrow> False)"

definition passwordResponsesForChallenge ::
  "(string \<Rightarrow> string) \<Rightarrow> KeyboardInteractiveChallenge \<Rightarrow> string \<Rightarrow> PasswordPromptIdentity \<Rightarrow> (password_error, string list) result" where
  "passwordResponsesForChallenge lower challenge password identity =
     (if length (challenge_prompts challenge) = 0 then Inr []
      else if length (challenge_prompts challenge) = 1 \<and> isSupportedPasswordPrompt lower challenge identity then Inr [password]
      else Inl (UnsupportedPrompt (length (challenge_prompts challenge))))"

definition buildKeyboardInteractiveResponse :: "string list \<Rightarrow> bytes" where
  "buildKeyboardInteractiveResponse responses =
     concat_arrays ([61] # writeUint32 (zeros 4) 0 (length responses) # map encodeStringText responses)"

subsection \<open>The challenge parser is exact\<close>

lemma readText_sound:
  assumes "readText data off = Inr (v, off')"
  obtains raw where "drop off data = encodeString raw @ drop off' data" "utf8_decode raw = Some v" "off' \<le> length data"
proof -
  let ?len = "readUint32 data off"
  let ?raw = "subarray data (off + 4) (off + 4 + ?len)"
  have b: "off + 4 \<le> length data" "?len \<le> length data - (off + 4)" "off' = off + 4 + ?len" "utf8_decode ?raw = Some v"
    using assms by (auto simp: readText_def readUint32_checked_def and_then_Inr_iff Let_def split: if_splits option.splits)
  have "length ?raw = ?len" using b by (simp add: length_subarray)
  moreover have "drop off data = subarray data off (off + 4) @ ?raw @ drop off' data"
    using drop_subarray [of off "off + 4" data] drop_subarray [of "off + 4" "off + 4 + ?len" data] b(3) by simp
  ultimately have "drop off data = encodeString ?raw @ drop off' data"
    using be32_readUint32 [OF b(1)] by (simp add: encodeString_eq)
  with b that show ?thesis by simp
qed

lemma drop_byte:
  assumes "off < length d"
  shows "drop off d = u8_at d off # drop (off + 1) d"
  using assms by (simp add: u8_at_def Cons_nth_drop_Suc)

text \<open>The bytes of one prompt, given its raw text.\<close>

definition prompt_wire :: "bytes \<Rightarrow> KeyboardInteractivePrompt \<Rightarrow> bytes" where
  "prompt_wire raw p = encodeString raw @ [if prompt_echo p then 1 else 0]"

lemma byte_01: "\<not> 1 < (b :: byte) \<Longrightarrow> b = (if b = 1 then 1 else 0)"
proof -
  assume "\<not> 1 < b"
  then have "unat b = unat (0 :: byte) \<or> unat b = unat (1 :: byte)" by (simp add: word_less_nat_alt) linarith
  then have "b = 0 \<or> b = 1" using unsigned_word_eqI by blast
  then show ?thesis by auto
qed

lemma parse_prompts_sound:
  assumes "parse_prompts payload n off = Inr (ps, off')"
  shows "\<exists>raws. drop off payload = concat (map2 prompt_wire raws ps) @ drop off' payload
    \<and> map utf8_decode raws = map (Some \<circ> prompt_text) ps \<and> list_all (\<lambda>p. prompt_text p \<noteq> []) ps \<and> length ps = n"
  using assms
proof (induction n arbitrary: off ps)
  case (Suc n)
  from Suc.prems obtain tx off1 ps' where r: "readText payload off = Inr (tx, off1)"
    and p: "parse_prompts payload n (off1 + 1) = Inr (ps', off')"
    and c: "tx \<noteq> []" "off1 < length payload" "\<not> 1 < u8_at payload off1"
    and ps: "ps = \<lparr>prompt_text = tx, prompt_echo = (u8_at payload off1 = 1)\<rparr> # ps'"
    by (auto simp: and_then_Inr_iff split: if_splits)
  obtain raw where raw: "drop off payload = encodeString raw @ drop off1 payload" "utf8_decode raw = Some tx"
    using readText_sound [OF r] by metis
  obtain raws where IH: "drop (off1 + 1) payload = concat (map2 prompt_wire raws ps') @ drop off' payload"
    "map utf8_decode raws = map (Some \<circ> prompt_text) ps'" "list_all (\<lambda>p. prompt_text p \<noteq> []) ps'" "length ps' = n"
    using Suc.IH [OF p] by blast
  have "u8_at payload off1 = (if u8_at payload off1 = 1 then 1 else 0)" by (rule byte_01 [OF c(3)])
  then have "drop off1 payload = [if u8_at payload off1 = 1 then 1 else 0] @ drop (off1 + 1) payload"
    using drop_byte [OF c(2)] by simp
  with raw IH ps c(1) show ?case
    by (intro exI [of _ "raw # raws"]) (simp add: prompt_wire_def)
qed simp

lemma challenge_sound:
  assumes "parseKeyboardInteractiveChallenge payload = Inr ch"
  shows "\<exists>n i l raws. payload = [60] @ encodeString n @ encodeString i @ encodeString l @ be32 (length raws)
       @ concat (map2 prompt_wire raws (challenge_prompts ch))
    \<and> utf8_decode n = Some (challenge_name ch) \<and> utf8_decode i = Some (challenge_instruction ch)
    \<and> utf8_decode l = Some (challenge_language ch)
    \<and> map utf8_decode raws = map (Some \<circ> prompt_text) (challenge_prompts ch) \<and> length raws \<le> MAX_KEYBOARD_INTERACTIVE_PROMPTS"
proof -
  from assms obtain name o1 instr o2 lang o3 cnt ps
    where t: "payload \<noteq> []" "u8_at payload 0 = 60"
      and r: "readText payload 1 = Inr (name, o1)" "readText payload o1 = Inr (instr, o2)" "readText payload o2 = Inr (lang, o3)"
        "readUint32_checked payload o3 = Inr cnt" "\<not> MAX_KEYBOARD_INTERACTIVE_PROMPTS < cnt"
        "parse_prompts payload cnt (o3 + 4) = Inr (ps, length payload)"
      and ch: "ch = \<lparr>challenge_name = name, challenge_instruction = instr, challenge_language = lang, challenge_prompts = ps\<rparr>"
    by (auto simp: parseKeyboardInteractiveChallenge_def and_then_Inr_iff split: if_splits)
  obtain n where n: "drop 1 payload = encodeString n @ drop o1 payload" "utf8_decode n = Some name" using readText_sound [OF r(1)] by metis
  obtain i where i: "drop o1 payload = encodeString i @ drop o2 payload" "utf8_decode i = Some instr" using readText_sound [OF r(2)] by metis
  obtain l where l: "drop o2 payload = encodeString l @ drop o3 payload" "utf8_decode l = Some lang" using readText_sound [OF r(3)] by metis
  have c: "o3 + 4 \<le> length payload" "cnt = readUint32 payload o3" using r(4) by (auto simp: readUint32_checked_def split: if_splits)
  obtain raws where raws: "drop (o3 + 4) payload = concat (map2 prompt_wire raws ps)"
    "map utf8_decode raws = map (Some \<circ> prompt_text) ps" "length ps = cnt"
    using parse_prompts_sound [OF r(6)] by auto
  have len: "length raws = cnt" using raws(2,3) map_eq_imp_length_eq by fastforce
  have "drop o3 payload = be32 cnt @ drop (o3 + 4) payload"
    using drop_subarray [of o3 "o3 + 4" payload] be32_readUint32 [OF c(1)] c(2) by simp
  moreover have "payload = [60] @ drop 1 payload" using drop_byte [of 0 payload] t by simp
  ultimately have "payload = [60] @ encodeString n @ encodeString i @ encodeString l @ be32 cnt @ concat (map2 prompt_wire raws ps)"
    using n(1) i(1) l(1) raws(1) by simp
  with n(2) i(2) l(2) raws(2) len r(5) ch show ?thesis
    by (intro exI [of _ n] exI [of _ i] exI [of _ l] exI [of _ raws]) simp
qed

text \<open>C12: The stored password answers a keyboard-interactive challenge only when the payload is, byte for
  byte, a challenge with blank name and instruction and exactly one prompt that does not echo, whose text
  has no control character and is a bare password prompt or names the user and host of this connection;
  the answer is then the password once. A challenge without prompts is answered with no response.\<close>

theorem password_release_condition:
  assumes "parseKeyboardInteractiveChallenge payload = Inr ch"
    and "passwordResponsesForChallenge lower ch password identity = Inr responses"
  shows "responses = [] \<and> challenge_prompts ch = []
    \<or> responses = [password] \<and>
      (\<exists>n i l t name instr text.
         payload = [60] @ encodeString n @ encodeString i @ encodeString l @ be32 1 @ encodeString t @ [0]
         \<and> utf8_decode n = Some name \<and> js_trim name = [] \<and> utf8_decode i = Some instr \<and> js_trim instr = []
         \<and> utf8_decode t = Some text \<and> \<not> has_control (utf8_encode text)
         \<and> (plain_prompt (js_trim text)
            \<or> (\<exists>host. target_prompt (js_trim text) = Some (id_username identity, host) \<and> lower host = lower (id_host identity))))"
proof (cases "challenge_prompts ch = []")
  case True
  with assms(2) show ?thesis by (simp add: passwordResponsesForChallenge_def)
next
  case False
  with assms(2) have s: "isSupportedPasswordPrompt lower ch identity" and one: "length (challenge_prompts ch) = 1"
    and r: "responses = [password]"
    by (auto simp: passwordResponsesForChallenge_def split: if_splits)
  then obtain p where p: "challenge_prompts ch = [p]" by (cases "challenge_prompts ch") auto
  obtain n i l raws where w: "payload = [60] @ encodeString n @ encodeString i @ encodeString l @ be32 (length raws)
       @ concat (map2 prompt_wire raws (challenge_prompts ch))"
    "utf8_decode n = Some (challenge_name ch)" "utf8_decode i = Some (challenge_instruction ch)"
    "map utf8_decode raws = map (Some \<circ> prompt_text) (challenge_prompts ch)"
    using challenge_sound [OF assms(1)] by blast
  from w(4) p obtain t where raws: "raws = [t]" "utf8_decode t = Some (prompt_text p)" by (cases raws) auto
  have "\<not> prompt_echo p" "js_trim (challenge_name ch) = []" "js_trim (challenge_instruction ch) = []"
    "\<not> has_control (utf8_encode (prompt_text p))"
    "plain_prompt (js_trim (prompt_text p)) \<or> (\<exists>host. target_prompt (js_trim (prompt_text p)) = Some (id_username identity, host)
        \<and> lower host = lower (id_host identity))"
    using s p by (auto simp: isSupportedPasswordPrompt_def Let_def split: if_splits option.splits)
  with w raws p r show ?thesis
    by (intro disjI2 conjI exI [of _ n] exI [of _ i] exI [of _ l] exI [of _ t]) (auto simp: prompt_wire_def)
qed

definition example_challenge :: bytes where
  "example_challenge = [60, 0, 0, 0, 0, 0, 0, 0, 0, 0, 0, 0, 0, 0, 0, 0, 1, 0, 0, 0, 9, 80, 97, 115, 115, 119, 111, 114, 100, 58, 0]"

lemma example_challenge_parsed:
  "parseKeyboardInteractiveChallenge example_challenge =
     Inr \<lparr>challenge_name = [], challenge_instruction = [], challenge_language = [],
       challenge_prompts = [\<lparr>prompt_text = ''Password:'', prompt_echo = False\<rparr>]\<rparr>"
proof -
  have e: "readText example_challenge 1 = Inr ([], 5)" "readText example_challenge 5 = Inr ([], 9)"
    "readText example_challenge 9 = Inr ([], 13)" "readUint32_checked example_challenge 13 = Inr 1" by code_simp+
  have p: "readText example_challenge 17 = Inr (''Password:'', 30)" by code_simp
  have "length example_challenge = 31" "u8_at example_challenge 0 = 60" "u8_at example_challenge 30 = 0" by code_simp+
  with e p show ?thesis
    by (auto simp: parseKeyboardInteractiveChallenge_def MAX_KEYBOARD_INTERACTIVE_PROMPTS_def)
qed

lemma example_challenge_answered:
  "passwordResponsesForChallenge (\<lambda>s. s) \<lparr>challenge_name = [], challenge_instruction = [], challenge_language = [],
       challenge_prompts = [\<lparr>prompt_text = ''Password:'', prompt_echo = False\<rparr>]\<rparr> ''secret''
     \<lparr>id_username = ''root'', id_host = ''example.org''\<rparr> = Inr [''secret'']"
proof -
  have "js_trim ''Password:'' = ''Password:''" by (rule js_trim_id) (simp_all add: ws_encodings_def)
  moreover have "\<not> has_control (utf8_encode ''Password:'')" by code_simp
  moreover have "plain_prompt ''Password:''" by code_simp
  ultimately show ?thesis by (simp add: passwordResponsesForChallenge_def isSupportedPasswordPrompt_def)
qed

theorem password_release_condition_witness:
  "\<exists>n i l t. example_challenge = [60] @ encodeString n @ encodeString i @ encodeString l @ be32 1 @ encodeString t @ [0]"
  using password_release_condition [OF example_challenge_parsed example_challenge_answered] by auto

end
