(* ===== verification/Base64.thy ===== *)
theory Base64
  imports Prelude
begin

text \<open>
  \<open>btoa\<close> and \<open>atob\<close> of the platform, as the HTML standard's forgiving Base64: \<open>atob\<close> drops ASCII
  white space and up to two padding characters and discards left-over bits. The sources compare
  \<open>btoa(atob(s))\<close> with \<open>s\<close> to insist on the canonical form.
\<close>

definition b64_char :: "nat \<Rightarrow> char" where
  "b64_char n = char_of (if n < 26 then 65 + n else if n < 52 then 71 + n else if n < 62 then n - 4 else if n = 62 then 43 else 47)"

definition b64_value :: "char \<Rightarrow> nat option" where
  "b64_value c =
     (let n = of_char c :: nat in
      if 65 \<le> n \<and> n \<le> 90 then Some (n - 65)
      else if 97 \<le> n \<and> n \<le> 122 then Some (n - 71)
      else if 48 \<le> n \<and> n \<le> 57 then Some (n + 4)
      else if n = 43 then Some 62 else if n = 47 then Some 63 else None)"

fun btoa :: "bytes \<Rightarrow> string" where
  "btoa [] = []"
| "btoa [a] = (let n = unat a * 16 in [b64_char (n div 64), b64_char (n mod 64), CHR ''='', CHR ''=''])"
| "btoa [a, b] = (let n = (unat a * 256 + unat b) * 4 in
     [b64_char (n div 4096), b64_char (n div 64 mod 64), b64_char (n mod 64), CHR ''=''])"
| "btoa (a # b # c # rest) = (let n = (unat a * 256 + unat b) * 256 + unat c in
     [b64_char (n div 262144), b64_char (n div 4096 mod 64), b64_char (n div 64 mod 64), b64_char (n mod 64)] @ btoa rest)"

fun sextets_bytes :: "nat list \<Rightarrow> bytes" where
  "sextets_bytes (a # b # c # d # rest) =
     (let n = ((a * 64 + b) * 64 + c) * 64 + d in
      [word_of_nat (n div 65536), word_of_nat (n div 256), word_of_nat n] @ sextets_bytes rest)"
| "sextets_bytes [a, b, c] = (let n = ((a * 64 + b) * 64 + c) div 4 in [word_of_nat (n div 256), word_of_nat n])"
| "sextets_bytes [a, b] = [word_of_nat ((a * 64 + b) div 16)]"
| "sextets_bytes _ = []"

fun all_values :: "string \<Rightarrow> nat list option" where
  "all_values [] = Some []"
| "all_values (c # cs) =
     (case b64_value c of None \<Rightarrow> None | Some v \<Rightarrow> map_option ((#) v) (all_values cs))"

definition drop_padding :: "string \<Rightarrow> string" where
  "drop_padding s =
     (if length s mod 4 \<noteq> 0 then s
      else if 2 \<le> length s \<and> drop (length s - 2) s = ''=='' then take (length s - 2) s
      else if 1 \<le> length s \<and> drop (length s - 1) s = ''='' then take (length s - 1) s else s)"

definition atob :: "string \<Rightarrow> bytes option" where
  "atob s =
     (let t = drop_padding (filter (\<lambda>c. c \<notin> {CHR 0x09, CHR 0x0A, CHR 0x0C, CHR 0x0D, CHR 0x20}) s) in
      if length t mod 4 = 1 then None
      else map_option sextets_bytes (all_values t))"

lemma b64_value_char:
  assumes "n < 64"
  shows "b64_value (b64_char n) = Some n"
proof -
  have "(of_char (b64_char n) :: nat) = (if n < 26 then 65 + n else if n < 52 then 71 + n else if n < 62 then n - 4 else if n = 62 then 43 else 47)"
    using assms unfolding b64_char_def by (subst of_char_of) auto
  then show ?thesis using assms unfolding b64_value_def by (auto simp: Let_def)
qed

definition b64_plain :: "char \<Rightarrow> bool" where
  "b64_plain c \<longleftrightarrow> (\<exists>n < 64. c = b64_char n)"

lemma b64_plain_char: "n < 64 \<Longrightarrow> b64_plain (b64_char n)"
  by (auto simp: b64_plain_def)

lemma b64_plain_class:
  assumes "b64_plain c"
  shows "c \<notin> {CHR 0x09, CHR 0x0A, CHR 0x0C, CHR 0x0D, CHR 0x20, CHR ''='', CHR ''-''}"
    and "(65 \<le> (of_char c :: nat) \<and> (of_char c :: nat) \<le> 90) \<or> (97 \<le> (of_char c :: nat) \<and> (of_char c :: nat) \<le> 122)
      \<or> (48 \<le> (of_char c :: nat) \<and> (of_char c :: nat) \<le> 57) \<or> c = CHR ''+'' \<or> c = CHR ''/''"
proof -
  obtain n where n: "n < 64" "c = b64_char n" using assms by (auto simp: b64_plain_def)
  have v: "b64_value c \<noteq> None" using b64_value_char n by simp
  show "c \<notin> {CHR 0x09, CHR 0x0A, CHR 0x0C, CHR 0x0D, CHR 0x20, CHR ''='', CHR ''-''}"
    using v by (auto simp: b64_value_def)
  have m: "(of_char c :: nat) = 43 \<Longrightarrow> c = CHR ''+''" "(of_char c :: nat) = 47 \<Longrightarrow> c = CHR ''/''"
    using of_char_eq_iff [of c "CHR ''+''", where 'a = nat] of_char_eq_iff [of c "CHR ''/''", where 'a = nat] by simp_all
  show "(65 \<le> (of_char c :: nat) \<and> (of_char c :: nat) \<le> 90) \<or> (97 \<le> (of_char c :: nat) \<and> (of_char c :: nat) \<le> 122)
      \<or> (48 \<le> (of_char c :: nat) \<and> (of_char c :: nat) \<le> 57) \<or> c = CHR ''+'' \<or> c = CHR ''/''"
    using v m by (auto simp: b64_value_def Let_def split: if_splits)
qed

subsection \<open>Round trip\<close>

text \<open>The sextets of a byte string and the number of padding characters.\<close>

fun sextets :: "bytes \<Rightarrow> nat list" where
  "sextets [] = []"
| "sextets [a] = (let n = unat a * 16 in [n div 64, n mod 64])"
| "sextets [a, b] = (let n = (unat a * 256 + unat b) * 4 in [n div 4096, n div 64 mod 64, n mod 64])"
| "sextets (a # b # c # rest) = (let n = (unat a * 256 + unat b) * 256 + unat c in
     [n div 262144, n div 4096 mod 64, n div 64 mod 64, n mod 64] @ sextets rest)"

fun padding :: "bytes \<Rightarrow> nat" where
  "padding [] = 0"
| "padding [a] = 2"
| "padding [a, b] = 1"
| "padding (a # b # c # rest) = padding rest"

lemma btoa_sextets: "btoa raw = map b64_char (sextets raw) @ replicate (padding raw) (CHR ''='')"
  by (induction raw rule: btoa.induct)
    (simp_all only: btoa.simps sextets.simps padding.simps Let_def list.map map_append append.assoc append_Cons append_Nil
      replicate_0 numeral_2_eq_2 One_nat_def replicate_Suc)

lemma sextets_less: "list_all (\<lambda>n. n < 64) (sextets raw)"
proof (induction raw rule: sextets.induct)
  case (2 a)
  then show ?case using unat_byte_less [of a] by (simp add: Let_def)
next
  case (3 a b)
  then show ?case using unat_byte_less [of a] unat_byte_less [of b] by (simp add: Let_def)
next
  case (4 a b c rest)
  then show ?case using unat_byte_less [of a] unat_byte_less [of b] unat_byte_less [of c] by (simp add: Let_def)
qed simp

lemma word_of_nat_unat_eq: "(word_of_nat (unat b) :: byte) = b"
  by simp

lemma word_of_nat_byte: "n mod 256 = unat (b :: byte) \<Longrightarrow> (word_of_nat n :: byte) = b"
proof -
  assume "n mod 256 = unat b"
  then have "(word_of_nat (n mod 256) :: byte) = b" by (simp only: word_of_nat_unat_eq)
  then show ?thesis by simp
qed

lemma group4:
  fixes n :: nat
  assumes "n < 16777216"
  shows "((n div 262144 * 64 + n div 4096 mod 64) * 64 + n div 64 mod 64) * 64 + n mod 64 = n"
proof -
  have "n div 4096 div 64 = n div 262144" "n div 64 div 64 = n div 4096" by (simp_all flip: div_mult2_eq)
  then have "n div 262144 * 64 + n div 4096 mod 64 = n div 4096" "n div 4096 * 64 + n div 64 mod 64 = n div 64"
    "n div 64 * 64 + n mod 64 = n" by (metis div_mult_mod_eq)+
  then show ?thesis by simp
qed

lemma byte_split: "(c :: nat) < 256 \<Longrightarrow> (m * 256 + c) div 256 = m \<and> (m * 256 + c) mod 256 = c"
  by simp

lemma sextets_inverse: "sextets_bytes (sextets raw) = raw"
proof (induction raw rule: sextets.induct)
  case (2 a)
  have "(unat a * 16 div 64 * 64 + unat a * 16 mod 64) div 16 = unat a" by (simp only: div_mult_mod_eq)
  then show ?case by (simp only: sextets.simps Let_def sextets_bytes.simps word_of_nat_unat_eq)
next
  case (3 a b)
  let ?m = "unat a * 256 + unat b"
  let ?n = "?m * 4"
  have "?n div 64 div 64 = ?n div 4096" by (simp flip: div_mult2_eq)
  then have "?n div 4096 * 64 + ?n div 64 mod 64 = ?n div 64" "?n div 64 * 64 + ?n mod 64 = ?n" by (metis div_mult_mod_eq)+
  then have "((?n div 4096 * 64 + ?n div 64 mod 64) * 64 + ?n mod 64) div 4 = ?m" by simp
  moreover have "?m div 256 = unat a" "?m mod 256 = unat b" using unat_byte_less [of a] unat_byte_less [of b] by simp_all
  ultimately show ?case using word_of_nat_byte [of ?m b] by (simp add: Let_def)
next
  case (4 a b c rest)
  let ?n = "(unat a * 256 + unat b) * 256 + unat c"
  have "?n < 16777216" using unat_byte_less [of a] unat_byte_less [of b] unat_byte_less [of c] by simp
  note g = group4 [OF this]
  have d: "?n div 256 = unat a * 256 + unat b" "?n mod 256 = unat c"
    using byte_split [OF unat_byte_less [of c], of "unat a * 256 + unat b"] by blast+
  have "?n div 65536 = ?n div 256 div 256" by (simp flip: div_mult2_eq)
  then have e: "?n div 65536 = unat a" "?n div 256 mod 256 = unat b" "?n mod 256 = unat c"
    unfolding d using byte_split [OF unat_byte_less [of b], of "unat a"] by simp_all
  show ?case
    unfolding sextets.simps Let_def sextets_bytes.simps append_Cons append_Nil g e(1) word_of_nat_unat_eq
      word_of_nat_byte [OF e(2)] word_of_nat_byte [OF e(3)] by (simp only: 4)
qed simp

lemma all_values_map: "list_all (\<lambda>n. n < 64) ns \<Longrightarrow> all_values (map b64_char ns) = Some ns"
  by (induction ns) (auto simp: b64_value_char)

lemma length_sextets: "length (sextets raw) + padding raw = 4 * ((length raw + 2) div 3)" "padding raw \<le> 2"
proof (induction raw rule: sextets.induct)
  case (4 a b c rest)
  {
    case 1
    have "(length (a # b # c # rest) + 2) div 3 = Suc ((length rest + 2) div 3)" by simp
    with 4 show ?case by (simp add: Let_def)
  next
    case 2
    with 4 show ?case by simp
  }
qed (simp_all add: Let_def)

lemma atob_btoa: "atob (btoa raw) = Some raw"
proof -
  let ?s = "map b64_char (sextets raw)" and ?k = "padding raw"
  have plain: "list_all b64_plain ?s" using sextets_less [of raw] by (auto simp: list_all_iff b64_plain_char)
  then have "filter (\<lambda>c. c \<notin> {CHR 0x09, CHR 0x0A, CHR 0x0C, CHR 0x0D, CHR 0x20}) (btoa raw) = btoa raw"
    using b64_plain_class(1) unfolding btoa_sextets by (auto simp: list_all_iff intro!: filter_True)
  moreover have "drop_padding (btoa raw) = ?s"
  proof -
    have len: "length (btoa raw) = length ?s + ?k" "length (btoa raw) mod 4 = 0"
      using length_sextets [of raw] by (simp_all add: btoa_sextets)
    have eq: "c \<noteq> CHR ''=''" if "c \<in> set ?s" for c
      using plain b64_plain_class(1) [of c] that unfolding list_all_iff by blast
    have last: "?s \<noteq> [] \<Longrightarrow> last ?s \<noteq> CHR ''=''" by (rule eq) (rule last_in_set)
    consider "?k = 0" | "?k = 1" | "?k = 2" using length_sextets(2) [of raw] by linarith
    then show ?thesis
    proof cases
      case 1
      then have b: "btoa raw = ?s" by (simp add: btoa_sextets)
      have "drop n ?s \<noteq> xs @ ''=''" for n xs
      proof
        assume d: "drop n ?s = xs @ ''=''"
        then have "CHR ''='' \<in> set (drop n ?s)" by simp
        then have "CHR ''='' \<in> set ?s" by (rule in_set_dropD)
        with eq show False by blast
      qed
      from this [of "length ?s - 2" "''=''"] this [of "length ?s - 1" "[]"] show ?thesis
        unfolding b drop_padding_def by simp
    next
      case 2
      then have b: "btoa raw = ?s @ ''=''" by (simp add: btoa_sextets)
      have "length ?s mod 4 = 3" using len b by (simp add: 2) presburger
      then have "?s \<noteq> []" by auto
      then obtain s' x where "?s = s' @ [x]" "x \<noteq> CHR ''=''" using last by (metis append_butlast_last_id)
      with b len(2) show ?thesis by (simp add: drop_padding_def)
    next
      case 3
      then have "btoa raw = ?s @ ''==''" by (simp add: btoa_sextets numeral_2_eq_2)
      with len show ?thesis by (simp add: drop_padding_def)
    qed
  qed
  moreover have "length ?s mod 4 \<noteq> 1"
  proof -
    obtain q where "length ?s + ?k = 4 * q" using length_sextets(1) [of raw] by simp
    with length_sextets(2) [of raw] show ?thesis by presburger
  qed
  ultimately show ?thesis
    using all_values_map [OF sextets_less] sextets_inverse by (simp add: atob_def Let_def)
qed

end
