(* ===== verification/Session_Host.thy ===== *)
theory Session_Host
  imports Ssh_Exchange Ssh_Auth
begin

text \<open>
  The stateless parts of the terminal session, \<^verbatim>\<open>worker/src/webssh/backend/session.ts\<close>: the field
  readers, the checks of the transport messages that need no reply, and the verification of the host
  signature. \<open>subtle\<close> is \<open>crypto.subtle\<close> as in \<open>Ssh_Auth\<close>; \<open>importJwk hash e n\<close> is the import of an RSA
  public key as a JSON Web Key.
\<close>

datatype session_error = SessionError string

type_synonym 'a sresult = "(session_error, 'a) result"

definition fail_with :: "string \<Rightarrow> 'a sresult" where
  "fail_with message = Inl (SessionError message)"

text \<open>An error of a called module travels on as the exception it is.\<close>

definition rethrow :: "('e, 'a) result \<Rightarrow> 'a sresult" where
  "rethrow r = (case r of Inl e \<Rightarrow> fail_with ''rethrown'' | Inr v \<Rightarrow> Inr v)"

lemma fail_with_neq [simp]: "fail_with m \<noteq> Inr v" "Inr v \<noteq> fail_with m"
  by (simp_all add: fail_with_def)

lemma rethrow_Inr [simp]: "rethrow r = Inr v \<longleftrightarrow> r = Inr v" "rethrow (Inr v) = Inr v" "rethrow (Inl e) = fail_with ''rethrown''"
  by (auto simp: rethrow_def split: sum.splits)

subsection \<open>Reading fields\<close>

definition session_readBytes :: "bytes \<Rightarrow> nat \<Rightarrow> (bytes \<times> nat) sresult" where
  "session_readBytes bs offset =
     (if length bs < offset + 4 then fail_with ''Malformed SSH key data''
      else
        let len = readUint32 bs offset in
        if length bs - offset - 4 < len then fail_with ''Malformed SSH key data''
        else Inr (subarray bs (offset + 4) (offset + 4 + len), offset + 4 + len))"

definition session_readString :: "bytes \<Rightarrow> nat \<Rightarrow> (string \<times> nat) sresult" where
  "session_readString bs offset =
     and_then (session_readBytes bs offset) (\<lambda>(value, after).
       case utf8_decode value of
         Some s \<Rightarrow> Inr (s, after)
       | None \<Rightarrow> fail_with ''Malformed SSH text field'')"

subsection \<open>Host signatures\<close>

definition trim_integer :: "bytes \<Rightarrow> bytes sresult" where
  "trim_integer value =
     (if length value = 0 \<or> u8_at value 0 AND 0x80 \<noteq> 0 then fail_with ''ECDSA signature integers must be positive''
      else if 1 < length value \<and> u8_at value 0 = 0 \<and> u8_at value 1 AND 0x80 = 0
      then fail_with ''ECDSA signature integer is not minimally encoded''
      else
        let normalized = (if 1 < length value \<and> u8_at value 0 = 0 then drop 1 value else value) in
        if list_all (\<lambda>b. b = 0) normalized then fail_with ''ECDSA signature integers must be non-zero''
        else Inr normalized)"

definition sshEcdsaToRaw :: "bytes \<Rightarrow> nat \<Rightarrow> bytes sresult" where
  "sshEcdsaToRaw signature coordinateBytes =
     and_then (session_readBytes signature 0) (\<lambda>(rField, after).
     and_then (session_readBytes signature after) (\<lambda>(sField, after).
     if after \<noteq> length signature then fail_with ''Malformed ECDSA signature trailing data''
     else and_then (trim_integer rField) (\<lambda>r.
     and_then (trim_integer sField) (\<lambda>s.
     if coordinateBytes < length r \<or> coordinateBytes < length s then fail_with ''Invalid ECDSA signature''
     else Inr (u8_set (u8_set (zeros (coordinateBytes * 2)) r (coordinateBytes - length r))
                 s (coordinateBytes * 2 - length s))))))"

definition session_base64 :: "bytes \<Rightarrow> string" where
  "session_base64 bs = rev (dropWhile (\<lambda>c. c = CHR ''='') (rev (btoa bs)))"

fun unsigned_start :: "bytes \<Rightarrow> bytes" where
  "unsigned_start (b # c # bs) = (if b = 0 then unsigned_start (c # bs) else b # c # bs)"
| "unsigned_start bs = bs"

definition url_char :: "char \<Rightarrow> char" where
  "url_char c = (if c = CHR ''+'' then CHR ''-'' else if c = CHR 0x2F then CHR ''_'' else c)"

definition base64UrlUnsigned :: "bytes \<Rightarrow> string" where
  "base64UrlUnsigned bs = map url_char (session_base64 (unsigned_start bs))"

text \<open>The outcome of \<open>crypto.subtle.importKey\<close> followed by \<open>crypto.subtle.verify\<close>.\<close>

definition subtle_check :: "'k subtle_crypto \<Rightarrow> string \<Rightarrow> 'k option \<Rightarrow> bytes \<Rightarrow> bytes \<Rightarrow> bool sresult" where
  "subtle_check subtle algorithm key signature data =
     and_then (rethrow (await_crypto key)) (\<lambda>k.
       rethrow (await_crypto (subtleVerify subtle algorithm k signature data)))"

definition verify_ed25519 ::
  "'k subtle_crypto \<Rightarrow> string option \<Rightarrow> string \<Rightarrow> bytes \<Rightarrow> nat \<Rightarrow> bytes \<Rightarrow> bytes \<Rightarrow> bool sresult" where
  "verify_ed25519 subtle negotiated signatureType hostKey offset rawSignature hash =
     (if negotiated \<noteq> Some ''ssh-ed25519'' \<or> signatureType \<noteq> ''ssh-ed25519''
      then fail_with ''Ed25519 host key or signature does not match the negotiated algorithm''
      else and_then (session_readBytes hostKey offset) (\<lambda>(rawKey, after).
        if after \<noteq> length hostKey \<or> length rawKey \<noteq> 32 \<or> length rawSignature \<noteq> 64
        then fail_with ''Malformed Ed25519 host key or signature''
        else subtle_check subtle ''Ed25519'' (importRaw subtle ''Ed25519'' rawKey) rawSignature hash))"

definition host_curve :: "string \<Rightarrow> string" where
  "host_curve keyName =
     (if ends_with ''256'' keyName then ''P-256'' else if ends_with ''384'' keyName then ''P-384'' else ''P-521'')"

definition host_digest :: "string \<Rightarrow> string" where
  "host_digest curve = (if curve = ''P-256'' then ''SHA-256'' else if curve = ''P-384'' then ''SHA-384'' else ''SHA-512'')"

definition host_coordinate :: "string \<Rightarrow> nat" where
  "host_coordinate curve = (if curve = ''P-256'' then 32 else if curve = ''P-384'' then 48 else 66)"

definition verify_ecdsa ::
  "'k subtle_crypto \<Rightarrow> string option \<Rightarrow> string \<Rightarrow> string \<Rightarrow> bytes \<Rightarrow> nat \<Rightarrow> bytes \<Rightarrow> bytes \<Rightarrow> bool sresult" where
  "verify_ecdsa subtle negotiated keyName signatureType hostKey offset rawSignature hash =
     (if negotiated \<noteq> Some keyName \<or> signatureType \<noteq> keyName
      then fail_with ''ECDSA host key or signature does not match the negotiated algorithm''
      else and_then (session_readString hostKey offset) (\<lambda>(curveName, after).
      and_then (session_readBytes hostKey after) (\<lambda>(rawKey, after).
        if after \<noteq> length hostKey then fail_with ''Malformed ECDSA host key''
        else
          let curve = host_curve keyName in
          if curveName \<noteq> drop (length ''ecdsa-sha2-'') keyName
          then fail_with ''ECDSA curve name does not match the host key type''
          else and_then (rethrow (await_crypto (importRaw subtle (''ECDSA/'' @ curve) rawKey))) (\<lambda>key.
          and_then (sshEcdsaToRaw rawSignature (host_coordinate curve)) (\<lambda>raw.
            rethrow (await_crypto (subtleVerify subtle (''ECDSA/'' @ host_digest curve) key raw hash)))))))"

definition verify_rsa ::
  "'k subtle_crypto \<Rightarrow> (string \<Rightarrow> string \<Rightarrow> string \<Rightarrow> 'k option) \<Rightarrow> string option \<Rightarrow> string \<Rightarrow> bytes \<Rightarrow> nat \<Rightarrow> bytes \<Rightarrow> bytes \<Rightarrow> bool sresult" where
  "verify_rsa subtle importJwk negotiated signatureType hostKey offset rawSignature hash =
     (if signatureType \<noteq> ''rsa-sha2-256'' \<and> signatureType \<noteq> ''rsa-sha2-512''
      then fail_with (''Unsupported RSA host signature type: '' @ signatureType)
      else if Some signatureType \<noteq> negotiated then fail_with ''RSA signature does not match negotiated''
      else and_then (session_readBytes hostKey offset) (\<lambda>(exponent, after).
      and_then (session_readBytes hostKey after) (\<lambda>(modulus, after).
        if after \<noteq> length hostKey \<or> length exponent = 0 \<or> length modulus = 0 then fail_with ''Malformed RSA host key''
        else
          let digest = (if signatureType = ''rsa-sha2-512'' then ''SHA-512'' else ''SHA-256'') in
          subtle_check subtle (''RSASSA-PKCS1-v1_5/'' @ digest)
            (importJwk digest (base64UrlUnsigned exponent) (base64UrlUnsigned modulus)) rawSignature hash)))"

definition verifyHostSignature ::
  "'k subtle_crypto \<Rightarrow> (string \<Rightarrow> string \<Rightarrow> string \<Rightarrow> 'k option) \<Rightarrow> string option \<Rightarrow> bytes \<Rightarrow> bytes \<Rightarrow> bytes \<Rightarrow> bool sresult" where
  "verifyHostSignature subtle importJwk negotiated hostKey signature hash =
     and_then (session_readString hostKey 0) (\<lambda>(keyName, offset).
     and_then (session_readString signature 0) (\<lambda>(signatureType, sigOffset).
     and_then (session_readBytes signature sigOffset) (\<lambda>(rawSignature, after).
       if after \<noteq> length signature then fail_with ''Malformed SSH host signature''
       else if keyName = ''ssh-ed25519''
       then verify_ed25519 subtle negotiated signatureType hostKey offset rawSignature hash
       else if starts_with ''ecdsa-sha2-nistp'' keyName
       then verify_ecdsa subtle negotiated keyName signatureType hostKey offset rawSignature hash
       else if keyName = ''ssh-rsa''
       then verify_rsa subtle importJwk negotiated signatureType hostKey offset rawSignature hash
       else fail_with (''Unsupported host key type: '' @ keyName))))"

definition isHostKeyAlgorithmCompatible :: "string option \<Rightarrow> string \<Rightarrow> bool" where
  "isHostKeyAlgorithmCompatible negotiated keyName =
     (case negotiated of
        None \<Rightarrow> False
      | Some n \<Rightarrow> n \<noteq> [] \<and> (n = keyName \<or> keyName = ''ssh-rsa'' \<and> (n = ''rsa-sha2-256'' \<or> n = ''rsa-sha2-512'')))"

definition host_fingerprint :: "(bytes \<Rightarrow> bytes) \<Rightarrow> bytes \<Rightarrow> string" where
  "host_fingerprint sha256 hostKey = ''SHA256:'' @ session_base64 (sha256 hostKey)"

subsection \<open>Transport messages without a reply\<close>

text \<open>Two consecutive fields that must end the message.\<close>

definition two_fields :: "bytes \<Rightarrow> nat \<Rightarrow> string \<Rightarrow> unit sresult" where
  "two_fields payload offset message =
     and_then (session_readBytes payload offset) (\<lambda>(_, offset).
     and_then (session_readBytes payload offset) (\<lambda>(_, offset).
       if offset \<noteq> length payload then fail_with message else Inr ()))"

definition validateDisconnect :: "bytes \<Rightarrow> unit sresult" where
  "validateDisconnect payload =
     (if length payload < 13 then fail_with ''Malformed SSH disconnect message''
      else two_fields payload 5 ''Malformed SSH disconnect message'')"

definition validateDebug :: "bytes \<Rightarrow> unit sresult" where
  "validateDebug payload =
     (if length payload < 10 \<or> 1 < u8_at payload 1 then fail_with ''Malformed SSH debug message''
      else two_fields payload 2 ''Malformed SSH debug message'')"

definition validateIgnore :: "bytes \<Rightarrow> unit sresult" where
  "validateIgnore payload =
     and_then (session_readBytes payload 1) (\<lambda>(_, after).
       if after \<noteq> length payload then fail_with ''Malformed SSH ignore message'' else Inr ())"

definition validateAuthFailure :: "bytes \<Rightarrow> string list sresult" where
  "validateAuthFailure payload =
     (if length payload < 6 then fail_with ''Malformed SSH authentication failure''
      else
        let methodsLength = readUint32 payload 1 in
        if length payload - 6 < methodsLength \<or> methodsLength + 6 \<noteq> length payload
        then fail_with ''Malformed SSH authentication failure''
        else
          let partialSuccess = u8_at payload (length payload - 1) in
          if 1 < partialSuccess then fail_with ''Malformed SSH authentication partial-success flag''
          else if partialSuccess = 1 then fail_with ''Multi-factor SSH authentication is not supported''
          else case utf8_decode (subarray payload 5 (5 + methodsLength)) of
                 None \<Rightarrow> fail_with ''Malformed SSH authentication methods''
               | Some methods \<Rightarrow>
                   if methods = [] then Inr []
                   else if list_ex (\<lambda>m. m = [] \<or> \<not> list_all name_char m) (split_on (CHR '','') methods)
                   then fail_with ''Malformed SSH authentication methods''
                   else Inr (split_on (CHR '','') methods))"

text \<open>The checks of a global request, and whether it wants a reply.\<close>

definition global_request_reply :: "bytes \<Rightarrow> bool sresult" where
  "global_request_reply payload =
     (if length payload < 6 then fail_with ''Malformed global request''
      else
        let nameLength = readUint32 payload 1 in
        if length payload \<le> 5 + nameLength then fail_with ''Malformed global request''
        else case utf8_decode (subarray payload 5 (5 + nameLength)) of
               None \<Rightarrow> fail_with ''Malformed global request name''
             | Some _ \<Rightarrow>
                 if 1 < u8_at payload (5 + nameLength) then fail_with ''Malformed global request reply flag''
                 else Inr (u8_at payload (5 + nameLength) = 1))"

subsection \<open>Properties of the host signature\<close>

lemma session_readBytes_field [wire_simps]:
  assumes "off = length pre" "length v < 2 ^ 32"
  shows "session_readBytes (pre @ encodeString v @ post) off = Inr (v, off + 4 + length v)"
  using assms subarray_append [of "length pre + 4" "pre @ be32 (length v)" "length pre + 4 + length v" v post]
  by (simp add: session_readBytes_def encodeString_eq wire_simps Let_def)

lemma trim_integer_mpint:
  assumes "canonical c" "be_value c \<noteq> 0"
  shows "trim_integer (if u8_at c 0 AND 0x80 \<noteq> 0 then 0 # c else c) = Inr c"
proof -
  have c: "c \<noteq> []" "length c = 1 \<or> hd c \<noteq> 0" using assms(1) by (auto simp: canonical_def)
  have z: "list_all (\<lambda>b. b = 0) bs \<Longrightarrow> be_value bs = 0" for bs by (induction bs) auto
  have nz: "\<not> list_all (\<lambda>b. b = 0) c" using z assms(2) by auto
  have "u8_at c 0 = hd c" using c(1) by (simp add: u8_at_def hd_conv_nth)
  moreover have "length c = 1 \<Longrightarrow> hd c \<noteq> 0" using nz c(1) by (cases c) auto
  ultimately have "u8_at c 0 \<noteq> 0" using c by auto
  then show ?thesis using c nz by (auto simp: trim_integer_def u8_at_def Let_def)
qed

lemma right_aligned:
  assumes "canonical c" "be_value c = be_value r" "length r = w" "0 < w"
  shows "length c \<le> w" "zeros (w - length c) @ c = r"
proof -
  show l: "length c \<le> w" using canonical_length [OF assms(1), of w] be_value_bound [of r] assms by simp
  show "zeros (w - length c) @ c = r"
    by (rule be_value_inj) (use l assms in \<open>simp_all add: be_value_append\<close>)
qed

lemma u8_set_mid: "off + length src \<le> n \<Longrightarrow> u8_set (zeros n) src off = zeros off @ src @ zeros (n - off - length src)"
  by (simp add: u8_set_def zeros_def take_replicate min_def)

text \<open>C40: An ECDSA signature that the client's own encoder turns from the fixed-width form into SSH fields is
  read back to the same fixed-width form by the verifier of host signatures, whatever leading zeros the two
  numbers have; both numbers must be non-zero, as in every valid signature.\<close>

theorem host_ecdsa_roundtrip:
  assumes "length r = w" "length s = w" "0 < w" "w < 1000" "be_value r \<noteq> 0" "be_value s \<noteq> 0"
    and "ecdsaWebCryptoToSSH (r @ s) w = Inr signature"
  shows "sshEcdsaToRaw signature w = Inr (r @ s)"
proof -
  define c where "c x = drop (mpint_start x 0) x" for x
  define m where "m x = (if u8_at (c x) 0 AND 0x80 \<noteq> 0 then 0 # c x else c x)" for x
  have ne: "r \<noteq> []" "s \<noteq> []" using assms(1-3) by auto
  have can: "x \<noteq> [] \<Longrightarrow> canonical (c x)" for x unfolding c_def by (rule canonical_mpint_start)
  have val: "be_value (c x) = be_value x" for x using be_value_drop_mpint_start [of 0 x] by (simp add: c_def)
  have enc: "x \<noteq> [] \<Longrightarrow> toSSHMPInt x = encodeString (m x)" for x
    using can [of x] by (simp add: toSSHMPInt_eq encodeString_eq m_def c_def canonical_def Let_def)
  have len: "length (c x) \<le> length x" "length (m x) \<le> length x + 1" for x by (simp_all add: c_def m_def) arith
  have sig: "signature = encodeString (m r) @ encodeString (m s)"
    using assms(1-3,7) enc ne by (simp add: ecdsaWebCryptoToSSH_def sshMPInt_eq concat_arrays_concat)
  have small: "length (m r) < 2 ^ 32" "length (m s) < 2 ^ 32" using len(2) [of r] len(2) [of s] assms(1,2,4) by simp_all
  have f1: "session_readBytes signature 0 = Inr (m r, 4 + length (m r))"
    using session_readBytes_field [of 0 "[]" "m r" "encodeString (m s)"] small by (simp add: sig)
  have f2: "session_readBytes signature (4 + length (m r)) = Inr (m s, length signature)"
    using session_readBytes_field [of "4 + length (m r)" "encodeString (m r)" "m s" "[]"] small by (simp add: sig)
  have t: "trim_integer (m r) = Inr (c r)" "trim_integer (m s) = Inr (c s)"
    unfolding m_def using trim_integer_mpint can val ne assms(5,6) by simp_all
  note al = right_aligned [OF can [OF ne(1)] val assms(1,3)] right_aligned [OF can [OF ne(2)] val assms(2,3)]
  have "u8_set (zeros (w * 2)) (c r) (w - length (c r)) = r @ zeros w"
    using u8_set_mid [of "w - length (c r)" "c r" "w * 2"] al(1,2) by (simp add: append_assoc [symmetric] del: append_assoc)
  moreover have "u8_set (r @ zeros w) (c s) (w * 2 - length (c s)) = r @ zeros (w - length (c s)) @ c s"
    using al(3) assms(1) by (simp add: u8_set_def zeros_def take_replicate min_def)
  ultimately show ?thesis using f1 f2 t al by (simp add: sshEcdsaToRaw_def)
qed

theorem host_ecdsa_roundtrip_witness:
  "sshEcdsaToRaw [0, 0, 0, 2, 0, 0x80, 0, 0, 0, 1, 5] 2 = Inr [0, 0x80, 0, 5]"
proof -
  have "ecdsaWebCryptoToSSH ([0, 0x80] @ [0, 5]) 2 = Inr [0, 0, 0, 2, 0, 0x80, 0, 0, 0, 1, 5]" by code_simp
  from host_ecdsa_roundtrip [OF _ _ _ _ _ _ this] show ?thesis by simp
qed

end
