(* ===== verification/Ssh_Channel.thy ===== *)
theory Ssh_Channel
  imports Ssh_Packet
begin

text \<open>
  An SSH connection-protocol channel, the class \<open>SSHChannel\<close> of
  \<^verbatim>\<open>worker/src/webssh/ssh/channel.ts\<close>: identifiers, the two flow-control windows, the EOF and
  close handshake, and the message builders. Every method is one definition; a method that throws
  returns the state it had reached. The lemmas show the wire format of each built message, the
  window accounting in both directions, and that data is only accepted while the stream is open.
\<close>

subsection \<open>Constants\<close>

definition SSH_MSG_CHANNEL_OPEN :: byte where "SSH_MSG_CHANNEL_OPEN = 90"
definition SSH_MSG_CHANNEL_WINDOW_ADJUST :: byte where "SSH_MSG_CHANNEL_WINDOW_ADJUST = 93"
definition SSH_MSG_CHANNEL_DATA :: byte where "SSH_MSG_CHANNEL_DATA = 94"
definition SSH_MSG_CHANNEL_EOF :: byte where "SSH_MSG_CHANNEL_EOF = 96"
definition SSH_MSG_CHANNEL_CLOSE :: byte where "SSH_MSG_CHANNEL_CLOSE = 97"
definition SSH_MSG_CHANNEL_REQUEST :: byte where "SSH_MSG_CHANNEL_REQUEST = 98"

lemmas msg_defs = SSH_MSG_CHANNEL_OPEN_def SSH_MSG_CHANNEL_WINDOW_ADJUST_def SSH_MSG_CHANNEL_DATA_def
  SSH_MSG_CHANNEL_EOF_def SSH_MSG_CHANNEL_CLOSE_def SSH_MSG_CHANNEL_REQUEST_def

definition SESSION_FIELD :: bytes where "SESSION_FIELD = encodeStringText ''session''"
definition PTY_REQ_FIELD :: bytes where "PTY_REQ_FIELD = encodeStringText ''pty-req''"
definition SHELL_FIELD :: bytes where "SHELL_FIELD = encodeStringText ''shell''"
definition EXEC_FIELD :: bytes where "EXEC_FIELD = encodeStringText ''exec''"
definition SUBSYSTEM_FIELD :: bytes where "SUBSYSTEM_FIELD = encodeStringText ''subsystem''"
definition WINDOW_CHANGE_FIELD :: bytes where "WINDOW_CHANGE_FIELD = encodeStringText ''window-change''"
definition EMPTY_TERMINAL_MODES_FIELD :: bytes where "EMPTY_TERMINAL_MODES_FIELD = encodeString [0]"

definition UINT32_MAX :: nat where "UINT32_MAX = 0xffffffff"
definition DEFAULT_WINDOW_SIZE :: nat where "DEFAULT_WINDOW_SIZE = 2 * 1024 * 1024"
definition DEFAULT_MAX_PACKET_SIZE :: nat where "DEFAULT_MAX_PACKET_SIZE = 32 * 1024"

subsection \<open>State\<close>

record SSHChannel =
  localChannelID :: nat
  remoteChannelID :: nat
  localWindowSize :: nat
  remoteWindowSize :: nat
  remoteMaxPacketSize :: nat
  consumedSinceWindowAdjust :: nat
  eofReceived :: bool
  eofSent :: bool
  closeSent :: bool
  closeReceived :: bool
  openConfirmed :: bool

definition new_SSHChannel :: SSHChannel where
  "new_SSHChannel =
     \<lparr>localChannelID = 0, remoteChannelID = 0, localWindowSize = DEFAULT_WINDOW_SIZE,
      remoteWindowSize = 0, remoteMaxPacketSize = DEFAULT_MAX_PACKET_SIZE,
      consumedSinceWindowAdjust = 0, eofReceived = False, eofSent = False, closeSent = False,
      closeReceived = False, openConfirmed = False\<rparr>"

datatype channel_error =
    ChannelNotOpen
  | MalformedOpenConfirmation | ConfirmationRecipient | DuplicateOpenConfirmation | ZeroMaxPacketSize
  | MalformedOpenFailure
  | InvalidExecCommand | InvalidSubsystemName
  | CloseAlreadySent | EofAlreadySent
  | MalformedWindowAdjust | WindowAdjustRecipient | InvalidWindowAdjust
  | MalformedChannelData | ChannelDataRecipient
  | MalformedExtendedData | ExtendedDataRecipient
  | MalformedMessage string | MessageRecipient string
  | DuplicateEof | DuplicateClose
  | InvalidThreshold
  | DataAfterEofOrClose | DataExceedsMaxPacket | DataExceedsWindow

type_synonym 'a channel_result = "SSHChannel \<times> (channel_error, 'a) result"

record ChannelDataChunk =
  chunk_source :: bytes
  chunk_sourceOffset :: nat
  chunk_bytesConsumed :: nat
  chunk_payloadLength :: nat

definition isClosed :: "SSHChannel \<Rightarrow> bool" where
  "isClosed ch \<longleftrightarrow> closeSent ch \<and> closeReceived ch"

definition getLocalChannelID :: "SSHChannel \<Rightarrow> nat" where
  "getLocalChannelID ch = localChannelID ch"

definition getRemoteChannelID :: "SSHChannel \<Rightarrow> (channel_error, nat) result" where
  "getRemoteChannelID ch = (if \<not> openConfirmed ch then Inl ChannelNotOpen else Inr (remoteChannelID ch))"

definition isOpen :: "SSHChannel \<Rightarrow> bool" where
  "isOpen ch \<longleftrightarrow> openConfirmed ch \<and> \<not> closeReceived ch"

definition hasSentClose :: "SSHChannel \<Rightarrow> bool" where
  "hasSentClose ch \<longleftrightarrow> closeSent ch"

subsection \<open>Opening\<close>

definition writeBytes :: "bytes \<Rightarrow> nat \<Rightarrow> bytes \<Rightarrow> bytes \<times> nat" where
  "writeBytes target offset src = (u8_set target src offset, offset + length src)"

definition buildOpenSession :: "SSHChannel \<Rightarrow> nat \<Rightarrow> SSHChannel \<times> bytes" where
  "buildOpenSession ch channelID =
     (let ch = ch\<lparr>localChannelID := channelID\<rparr>;
          payload = zeros (1 + length SESSION_FIELD + 12);
          payload = payload[0 := SSH_MSG_CHANNEL_OPEN];
          (payload, offset) = writeBytes payload 1 SESSION_FIELD;
          payload = writeUint32 payload offset (localChannelID ch);
          offset = offset + 4;
          payload = writeUint32 payload offset DEFAULT_WINDOW_SIZE;
          offset = offset + 4;
          payload = writeUint32 payload offset DEFAULT_MAX_PACKET_SIZE
      in (ch, payload))"

definition handleOpenConfirmation :: "SSHChannel \<Rightarrow> bytes \<Rightarrow> unit channel_result" where
  "handleOpenConfirmation ch payload =
     (if length payload \<noteq> 17 then (ch, Inl MalformedOpenConfirmation)
      else if readUint32 payload 1 \<noteq> localChannelID ch then (ch, Inl ConfirmationRecipient)
      else if openConfirmed ch then (ch, Inl DuplicateOpenConfirmation)
      else
        let ch = ch\<lparr>remoteChannelID := readUint32 payload 5\<rparr>;
            ch = ch\<lparr>remoteWindowSize := readUint32 payload 9\<rparr>;
            serverMaxPacket = readUint32 payload 13
        in if serverMaxPacket = 0 then (ch, Inl ZeroMaxPacketSize)
           else (ch\<lparr>remoteMaxPacketSize := serverMaxPacket, openConfirmed := True\<rparr>, Inr ()))"

fun skip_fields :: "nat \<Rightarrow> bytes \<Rightarrow> nat \<Rightarrow> (channel_error, nat) result" where
  "skip_fields 0 payload offset = Inr offset"
| "skip_fields (Suc n) payload offset =
     (if length payload < offset + 4 then Inl MalformedOpenFailure
      else let len = readUint32 payload offset; offset = offset + 4 in
      if length payload - offset < len then Inl MalformedOpenFailure
      else skip_fields n payload (offset + len))"

definition handleOpenFailure :: "SSHChannel \<Rightarrow> bytes \<Rightarrow> (channel_error, unit) result" where
  "handleOpenFailure ch payload =
     (if length payload < 17 \<or> readUint32 payload 1 \<noteq> localChannelID ch then Inl MalformedOpenFailure
      else (case skip_fields 2 payload 9 of
              Inl e \<Rightarrow> Inl e
            | Inr offset \<Rightarrow> if offset \<noteq> length payload then Inl MalformedOpenFailure else Inr ()))"

subsection \<open>Channel requests\<close>

definition buildPTYRequest :: "SSHChannel \<Rightarrow> nat \<Rightarrow> nat \<Rightarrow> string \<Rightarrow> bytes" where
  "buildPTYRequest ch cols rows terminal =
     (let terminalField = encodeStringText terminal;
          payload = zeros (1 + 4 + length PTY_REQ_FIELD + 1 + length terminalField + 16
                           + length EMPTY_TERMINAL_MODES_FIELD);
          payload = payload[0 := SSH_MSG_CHANNEL_REQUEST];
          payload = writeUint32 payload 1 (remoteChannelID ch);
          (payload, offset) = writeBytes payload 5 PTY_REQ_FIELD;
          payload = payload[offset := 1];
          (payload, offset) = writeBytes payload (offset + 1) terminalField;
          payload = writeUint32 payload offset cols;
          payload = writeUint32 payload (offset + 4) rows;
          payload = writeUint32 payload (offset + 8) 0;
          payload = writeUint32 payload (offset + 12) 0
      in fst (writeBytes payload (offset + 16) EMPTY_TERMINAL_MODES_FIELD))"

definition buildShellRequest :: "SSHChannel \<Rightarrow> bytes" where
  "buildShellRequest ch =
     (let payload = zeros (1 + 4 + length SHELL_FIELD + 1);
          payload = payload[0 := SSH_MSG_CHANNEL_REQUEST];
          payload = writeUint32 payload 1 (remoteChannelID ch);
          (payload, offset) = writeBytes payload 5 SHELL_FIELD
      in payload[offset := 1])"

text \<open>\<open>[\0\r\n]\<close>\<close>

definition exec_bad_char :: "char \<Rightarrow> bool" where
  "exec_bad_char c \<longleftrightarrow> (of_char c :: nat) \<in> {0, 13, 10}"

definition buildNamedRequest :: "bytes \<Rightarrow> bytes \<Rightarrow> nat \<Rightarrow> bytes" where
  "buildNamedRequest nameField argField remote =
     (let payload = zeros (1 + 4 + length nameField + 1 + length argField);
          payload = payload[0 := SSH_MSG_CHANNEL_REQUEST];
          payload = writeUint32 payload 1 remote;
          (payload, offset) = writeBytes payload 5 nameField;
          payload = payload[offset := 1]
      in fst (writeBytes payload (offset + 1) argField))"

definition buildExecRequest :: "SSHChannel \<Rightarrow> string \<Rightarrow> (channel_error, bytes) result" where
  "buildExecRequest ch command =
     (let commandBytes = utf8_encode command in
      if length commandBytes = 0 \<or> 4096 < length commandBytes \<or> list_ex exec_bad_char command
      then Inl InvalidExecCommand
      else (case getRemoteChannelID ch of
              Inl e \<Rightarrow> Inl e
            | Inr remote \<Rightarrow> Inr (buildNamedRequest EXEC_FIELD (encodeString commandBytes) remote)))"

definition buildSubsystemRequest :: "SSHChannel \<Rightarrow> string \<Rightarrow> (channel_error, bytes) result" where
  "buildSubsystemRequest ch subsystem =
     (if \<not> (1 \<le> length subsystem \<and> length subsystem \<le> 64 \<and> list_all name_char subsystem)
      then Inl InvalidSubsystemName
      else (case getRemoteChannelID ch of
              Inl e \<Rightarrow> Inl e
            | Inr remote \<Rightarrow> Inr (buildNamedRequest SUBSYSTEM_FIELD (encodeStringText subsystem) remote)))"

definition buildWindowChange :: "SSHChannel \<Rightarrow> nat \<Rightarrow> nat \<Rightarrow> bytes" where
  "buildWindowChange ch cols rows =
     (let payload = zeros (1 + 4 + length WINDOW_CHANGE_FIELD + 1 + 16);
          payload = payload[0 := SSH_MSG_CHANNEL_REQUEST];
          payload = writeUint32 payload 1 (remoteChannelID ch);
          (payload, offset) = writeBytes payload 5 WINDOW_CHANGE_FIELD;
          payload = payload[offset := 0];
          payload = writeUint32 payload (offset + 1) cols;
          payload = writeUint32 payload (offset + 5) rows;
          payload = writeUint32 payload (offset + 9) 0
      in writeUint32 payload (offset + 13) 0)"

subsection \<open>EOF and close\<close>

definition recipient_message :: "byte \<Rightarrow> nat \<Rightarrow> bytes" where
  "recipient_message msg channel = writeUint32 ((zeros 5)[0 := msg]) 1 channel"

definition buildClose :: "SSHChannel \<Rightarrow> bytes channel_result" where
  "buildClose ch =
     (if closeSent ch then (ch, Inl CloseAlreadySent)
      else let ch = ch\<lparr>closeSent := True\<rparr> in
        (ch, Inr (recipient_message SSH_MSG_CHANNEL_CLOSE (remoteChannelID ch))))"

definition buildEof :: "SSHChannel \<Rightarrow> bytes channel_result" where
  "buildEof ch =
     (if eofSent ch then (ch, Inl EofAlreadySent)
      else let ch = ch\<lparr>eofSent := True\<rparr> in
        (case getRemoteChannelID ch of
           Inl e \<Rightarrow> (ch, Inl e)
         | Inr remote \<Rightarrow> (ch, Inr (recipient_message SSH_MSG_CHANNEL_EOF remote))))"

definition validateRecipientOnlyMessage :: "SSHChannel \<Rightarrow> bytes \<Rightarrow> string \<Rightarrow> (channel_error, unit) result" where
  "validateRecipientOnlyMessage ch payload label =
     (if length payload \<noteq> 5 then Inl (MalformedMessage label)
      else if readUint32 payload 1 \<noteq> localChannelID ch then Inl (MessageRecipient label)
      else Inr ())"

definition handleRequestResult :: "SSHChannel \<Rightarrow> bytes \<Rightarrow> (channel_error, unit) result" where
  "handleRequestResult ch payload = validateRecipientOnlyMessage ch payload ''channel request result''"

definition handleEof :: "SSHChannel \<Rightarrow> bytes \<Rightarrow> unit channel_result" where
  "handleEof ch payload =
     (case validateRecipientOnlyMessage ch payload ''channel EOF'' of
        Inl e \<Rightarrow> (ch, Inl e)
      | Inr _ \<Rightarrow> if eofReceived ch then (ch, Inl DuplicateEof) else (ch\<lparr>eofReceived := True\<rparr>, Inr ()))"

definition handleClose :: "SSHChannel \<Rightarrow> bytes \<Rightarrow> unit channel_result" where
  "handleClose ch payload =
     (case validateRecipientOnlyMessage ch payload ''channel close'' of
        Inl e \<Rightarrow> (ch, Inl e)
      | Inr _ \<Rightarrow> if closeReceived ch then (ch, Inl DuplicateClose) else (ch\<lparr>closeReceived := True\<rparr>, Inr ()))"

subsection \<open>Data and windows\<close>

definition takeChannelDataChunk :: "SSHChannel \<Rightarrow> bytes \<Rightarrow> nat \<Rightarrow> SSHChannel \<times> ChannelDataChunk option" where
  "takeChannelDataChunk ch data offset =
     (let bytesAvailable = length data - offset in
      if bytesAvailable = 0 then (ch, None)
      else let bytesToSend = min (min bytesAvailable (remoteMaxPacketSize ch)) (remoteWindowSize ch) in
      if bytesToSend = 0 then (ch, None)
      else (ch\<lparr>remoteWindowSize := remoteWindowSize ch - bytesToSend\<rparr>,
            Some \<lparr>chunk_source = data, chunk_sourceOffset = offset, chunk_bytesConsumed = bytesToSend,
                  chunk_payloadLength = 9 + bytesToSend\<rparr>))"

definition writeChannelDataPayload :: "SSHChannel \<Rightarrow> bytes \<Rightarrow> nat \<Rightarrow> bytes \<Rightarrow> nat \<Rightarrow> nat \<Rightarrow> bytes" where
  "writeChannelDataPayload ch target offset src srcOffset srcLength =
     (let target = target[offset := SSH_MSG_CHANNEL_DATA];
          target = writeUint32 target (offset + 1) (remoteChannelID ch);
          target = writeUint32 target (offset + 5) srcLength
      in u8_set target (subarray src srcOffset (srcOffset + srcLength)) (offset + 9))"

definition handleWindowAdjust :: "SSHChannel \<Rightarrow> bytes \<Rightarrow> nat channel_result" where
  "handleWindowAdjust ch payload =
     (if length payload \<noteq> 9 then (ch, Inl MalformedWindowAdjust)
      else if readUint32 payload 1 \<noteq> localChannelID ch then (ch, Inl WindowAdjustRecipient)
      else let bytesToAdd = readUint32 payload 5 in
      if bytesToAdd = 0 \<or> int UINT32_MAX - int (remoteWindowSize ch) < int bytesToAdd
      then (ch, Inl InvalidWindowAdjust)
      else (ch\<lparr>remoteWindowSize := remoteWindowSize ch + bytesToAdd\<rparr>, Inr bytesToAdd))"

definition consumeLocalWindow :: "SSHChannel \<Rightarrow> nat \<Rightarrow> unit channel_result" where
  "consumeLocalWindow ch n =
     (if eofReceived ch \<or> closeReceived ch then (ch, Inl DataAfterEofOrClose)
      else if DEFAULT_MAX_PACKET_SIZE < n then (ch, Inl DataExceedsMaxPacket)
      else if localWindowSize ch < n then (ch, Inl DataExceedsWindow)
      else (ch\<lparr>localWindowSize := localWindowSize ch - n,
               consumedSinceWindowAdjust := consumedSinceWindowAdjust ch + n\<rparr>, Inr ()))"

definition handleChannelData :: "SSHChannel \<Rightarrow> bytes \<Rightarrow> bytes channel_result" where
  "handleChannelData ch payload =
     (if length payload < 9 then (ch, Inl MalformedChannelData)
      else if readUint32 payload 1 \<noteq> localChannelID ch then (ch, Inl ChannelDataRecipient)
      else let dataLen = readUint32 payload 5 in
      if dataLen \<noteq> length payload - 9 then (ch, Inl MalformedChannelData)
      else (case consumeLocalWindow ch dataLen of
              (ch, Inl e) \<Rightarrow> (ch, Inl e)
            | (ch, Inr _) \<Rightarrow> (ch, Inr (subarray payload 9 (9 + dataLen)))))"

definition handleExtendedData :: "SSHChannel \<Rightarrow> bytes \<Rightarrow> bytes channel_result" where
  "handleExtendedData ch payload =
     (if length payload < 13 then (ch, Inl MalformedExtendedData)
      else if readUint32 payload 1 \<noteq> localChannelID ch then (ch, Inl ExtendedDataRecipient)
      else let dataLen = readUint32 payload 9 in
      if dataLen \<noteq> length payload - 13 then (ch, Inl MalformedExtendedData)
      else (case consumeLocalWindow ch dataLen of
              (ch, Inl e) \<Rightarrow> (ch, Inl e)
            | (ch, Inr _) \<Rightarrow> (ch, Inr (drop 13 payload))))"

definition buildWindowAdjust :: "SSHChannel \<Rightarrow> nat \<Rightarrow> bytes" where
  "buildWindowAdjust ch bytesToAdd =
     (let payload = (zeros 9)[0 := SSH_MSG_CHANNEL_WINDOW_ADJUST];
          payload = writeUint32 payload 1 (remoteChannelID ch)
      in writeUint32 payload 5 bytesToAdd)"

definition takeLocalWindowAdjustment :: "SSHChannel \<Rightarrow> nat \<Rightarrow> nat option channel_result" where
  "takeLocalWindowAdjustment ch threshold =
     (if threshold < 1 then (ch, Inl InvalidThreshold)
      else if consumedSinceWindowAdjust ch < threshold then (ch, Inr None)
      else let amount = consumedSinceWindowAdjust ch in
        (ch\<lparr>consumedSinceWindowAdjust := 0, localWindowSize := localWindowSize ch + amount\<rparr>,
         Inr (Some amount)))"

subsection \<open>Wire format of the built messages\<close>

text \<open>The rules that follow a buffer from its allocation to the last write: the filled prefix
  grows on the left and the zeroed rest shrinks on the right.\<close>

lemmas fill_simps = buf_simps writeBytes_def Let_def prod.case fst_conv length_append length_be32
  list.size add.assoc

lemma buildOpenSession_wire:
  "buildOpenSession ch channelID =
     (ch\<lparr>localChannelID := channelID\<rparr>,
      [90] @ SESSION_FIELD @ be32 channelID @ be32 DEFAULT_WINDOW_SIZE @ be32 DEFAULT_MAX_PACKET_SIZE)"
proof -
  have "snd (buildOpenSession ch channelID) =
      (((([90] @ SESSION_FIELD) @ be32 channelID) @ be32 DEFAULT_WINDOW_SIZE) @ be32 DEFAULT_MAX_PACKET_SIZE) @ zeros 0"
    by (simp add: buildOpenSession_def fill_simps msg_defs del: append_assoc append_Cons append_Nil zeros_0)
  then show ?thesis by (simp add: buildOpenSession_def writeBytes_def Let_def)
qed

lemma buildPTYRequest_wire:
  "buildPTYRequest ch cols rows terminal =
     [98] @ be32 (remoteChannelID ch) @ PTY_REQ_FIELD @ [1] @ encodeStringText terminal
     @ be32 cols @ be32 rows @ be32 0 @ be32 0 @ EMPTY_TERMINAL_MODES_FIELD"
proof -
  have "buildPTYRequest ch cols rows terminal =
      ((((((((([98] @ be32 (remoteChannelID ch)) @ PTY_REQ_FIELD) @ [1]) @ encodeStringText terminal)
       @ be32 cols) @ be32 rows) @ be32 0) @ be32 0) @ EMPTY_TERMINAL_MODES_FIELD) @ zeros 0"
    by (simp add: buildPTYRequest_def fill_simps msg_defs del: append_assoc append_Cons append_Nil zeros_0)
  then show ?thesis by simp
qed

lemma buildShellRequest_wire:
  "buildShellRequest ch = [98] @ be32 (remoteChannelID ch) @ SHELL_FIELD @ [1]"
proof -
  have "buildShellRequest ch = ((([98] @ be32 (remoteChannelID ch)) @ SHELL_FIELD) @ [1]) @ zeros 0"
    by (simp add: buildShellRequest_def fill_simps msg_defs del: append_assoc append_Cons append_Nil zeros_0)
  then show ?thesis by simp
qed

lemma buildNamedRequest_wire:
  "buildNamedRequest nameField argField remote = [98] @ be32 remote @ nameField @ [1] @ argField"
proof -
  have "buildNamedRequest nameField argField remote =
      (((([98] @ be32 remote) @ nameField) @ [1]) @ argField) @ zeros 0"
    by (simp add: buildNamedRequest_def fill_simps msg_defs del: append_assoc append_Cons append_Nil zeros_0)
  then show ?thesis by simp
qed

lemma buildWindowChange_wire:
  "buildWindowChange ch cols rows =
     [98] @ be32 (remoteChannelID ch) @ WINDOW_CHANGE_FIELD @ [0] @ be32 cols @ be32 rows @ be32 0 @ be32 0"
proof -
  have "buildWindowChange ch cols rows =
      (((((([98] @ be32 (remoteChannelID ch)) @ WINDOW_CHANGE_FIELD) @ [0]) @ be32 cols) @ be32 rows)
       @ be32 0) @ be32 0 @ zeros 0"
    by (simp add: buildWindowChange_def fill_simps msg_defs del: append_assoc append_Cons append_Nil zeros_0)
  then show ?thesis by simp
qed

lemma recipient_message_wire: "recipient_message msg channel = [msg] @ be32 channel"
proof -
  have "recipient_message msg channel = ([msg] @ be32 channel) @ zeros 0"
    by (simp add: recipient_message_def fill_simps del: append_assoc append_Cons append_Nil zeros_0)
  then show ?thesis by simp
qed

lemma buildWindowAdjust_wire: "buildWindowAdjust ch n = [93] @ be32 (remoteChannelID ch) @ be32 n"
proof -
  have "buildWindowAdjust ch n = (([93] @ be32 (remoteChannelID ch)) @ be32 n) @ zeros 0"
    by (simp add: buildWindowAdjust_def fill_simps msg_defs del: append_assoc append_Cons append_Nil zeros_0)
  then show ?thesis by simp
qed

text \<open>The channel-data writer fills a packet in place, as the packet builder expects.\<close>

lemma writeChannelDataPayload_writes:
  assumes "off + n \<le> length src"
  shows "writes_payload (\<lambda>target offset. writeChannelDataPayload ch target offset src off n)
           ([94] @ be32 (remoteChannelID ch) @ be32 n @ subarray src off (off + n))"
  unfolding writes_payload_def
proof (intro allI impI)
  fix pre :: bytes and k :: nat
  let ?d = "[94] @ be32 (remoteChannelID ch) @ be32 n @ subarray src off (off + n)"
  have l: "length (subarray src off (off + n)) = n" using assms by (simp add: length_subarray)
  assume "length ?d \<le> k"
  then have k: "9 + n \<le> k" by (simp add: l)
  have "writeChannelDataPayload ch (pre @ zeros k) (length pre) src off n =
      ((((pre @ [94]) @ be32 (remoteChannelID ch)) @ be32 n) @ subarray src off (off + n)) @ zeros (k - 9 - n)"
    using k by (simp add: writeChannelDataPayload_def fill_simps msg_defs l
        del: append_assoc append_Cons append_Nil zeros_0)
  then show "writeChannelDataPayload ch (pre @ zeros k) (length pre) src off n = (pre @ ?d) @ zeros (k - length ?d)"
    by (simp add: l)
qed

subsection \<open>Runs of a channel\<close>

text \<open>One call of a method that may change the channel, with what it returned. A throw is an event
  too: the method may have changed the state before it.\<close>

datatype channel_event =
    OpenSent nat
  | Confirmation "(channel_error, unit) result"
  | CloseSent "(channel_error, bytes) result"
  | EofSent "(channel_error, bytes) result"
  | ChunkTaken "ChannelDataChunk option"
  | WindowGrant "(channel_error, nat) result"
  | DataReceived "(channel_error, bytes) result"
  | ExtendedReceived "(channel_error, bytes) result"
  | EofReceived "(channel_error, unit) result"
  | CloseReceived "(channel_error, unit) result"
  | WindowReturned "(channel_error, nat option) result"

inductive channel_step :: "SSHChannel \<Rightarrow> channel_event \<Rightarrow> SSHChannel \<Rightarrow> bool" where
  "buildOpenSession ch channelID = (ch', m) \<Longrightarrow> channel_step ch (OpenSent channelID) ch'"
| "handleOpenConfirmation ch payload = (ch', r) \<Longrightarrow> channel_step ch (Confirmation r) ch'"
| "buildClose ch = (ch', r) \<Longrightarrow> channel_step ch (CloseSent r) ch'"
| "buildEof ch = (ch', r) \<Longrightarrow> channel_step ch (EofSent r) ch'"
| "takeChannelDataChunk ch data offset = (ch', r) \<Longrightarrow> channel_step ch (ChunkTaken r) ch'"
| "handleWindowAdjust ch payload = (ch', r) \<Longrightarrow> channel_step ch (WindowGrant r) ch'"
| "handleChannelData ch payload = (ch', r) \<Longrightarrow> channel_step ch (DataReceived r) ch'"
| "handleExtendedData ch payload = (ch', r) \<Longrightarrow> channel_step ch (ExtendedReceived r) ch'"
| "handleEof ch payload = (ch', r) \<Longrightarrow> channel_step ch (EofReceived r) ch'"
| "handleClose ch payload = (ch', r) \<Longrightarrow> channel_step ch (CloseReceived r) ch'"
| "takeLocalWindowAdjustment ch threshold = (ch', r) \<Longrightarrow> channel_step ch (WindowReturned r) ch'"

inductive_cases channel_stepE: "channel_step ch e ch'"

inductive channel_run :: "SSHChannel \<Rightarrow> channel_event list \<Rightarrow> SSHChannel \<Rightarrow> bool" where
  run_start: "channel_run ch [] ch"
| run_step: "channel_run ch es ch' \<Longrightarrow> channel_step ch' e ch'' \<Longrightarrow> channel_run ch (es @ [e]) ch''"

definition channel_inv :: "SSHChannel \<Rightarrow> bool" where
  "channel_inv ch \<longleftrightarrow>
     localWindowSize ch + consumedSinceWindowAdjust ch = DEFAULT_WINDOW_SIZE
     \<and> remoteWindowSize ch \<le> UINT32_MAX
     \<and> 1 \<le> remoteMaxPacketSize ch \<and> remoteMaxPacketSize ch \<le> UINT32_MAX"

lemmas channel_ops = buildOpenSession_wire handleOpenConfirmation_def buildClose_def buildEof_def
  takeChannelDataChunk_def handleWindowAdjust_def handleChannelData_def handleExtendedData_def
  consumeLocalWindow_def handleEof_def handleClose_def takeLocalWindowAdjustment_def Let_def

lemma readUint32_le_max: "readUint32 d off \<le> UINT32_MAX"
  using readUint32_bound [of d off] by (simp add: UINT32_MAX_def)

lemma new_SSHChannel_inv: "channel_inv new_SSHChannel"
  by (simp add: channel_inv_def new_SSHChannel_def UINT32_MAX_def DEFAULT_MAX_PACKET_SIZE_def)

lemma channel_step_inv: "channel_step ch e ch' \<Longrightarrow> channel_inv ch \<Longrightarrow> channel_inv ch'"
  by (erule channel_stepE)
    (auto simp: channel_ops channel_inv_def readUint32_le_max Suc_le_eq split: if_splits sum.splits prod.splits)

lemma channel_run_inv: "channel_run ch es ch' \<Longrightarrow> channel_inv ch \<Longrightarrow> channel_inv ch'"
  by (induction rule: channel_run.induct) (auto dest: channel_step_inv)

subsection \<open>Accounting along a run\<close>

fun sent_by :: "channel_event \<Rightarrow> nat" where
  "sent_by (ChunkTaken (Some c)) = chunk_bytesConsumed c"
| "sent_by _ = 0"

fun granted_by :: "channel_event \<Rightarrow> nat" where
  "granted_by (WindowGrant (Inr n)) = n"
| "granted_by _ = 0"

fun received_by :: "channel_event \<Rightarrow> nat" where
  "received_by (DataReceived (Inr d)) = length d"
| "received_by (ExtendedReceived (Inr d)) = length d"
| "received_by _ = 0"

fun returned_by :: "channel_event \<Rightarrow> nat" where
  "returned_by (WindowReturned (Inr (Some n))) = n"
| "returned_by _ = 0"

definition total :: "(channel_event \<Rightarrow> nat) \<Rightarrow> channel_event list \<Rightarrow> nat" where
  "total f es = sum_list (map f es)"

lemma total_simps [simp]: "total f [] = 0" "total f (es @ [e]) = total f es + f e"
  by (simp_all add: total_def)

definition accepted_data :: "channel_event \<Rightarrow> bool" where
  "accepted_data e \<longleftrightarrow> (\<exists>d. e = DataReceived (Inr d) \<or> e = ExtendedReceived (Inr d))"

definition stream_end :: "channel_event \<Rightarrow> bool" where
  "stream_end e \<longleftrightarrow> e = EofReceived (Inr ()) \<or> e = CloseReceived (Inr ())"

lemma length_ext_data:
  "length payload - 13 = n \<Longrightarrow> 13 \<le> length payload \<Longrightarrow> length (drop 13 payload) = n"
  by simp

lemma step_received:
  "channel_step ch e ch' \<Longrightarrow> received_by e + localWindowSize ch' = localWindowSize ch + returned_by e"
  by (erule channel_stepE)
    (auto simp: channel_ops length_subarray split: if_splits sum.splits prod.splits)

lemma step_sent:
  "channel_step ch e ch' \<Longrightarrow> openConfirmed ch \<Longrightarrow>
     sent_by e + remoteWindowSize ch' = remoteWindowSize ch + granted_by e \<and> openConfirmed ch'"
  by (erule channel_stepE)
    (auto simp: channel_ops split: if_splits sum.splits prod.splits)

lemma step_flags:
  assumes "channel_step ch e ch'"
  shows "(eofReceived ch' \<or> closeReceived ch') = (eofReceived ch \<or> closeReceived ch \<or> stream_end e)"
    and "accepted_data e \<Longrightarrow> \<not> eofReceived ch \<and> \<not> closeReceived ch"
  using assms
  by (auto elim!: channel_stepE simp: channel_ops accepted_data_def stream_end_def getRemoteChannelID_def
      split: if_splits sum.splits prod.splits)

lemma run_received:
  "channel_run ch es ch' \<Longrightarrow> total received_by es + localWindowSize ch' = localWindowSize ch + total returned_by es"
  by (induction rule: channel_run.induct) (auto dest: step_received)

lemma run_sent:
  "channel_run ch es ch' \<Longrightarrow> openConfirmed ch \<Longrightarrow>
     total sent_by es + remoteWindowSize ch' = remoteWindowSize ch + total granted_by es \<and> openConfirmed ch'"
  by (induction rule: channel_run.induct) (auto dest: step_sent)

lemma run_ended:
  "channel_run ch es ch' \<Longrightarrow>
     (eofReceived ch' \<or> closeReceived ch') = (eofReceived ch \<or> closeReceived ch \<or> (\<exists>e \<in> set es. stream_end e))"
  by (induction rule: channel_run.induct) (auto dest: step_flags(1))

lemma run_snocE:
  assumes "channel_run ch (es @ [e]) ch'"
  obtains ch1 where "channel_run ch es ch1" "channel_step ch1 e ch'"
  using assms by (cases rule: channel_run.cases) auto

lemma run_appendE:
  assumes "channel_run ch (es @ fs) ch'"
  obtains ch1 where "channel_run ch es ch1" "channel_run ch1 fs ch'"
  using assms
proof (induction fs arbitrary: ch' thesis rule: rev_induct)
  case Nil
  then show ?case using run_start by simp
next
  case (snoc f fs)
  then obtain ch2 where "channel_run ch (es @ fs) ch2" "channel_step ch2 f ch'"
    by (metis append_assoc run_snocE)
  with snoc.IH snoc.prems(1) run_step show ?case by metis
qed

lemma run_no_data_after_end:
  assumes "channel_run ch es ch'" "i < j" "j < length es" "stream_end (es ! i)"
  shows "\<not> accepted_data (es ! j)"
proof
  assume data: "accepted_data (es ! j)"
  have "channel_run ch (take (Suc j) es @ drop (Suc j) es) ch'" using assms(1) by simp
  then obtain ch1 where "channel_run ch (take (Suc j) es) ch1" by (rule run_appendE)
  then have "channel_run ch (take j es @ [es ! j]) ch1" using assms(3) by (simp add: take_Suc_conv_app_nth)
  then obtain ch2 where r: "channel_run ch (take j es) ch2" "channel_step ch2 (es ! j) ch1" by (rule run_snocE)
  have "es ! i \<in> set (take j es)" using assms(2,3) by (auto simp: in_set_conv_nth)
  with run_ended [OF r(1)] step_flags(2) [OF r(2) data] assms(4) show False by blast
qed

text \<open>A flag that an event sets, and that must be clear for the event to succeed, is set at most
  once.\<close>

lemma at_most_once:
  assumes step: "\<And>ch e ch'. channel_step ch e ch' \<Longrightarrow> (flag ch \<or> P e \<longrightarrow> flag ch') \<and> (P e \<longrightarrow> \<not> flag ch)"
    and run: "channel_run ch es ch'"
  shows "length (filter P es) \<le> 1"
proof -
  have "length (filter P es) \<le> (if flag ch' then 1 else 0)
    \<and> (flag ch \<longrightarrow> filter P es = [] \<and> flag ch')"
    using run by (induction rule: channel_run.induct) (auto dest!: step split: if_splits)
  then show ?thesis by (auto split: if_splits)
qed

fun eof_sent :: "channel_event \<Rightarrow> bool" where
  "eof_sent (EofSent (Inr m)) = True" | "eof_sent _ = False"

fun close_sent :: "channel_event \<Rightarrow> bool" where
  "close_sent (CloseSent (Inr m)) = True" | "close_sent _ = False"

fun eof_received :: "channel_event \<Rightarrow> bool" where
  "eof_received (EofReceived (Inr u)) = True" | "eof_received _ = False"

fun close_received :: "channel_event \<Rightarrow> bool" where
  "close_received (CloseReceived (Inr u)) = True" | "close_received _ = False"

lemma step_handshake:
  assumes "channel_step ch e ch'"
  shows "(eofSent ch \<or> eof_sent e \<longrightarrow> eofSent ch') \<and> (eof_sent e \<longrightarrow> \<not> eofSent ch)"
    and "(closeSent ch \<or> close_sent e \<longrightarrow> closeSent ch') \<and> (close_sent e \<longrightarrow> \<not> closeSent ch)"
    and "(eofReceived ch \<or> eof_received e \<longrightarrow> eofReceived ch') \<and> (eof_received e \<longrightarrow> \<not> eofReceived ch)"
    and "(closeReceived ch \<or> close_received e \<longrightarrow> closeReceived ch') \<and> (close_received e \<longrightarrow> \<not> closeReceived ch)"
  using assms
  by (auto elim!: channel_stepE simp: channel_ops getRemoteChannelID_def split: if_splits sum.splits prod.splits)

subsection \<open>Properties\<close>

text \<open>C21: Receive window. Along every run of a new channel, calls that throw included, the bytes
  accepted never exceed the initial window plus what was returned to the peer: the local window, the
  bytes consumed since the last adjustment and the totals always add up, and nothing is returned
  that was not received.\<close>

theorem receive_window_accounting:
  assumes "channel_run new_SSHChannel es ch"
  shows "total received_by es + localWindowSize ch = DEFAULT_WINDOW_SIZE + total returned_by es
    \<and> localWindowSize ch + consumedSinceWindowAdjust ch = DEFAULT_WINDOW_SIZE
    \<and> total received_by es = total returned_by es + consumedSinceWindowAdjust ch
    \<and> remoteWindowSize ch \<le> UINT32_MAX \<and> 1 \<le> remoteMaxPacketSize ch"
  using run_received [OF assms] channel_run_inv [OF assms new_SSHChannel_inv]
  by (auto simp: channel_inv_def new_SSHChannel_def)

theorem receive_window_accounting_witness:
  "\<exists>ch. channel_run new_SSHChannel [DataReceived (Inr [7, 8])] ch
     \<and> localWindowSize ch + 2 = DEFAULT_WINDOW_SIZE \<and> consumedSinceWindowAdjust ch = 2"
proof -
  let ?r = "handleChannelData new_SSHChannel [94, 0, 0, 0, 0, 0, 0, 0, 2, 7, 8]"
  have "snd ?r = Inr [7, 8]"
    by (simp add: handleChannelData_def consumeLocalWindow_def new_SSHChannel_def readUint32_def u8_at_def be32_word_def
        DEFAULT_WINDOW_SIZE_def DEFAULT_MAX_PACKET_SIZE_def subarray_def)
  then have "channel_step new_SSHChannel (DataReceived (Inr [7, 8])) (fst ?r)"
    by (metis channel_step.intros(7) prod.collapse)
  then have run: "channel_run new_SSHChannel [DataReceived (Inr [7, 8])] (fst ?r)"
    using run_step [OF run_start] by fastforce
  have "total received_by [DataReceived (Inr [7, 8])] = 2" "total returned_by [DataReceived (Inr [7, 8])] = 0"
    by (simp_all add: total_def)
  with receive_window_accounting [OF run] run show ?thesis by auto
qed

text \<open>C22: Send window. Once the channel is open, the bytes handed to the transport plus the remaining
  window equal the window at opening plus everything the peer has granted since: the sender can
  never exceed the peer's receive window.\<close>

theorem send_window_accounting:
  assumes "openConfirmed ch0" "channel_run ch0 es ch"
  shows "total sent_by es + remoteWindowSize ch = remoteWindowSize ch0 + total granted_by es
    \<and> total sent_by es \<le> remoteWindowSize ch0 + total granted_by es \<and> openConfirmed ch"
  using run_sent [OF assms(2,1)] by auto

theorem send_window_accounting_witness:
  "\<exists>ch0 es ch. openConfirmed ch0 \<and> remoteWindowSize ch0 = 3 \<and> channel_run ch0 es ch \<and> total sent_by es = 3
     \<and> remoteWindowSize ch = 0"
proof -
  let ?ch0 = "new_SSHChannel\<lparr>openConfirmed := True, remoteWindowSize := 3\<rparr>"
  let ?r = "takeChannelDataChunk ?ch0 [1, 2, 3, 4, 5] 0"
  have "channel_step ?ch0 (ChunkTaken (snd ?r)) (fst ?r)"
    by (rule channel_step.intros(5)) (rule prod.collapse [symmetric])
  then have run: "channel_run ?ch0 [ChunkTaken (snd ?r)] (fst ?r)"
    using run_step [OF run_start] by fastforce
  have "total sent_by [ChunkTaken (snd ?r)] = 3" "total granted_by [ChunkTaken (snd ?r)] = 0"
    by (simp_all add: total_def takeChannelDataChunk_def Let_def new_SSHChannel_def DEFAULT_MAX_PACKET_SIZE_def)
  with send_window_accounting [OF _ run] have "remoteWindowSize (fst ?r) = 0" by (simp add: new_SSHChannel_def)
  with run \<open>total sent_by [ChunkTaken (snd ?r)] = 3\<close> show ?thesis
    by (intro exI [of _ ?ch0] exI [of _ "[ChunkTaken (snd ?r)]"] exI [of _ "fst ?r"]) simp
qed

text \<open>C23: Stream termination. In every run of a new channel EOF and CLOSE are each sent at most once
  and accepted at most once, and no data or extended data is accepted after the peer's EOF or CLOSE.\<close>

theorem stream_termination:
  assumes "channel_run new_SSHChannel es ch"
  shows "length (filter eof_sent es) \<le> 1 \<and> length (filter close_sent es) \<le> 1
    \<and> length (filter eof_received es) \<le> 1 \<and> length (filter close_received es) \<le> 1
    \<and> (\<forall>i j. i < j \<longrightarrow> j < length es \<longrightarrow> stream_end (es ! i) \<longrightarrow> \<not> accepted_data (es ! j))"
  using at_most_once [of eofSent eof_sent, OF step_handshake(1) assms]
    at_most_once [of closeSent close_sent, OF step_handshake(2) assms]
    at_most_once [of eofReceived eof_received, OF step_handshake(3) assms]
    at_most_once [of closeReceived close_received, OF step_handshake(4) assms]
    run_no_data_after_end [OF assms]
  by blast

theorem stream_termination_witness:
  "\<exists>ch. channel_run new_SSHChannel [CloseSent (Inr [97, 0, 0, 0, 0]), CloseSent (Inl CloseAlreadySent)] ch
     \<and> length (filter close_sent [CloseSent (Inr [97, 0, 0, 0, 0]), CloseSent (Inl CloseAlreadySent)]) \<le> 1"
proof -
  let ?c1 = "new_SSHChannel\<lparr>closeSent := True\<rparr>"
  have "buildClose new_SSHChannel = (?c1, Inr [97, 0, 0, 0, 0])" "buildClose ?c1 = (?c1, Inl CloseAlreadySent)"
    by (simp_all add: buildClose_def recipient_message_wire new_SSHChannel_def be32_def msg_defs)
  then have "channel_run new_SSHChannel [CloseSent (Inr [97, 0, 0, 0, 0]), CloseSent (Inl CloseAlreadySent)] ?c1"
    using run_step [OF run_step [OF run_start channel_step.intros(3)] channel_step.intros(3)] by fastforce
  from stream_termination [OF this] this show ?thesis by blast
qed

text \<open>C24: Channel data between two peers. What the sender's chunk writer puts into a packet, the
  receiver with the matching channel number accepts as exactly the same bytes and charges to its
  window, whenever its stream is open and the chunk fits its packet limit and window.\<close>

theorem channel_data_roundtrip:
  assumes "remoteChannelID a = localChannelID b" "localChannelID b < 2 ^ 32"
    and "off + n \<le> length src" "n \<le> DEFAULT_MAX_PACKET_SIZE" "n \<le> localWindowSize b"
    and "\<not> eofReceived b" "\<not> closeReceived b"
  shows "handleChannelData b (writeChannelDataPayload a (zeros (9 + n)) 0 src off n)
       = (b\<lparr>localWindowSize := localWindowSize b - n,
            consumedSinceWindowAdjust := consumedSinceWindowAdjust b + n\<rparr>, Inr (take n (drop off src)))"
proof -
  let ?d = "subarray src off (off + n)"
  let ?m = "[94] @ be32 (remoteChannelID a) @ be32 n @ ?d"
  have l: "length ?d = n" using assms(3) by (simp add: length_subarray)
  have k: "length ?m \<le> 9 + n" by (simp add: l)
  have w: "writeChannelDataPayload a (zeros (9 + n)) 0 src off n = ?m"
    using writeChannelDataPayload_writes [OF assms(3), of a, unfolded writes_payload_def, rule_format, OF k, of "[]"]
    by (simp add: l)
  have nb: "n mod 2 ^ 32 = n" using assms(4) by (simp add: DEFAULT_MAX_PACKET_SIZE_def)
  have r1: "readUint32 ?m 1 = localChannelID b"
    using readUint32_be32 [of 1 "[94]" "remoteChannelID a" "be32 n @ ?d"] assms(1,2) by simp
  have r5: "readUint32 ?m 5 = n"
    using readUint32_be32 [of 5 "[94] @ be32 (remoteChannelID a)" n ?d] nb by simp
  have sub: "subarray ?m 9 (9 + n) = take n (drop off src)"
    by (simp add: subarray_def)
  show ?thesis
    unfolding w handleChannelData_def r1 r5 using sub assms l by (simp add: consumeLocalWindow_def Let_def)
qed

theorem channel_data_roundtrip_witness:
  "snd (handleChannelData new_SSHChannel (writeChannelDataPayload new_SSHChannel (zeros 11) 0 [5, 6, 7, 8] 1 2)) = Inr [6, 7]"
  using channel_data_roundtrip [of new_SSHChannel new_SSHChannel 1 2 "[5, 6, 7, 8]"]
  by (simp add: new_SSHChannel_def DEFAULT_WINDOW_SIZE_def DEFAULT_MAX_PACKET_SIZE_def)

text \<open>C25: Wire format of the channel requests (RFC 4254): every in-place builder yields exactly the
  concatenation of its fields, for any channel state, size, terminal name, command and subsystem.\<close>

theorem channel_request_formats:
  "snd (buildOpenSession ch channelID) =
     [90] @ encodeStringText ''session'' @ be32 channelID @ be32 2097152 @ be32 32768
   \<and> buildPTYRequest ch cols rows terminal =
     [98] @ be32 (remoteChannelID ch) @ encodeStringText ''pty-req'' @ [1] @ encodeStringText terminal
     @ be32 cols @ be32 rows @ be32 0 @ be32 0 @ encodeString [0]
   \<and> buildShellRequest ch = [98] @ be32 (remoteChannelID ch) @ encodeStringText ''shell'' @ [1]
   \<and> buildWindowChange ch cols rows =
     [98] @ be32 (remoteChannelID ch) @ encodeStringText ''window-change'' @ [0] @ be32 cols @ be32 rows @ be32 0 @ be32 0
   \<and> buildWindowAdjust ch n = [93] @ be32 (remoteChannelID ch) @ be32 n
   \<and> buildExecRequest ch command =
     (if command = [] \<or> 4096 < length command \<or> list_ex exec_bad_char command then Inl InvalidExecCommand
      else if \<not> openConfirmed ch then Inl ChannelNotOpen
      else Inr ([98] @ be32 (remoteChannelID ch) @ encodeStringText ''exec'' @ [1] @ encodeStringText command))
   \<and> buildSubsystemRequest ch subsystem =
     (if subsystem = [] \<or> 64 < length subsystem \<or> list_ex (\<lambda>c. \<not> name_char c) subsystem then Inl InvalidSubsystemName
      else if \<not> openConfirmed ch then Inl ChannelNotOpen
      else Inr ([98] @ be32 (remoteChannelID ch) @ encodeStringText ''subsystem'' @ [1] @ encodeStringText subsystem))"
proof (intro conjI)
  show "buildSubsystemRequest ch subsystem =
     (if subsystem = [] \<or> 64 < length subsystem \<or> list_ex (\<lambda>c. \<not> name_char c) subsystem then Inl InvalidSubsystemName
      else if \<not> openConfirmed ch then Inl ChannelNotOpen
      else Inr ([98] @ be32 (remoteChannelID ch) @ encodeStringText ''subsystem'' @ [1] @ encodeStringText subsystem))"
    by (cases subsystem) (auto simp: buildSubsystemRequest_def getRemoteChannelID_def buildNamedRequest_wire SUBSYSTEM_FIELD_def
        list_all_iff list_ex_iff)
qed (simp_all add: buildOpenSession_wire buildPTYRequest_wire buildShellRequest_wire buildWindowChange_wire
    buildWindowAdjust_wire buildExecRequest_def buildNamedRequest_wire getRemoteChannelID_def encodeStringText_def Let_def utf8_encode_def
    SESSION_FIELD_def PTY_REQ_FIELD_def SHELL_FIELD_def WINDOW_CHANGE_FIELD_def EXEC_FIELD_def EMPTY_TERMINAL_MODES_FIELD_def
    DEFAULT_WINDOW_SIZE_def DEFAULT_MAX_PACKET_SIZE_def)

end
