(* ===== verification/Text_Decoder.thy ===== *)
theory Text_Decoder
  imports Js_Text
begin

text \<open>
  \<open>TextDecoder\<close> with its default options, as the session uses it on identification lines, error texts and
  the output of commands: the UTF-8 decoder of the Encoding Standard, which replaces malformed input by
  U+FFFD, keeps an incomplete character between calls with \<open>stream: true\<close> and drops a leading byte order
  mark. Decoded text is kept as its UTF-8 encoding.
\<close>

record text_decoder =
  td_needed :: nat
  td_lower :: byte
  td_upper :: byte
  td_pending :: bytes
  td_bomSeen :: bool

definition new_TextDecoder :: text_decoder where
  "new_TextDecoder = \<lparr>td_needed = 0, td_lower = 0x80, td_upper = 0xBF, td_pending = [], td_bomSeen = False\<rparr>"

definition replacement :: bytes where
  "replacement = [0xEF, 0xBF, 0xBD]"

definition td_start :: "text_decoder \<Rightarrow> nat \<Rightarrow> byte \<Rightarrow> byte \<Rightarrow> byte \<Rightarrow> text_decoder" where
  "td_start d needed lower upper b = d\<lparr>td_needed := needed, td_lower := lower, td_upper := upper, td_pending := [b]\<rparr>"

text \<open>The first byte of a character.\<close>

definition td_lead :: "text_decoder \<Rightarrow> byte \<Rightarrow> text_decoder \<times> bytes list" where
  "td_lead d b =
     (if b \<le> 0x7F then (d, [[b]])
      else if 0xC2 \<le> b \<and> b \<le> 0xDF then (td_start d 1 0x80 0xBF b, [])
      else if 0xE0 \<le> b \<and> b \<le> 0xEF
      then (td_start d 2 (if b = 0xE0 then 0xA0 else 0x80) (if b = 0xED then 0x9F else 0xBF) b, [])
      else if 0xF0 \<le> b \<and> b \<le> 0xF4
      then (td_start d 3 (if b = 0xF0 then 0x90 else 0x80) (if b = 0xF4 then 0x8F else 0xBF) b, [])
      else (d, [replacement]))"

definition td_reset :: "text_decoder \<Rightarrow> text_decoder" where
  "td_reset d = d\<lparr>td_needed := 0, td_lower := 0x80, td_upper := 0xBF, td_pending := []\<rparr>"

text \<open>One byte; a byte that does not continue the pending character is read again as a first byte.\<close>

definition td_byte :: "text_decoder \<Rightarrow> byte \<Rightarrow> text_decoder \<times> bytes list" where
  "td_byte d b =
     (if td_needed d = 0 then td_lead d b
      else if td_lower d \<le> b \<and> b \<le> td_upper d then
        if td_needed d = 1 then (td_reset d, [td_pending d @ [b]])
        else (d\<lparr>td_needed := td_needed d - 1, td_lower := 0x80, td_upper := 0xBF, td_pending := td_pending d @ [b]\<rparr>, [])
      else case td_lead (td_reset d) b of (d, out) \<Rightarrow> (d, replacement # out))"

text \<open>The characters (each as its bytes) that a chunk completes.\<close>

fun td_chars :: "text_decoder \<Rightarrow> bytes \<Rightarrow> text_decoder \<times> bytes list" where
  "td_chars d [] = (d, [])"
| "td_chars d (b # bs) =
     (case td_byte d b of (d, out) \<Rightarrow> case td_chars d bs of (d, out') \<Rightarrow> (d, out @ out'))"

definition td_bom :: "text_decoder \<Rightarrow> bytes list \<Rightarrow> text_decoder \<times> string" where
  "td_bom d out =
     (case out of
        [] \<Rightarrow> (d, [])
      | c # cs \<Rightarrow>
          (d\<lparr>td_bomSeen := True\<rparr>,
           map byte_char (concat (if \<not> td_bomSeen d \<and> c = [0xEF, 0xBB, 0xBF] then cs else c # cs))))"

text \<open>\<open>decode(chunk, { stream: true })\<close>\<close>

definition decode_stream :: "text_decoder \<Rightarrow> bytes \<Rightarrow> text_decoder \<times> string" where
  "decode_stream d chunk = (case td_chars d chunk of (d, out) \<Rightarrow> td_bom d out)"

text \<open>\<open>decode()\<close>: an incomplete character becomes U+FFFD and the decoder starts anew.\<close>

definition decode_flush :: "text_decoder \<Rightarrow> text_decoder \<times> string" where
  "decode_flush d =
     (new_TextDecoder, snd (td_bom d (if td_needed d \<noteq> 0 then [replacement] else [])))"

text \<open>\<open>decode(bytes)\<close> of a fresh decoder.\<close>

definition utf8_lossy :: "bytes \<Rightarrow> string" where
  "utf8_lossy bs = (case decode_stream new_TextDecoder bs of (d, s) \<Rightarrow> s @ snd (decode_flush d))"

subsection \<open>Chunking and well-formed input\<close>

lemma td_chars_append:
  "td_chars d (xs @ ys) =
     (case td_chars d xs of (d', out) \<Rightarrow> case td_chars d' ys of (d'', out') \<Rightarrow> (d'', out @ out'))"
  by (induction xs arbitrary: d) (simp_all split: prod.splits)

lemma td_byte_bom: "td_byte (d\<lparr>td_bomSeen := v\<rparr>) b = (case td_byte d b of (d', out) \<Rightarrow> (d'\<lparr>td_bomSeen := v\<rparr>, out))"
  by (simp add: td_byte_def td_lead_def td_start_def td_reset_def)

lemma td_chars_bom: "td_chars (d\<lparr>td_bomSeen := v\<rparr>) bs = (case td_chars d bs of (d', out) \<Rightarrow> (d'\<lparr>td_bomSeen := v\<rparr>, out))"
  by (induction bs arbitrary: d) (simp_all add: td_byte_bom split: prod.splits)

lemma td_byte_keeps_bom: "td_byte d b = (d', out) \<Longrightarrow> td_bomSeen d' = td_bomSeen d"
  by (auto simp: td_byte_def td_lead_def td_start_def td_reset_def split: if_splits)

lemma td_chars_keeps_bom: "td_chars d bs = (d', out) \<Longrightarrow> td_bomSeen d' = td_bomSeen d"
  by (induction bs arbitrary: d out) (auto dest: td_byte_keeps_bom split: prod.splits)

text \<open>Decoding in chunks is decoding the whole.\<close>

lemma decode_stream_append:
  "decode_stream d (xs @ ys) =
     (case decode_stream d xs of (d1, s1) \<Rightarrow> case decode_stream d1 ys of (d2, s2) \<Rightarrow> (d2, s1 @ s2))"
proof -
  obtain d1 o1 where 1: "td_chars d xs = (d1, o1)" by fastforce
  obtain d2 o2 where 2: "td_chars d1 ys = (d2, o2)" by fastforce
  have k: "td_bomSeen d1 = td_bomSeen d" "td_bomSeen d2 = td_bomSeen d"
    using td_chars_keeps_bom [OF 1] td_chars_keeps_bom [OF 2] by simp_all
  show ?thesis
    using 1 2 k by (cases o1) (auto simp: decode_stream_def td_chars_append td_bom_def td_chars_bom split: list.splits)
qed

lemma td_lead_1: "a \<le> 0x7F \<Longrightarrow> td_lead d a = (d, [[a]])"
  by (simp add: td_lead_def)

lemma td_lead_2: "0xC2 \<le> a \<Longrightarrow> a \<le> 0xDF \<Longrightarrow> td_lead d a = (td_start d 1 0x80 0xBF a, [])"
  by (simp add: td_lead_def word_le_nat_alt)

lemma td_lead_3:
  "0xE0 \<le> a \<Longrightarrow> a \<le> 0xEF \<Longrightarrow>
     td_lead d a = (td_start d 2 (if a = 0xE0 then 0xA0 else 0x80) (if a = 0xED then 0x9F else 0xBF) a, [])"
  by (simp add: td_lead_def word_le_nat_alt)

lemma td_lead_4:
  "0xF0 \<le> a \<Longrightarrow> a \<le> 0xF4 \<Longrightarrow>
     td_lead d a = (td_start d 3 (if a = 0xF0 then 0x90 else 0x80) (if a = 0xF4 then 0x8F else 0xBF) a, [])"
  by (simp add: td_lead_def word_le_nat_alt)

lemma td_byte_lead: "td_needed d = 0 \<Longrightarrow> td_byte d b = td_lead d b"
  by (simp add: td_byte_def)

lemma td_byte_last:
  "lo \<le> b \<Longrightarrow> b \<le> hi \<Longrightarrow> td_byte (d\<lparr>td_needed := Suc 0, td_lower := lo, td_upper := hi, td_pending := ps\<rparr>) b = (td_reset d, [ps @ [b]])"
  by (simp add: td_byte_def td_reset_def)

lemma td_byte_more:
  "1 < n \<Longrightarrow> lo \<le> b \<Longrightarrow> b \<le> hi \<Longrightarrow>
     td_byte (d\<lparr>td_needed := n, td_lower := lo, td_upper := hi, td_pending := ps\<rparr>) b
     = (d\<lparr>td_needed := n - 1, td_lower := 0x80, td_upper := 0xBF, td_pending := ps @ [b]\<rparr>, [])"
  by (simp add: td_byte_def)

lemmas td_byte_simps = td_byte_lead td_byte_last td_byte_more td_start_def is_cont_def

lemma td_chars_1:
  "td_needed d = 0 \<Longrightarrow> a \<le> 0x7F \<Longrightarrow> td_chars d (a # r) = (case td_chars d r of (d', out) \<Rightarrow> (d', [a] # out))"
  by (simp add: td_byte_lead td_lead_1)

lemma td_chars_2:
  "td_needed d = 0 \<Longrightarrow> 0xC2 \<le> a \<Longrightarrow> a \<le> 0xDF \<Longrightarrow> is_cont b \<Longrightarrow>
     td_chars d (a # b # r) = (case td_chars (td_reset d) r of (d', out) \<Rightarrow> (d', [a, b] # out))"
  by (simp add: td_byte_simps td_lead_2 split: prod.splits)

lemma td_chars_3:
  "td_needed d = 0 \<Longrightarrow> 0xE0 \<le> a \<Longrightarrow> a \<le> 0xEF \<Longrightarrow> is_cont b \<Longrightarrow> is_cont c \<Longrightarrow> (a = 0xE0 \<longrightarrow> 0xA0 \<le> b) \<Longrightarrow>
     (a = 0xED \<longrightarrow> b \<le> 0x9F) \<Longrightarrow>
     td_chars d (a # b # c # r) = (case td_chars (td_reset d) r of (d', out) \<Rightarrow> (d', [a, b, c] # out))"
  by (simp add: td_byte_simps td_lead_3 split: prod.splits)

lemma td_chars_4:
  "td_needed d = 0 \<Longrightarrow> 0xF0 \<le> a \<Longrightarrow> a \<le> 0xF4 \<Longrightarrow> is_cont b \<Longrightarrow> is_cont c \<Longrightarrow> is_cont e \<Longrightarrow>
     (a = 0xF0 \<longrightarrow> 0x90 \<le> b) \<Longrightarrow> (a = 0xF4 \<longrightarrow> b \<le> 0x8F) \<Longrightarrow>
     td_chars d (a # b # c # e # r) = (case td_chars (td_reset d) r of (d', out) \<Rightarrow> (d', [a, b, c, e] # out))"
  by (simp add: td_byte_simps td_lead_4 split: prod.splits)

lemma utf8_ok_cases:
  assumes "utf8_ok (a # rest)"
  obtains (one) "a \<le> 0x7F" "utf8_ok rest"
    | (two) b r' where "0xC2 \<le> a" "a \<le> 0xDF" "rest = b # r'" "is_cont b" "utf8_ok r'"
    | (three) b c r' where "0xE0 \<le> a" "a \<le> 0xEF" "rest = b # c # r'" "is_cont b" "is_cont c"
        "a = 0xE0 \<longrightarrow> 0xA0 \<le> b" "a = 0xED \<longrightarrow> b \<le> 0x9F" "utf8_ok r'"
    | (four) b c e r' where "0xF0 \<le> a" "a \<le> 0xF4" "rest = b # c # e # r'" "is_cont b" "is_cont c" "is_cont e"
        "a = 0xF0 \<longrightarrow> 0x90 \<le> b" "a = 0xF4 \<longrightarrow> b \<le> 0x8F" "utf8_ok r'"
proof -
  consider "a \<le> 0x7F" | "\<not> a \<le> 0x7F" "0xC2 \<le> a \<and> a \<le> 0xDF" | "\<not> a \<le> 0x7F" "\<not> (0xC2 \<le> a \<and> a \<le> 0xDF)" "0xE0 \<le> a \<and> a \<le> 0xEF"
    | "\<not> a \<le> 0x7F" "\<not> (0xC2 \<le> a \<and> a \<le> 0xDF)" "\<not> (0xE0 \<le> a \<and> a \<le> 0xEF)" "0xF0 \<le> a \<and> a \<le> 0xF4"
    | "\<not> a \<le> 0x7F" "\<not> (0xC2 \<le> a \<and> a \<le> 0xDF)" "\<not> (0xE0 \<le> a \<and> a \<le> 0xEF)" "\<not> (0xF0 \<le> a \<and> a \<le> 0xF4)"
    by satx
  then show thesis
  proof cases
    case 1
    then show thesis using assms by (intro one) simp_all
  next
    case 2
    then have "case rest of b # r \<Rightarrow> is_cont b \<and> utf8_ok r | _ \<Rightarrow> False" using assms by simp
    then show thesis using two 2 by (cases rest) simp_all
  next
    case 3
    then have "case rest of b # c # r \<Rightarrow>
           is_cont b \<and> is_cont c \<and> (a = 0xE0 \<longrightarrow> 0xA0 \<le> b) \<and> (a = 0xED \<longrightarrow> b \<le> 0x9F) \<and> utf8_ok r
         | _ \<Rightarrow> False" using assms unfolding utf8_ok.simps by presburger
    then show thesis using three 3 by (cases rest; cases "tl rest") simp_all
  next
    case 4
    then have "case rest of b # c # d # r \<Rightarrow>
           is_cont b \<and> is_cont c \<and> is_cont d \<and> (a = 0xF0 \<longrightarrow> 0x90 \<le> b) \<and> (a = 0xF4 \<longrightarrow> b \<le> 0x8F)
           \<and> utf8_ok r
         | _ \<Rightarrow> False" using assms unfolding utf8_ok.simps by presburger
    then show thesis using four 4 by (cases rest; cases "tl rest"; cases "tl (tl rest)") simp_all
  next
    case 5
    then have False using assms unfolding utf8_ok.simps by presburger
    then show thesis ..
  qed
qed

text \<open>A decoder between two characters reads a well-formed text character by character.\<close>

lemma td_chars_ok:
  assumes "utf8_ok bs" "td_needed d = 0"
  shows "\<exists>out d'. td_chars d bs = (d', out) \<and> concat out = bs \<and> td_needed d' = 0
     \<and> (out = [] \<longleftrightarrow> bs = []) \<and> (bs \<noteq> [] \<longrightarrow> (hd out = [0xEF, 0xBB, 0xBF] \<longleftrightarrow> take 3 bs = [0xEF, 0xBB, 0xBF]))"
  using assms
proof (induction bs arbitrary: d rule: length_induct)
  case (1 bs)
  have r: "td_needed (td_reset e) = 0" for e by (simp add: td_reset_def)
  have IH: "\<exists>out d'. td_chars e cs = (d', out) \<and> concat out = cs \<and> td_needed d' = 0"
    if "length cs < length bs" "utf8_ok cs" "td_needed e = 0" for cs e
    using "1.IH" that by blast
  show ?case
  proof (cases bs)
    case (Cons a rest)
    have "utf8_ok (a # rest)" using "1.prems"(1) Cons by simp
    then show ?thesis
    proof (cases rule: utf8_ok_cases)
      case one
      then have "a \<noteq> 0xEF" by auto
      with one show ?thesis using IH [of rest d] "1.prems"(2) Cons by (auto simp: td_chars_1 simp del: td_chars.simps(2))
    next
      case (two b r')
      then have "a \<noteq> 0xEF" by auto
      with two show ?thesis using IH [of r' "td_reset d"] r "1.prems"(2) Cons by (auto simp: td_chars_2 simp del: td_chars.simps(2))
    next
      case (three b c r')
      then show ?thesis using IH [of r' "td_reset d"] r "1.prems"(2) Cons by (auto simp: td_chars_3 numeral_3_eq_3 simp del: td_chars.simps(2))
    next
      case (four b c e r')
      then have "a \<noteq> 0xEF" by auto
      with four show ?thesis using IH [of r' "td_reset d"] r "1.prems"(2) Cons by (auto simp: td_chars_4 simp del: td_chars.simps(2))
    qed
  qed (use "1.prems" in simp)
qed

lemma utf8_lossy_ok: "utf8_decode bs = Some s \<Longrightarrow> utf8_lossy bs = s"
proof -
  assume s: "utf8_decode bs = Some s"
  then have ok: "utf8_ok bs" "s = map byte_char (strip_bom bs)" by (auto simp: utf8_decode_def split: if_splits)
  have n: "td_needed new_TextDecoder = 0" "\<not> td_bomSeen new_TextDecoder" by (simp_all add: new_TextDecoder_def)
  obtain out d' where o: "td_chars new_TextDecoder bs = (d', out)" "concat out = bs" "td_needed d' = 0" "out = [] \<longleftrightarrow> bs = []"
    "bs \<noteq> [] \<longrightarrow> (hd out = [0xEF, 0xBB, 0xBF] \<longleftrightarrow> take 3 bs = [0xEF, 0xBB, 0xBF])"
    using td_chars_ok [OF ok(1) n(1)] by blast
  have b: "\<not> td_bomSeen d'" using td_chars_keeps_bom [OF o(1)] n(2) by simp
  show ?thesis
  proof (cases out)
    case Nil
    then show ?thesis using o ok by (simp add: utf8_lossy_def decode_stream_def td_bom_def decode_flush_def strip_bom_def)
  next
    case (Cons c cs)
    have bs: "bs = c @ concat cs" using o(2) Cons by simp
    have "s = map byte_char (concat (if c = [0xEF, 0xBB, 0xBF] then cs else c # cs))"
      using o(4,5) Cons ok(2) bs by (auto simp: strip_bom_def)
    then show ?thesis using o(1,3) b Cons by (simp add: utf8_lossy_def decode_stream_def td_bom_def decode_flush_def)
  qed
qed

end
