(* ===== verification/Session_State.thy ===== *)
theory Session_State
  imports Session_Host Ssh_Crypto Ssh_Channel Text_Decoder
begin

text \<open>
  The state of a terminal session (class \<open>SSHSession\<close> of \<^verbatim>\<open>worker/src/webssh/backend/session.ts\<close>): its
  configuration, the platform functions it calls, and its fields. What the session sends, to the server and to
  the browser, is appended to \<open>effects\<close>.
\<close>

subsection \<open>Configuration and environment\<close>

datatype auth_method = AuthPassword | AuthPublicKey

record SSHConnectionConfig =
  cfg_host :: string
  cfg_port :: nat
  cfg_username :: string
  cfg_authMethod :: auth_method
  cfg_password :: "string option"
  cfg_privateKey :: "string option"
  cfg_cols :: nat
  cfg_rows :: nat
  cfg_term :: string
  cfg_expectedFingerprint :: "string option"

text \<open>What the platform provides: \<open>crypto.subtle\<close>, the digests and ciphers, random bytes (the cookie, the
  padding of the \<open>n\<close>-th packet), the \<open>n\<close>-th generated key pair (its exported public key and the derivation of
  a secret with its private key), lower-casing, and the number of writes that the TCP socket takes before it
  fails (\<open>None\<close>: it never fails): a stream on which a write was rejected rejects all later ones.\<close>

record 'k session_env =
  env_subtle :: "'k subtle_crypto"
  env_importJwk :: "string \<Rightarrow> string \<Rightarrow> string \<Rightarrow> 'k option"
  env_sha256 :: "bytes \<Rightarrow> bytes"
  env_cookie :: "nat \<Rightarrow> byte"
  env_padding :: "nat \<Rightarrow> nat \<Rightarrow> byte"
  env_publicKey :: "nat \<Rightarrow> bytes"
  env_derive :: "nat \<Rightarrow> bytes \<Rightarrow> bytes option"
  env_gcmKey :: "bytes \<Rightarrow> 'k"
  env_gcmEncrypt :: "'k \<Rightarrow> bytes \<Rightarrow> bytes option \<Rightarrow> bytes \<Rightarrow> bytes"
  env_gcmDecrypt :: "'k \<Rightarrow> bytes \<Rightarrow> bytes option \<Rightarrow> bytes \<Rightarrow> bytes option"
  env_ctrKey :: "bytes \<Rightarrow> 'k"
  env_ctrEncrypt :: "'k \<Rightarrow> bytes \<Rightarrow> bytes \<Rightarrow> bytes"
  env_ctrDecrypt :: "'k \<Rightarrow> bytes \<Rightarrow> bytes \<Rightarrow> bytes option"
  env_hmacKey :: "hash_name \<Rightarrow> bytes \<Rightarrow> 'k"
  env_hmacSign :: "'k \<Rightarrow> bytes \<Rightarrow> bytes"
  env_hmacVerify :: "'k \<Rightarrow> bytes \<Rightarrow> bytes \<Rightarrow> bool"
  env_lower :: "string \<Rightarrow> string"
  env_writes :: "nat option"

subsection \<open>State\<close>

datatype phase = Version | Kex | HostConfirm | Auth | Pty | Shell | PhaseReady | Closed

datatype 'k cipher = GcmCipher "'k SSHAESGCMCipher" | CtrCipher "'k SSHAESCTRCipher"

datatype password_method = PasswordMethod | KeyboardInteractiveMethod

text \<open>What the session sends to the browser.\<close>

datatype browser_message =
    Status string string
  | HostKey string string bool "string option"
  | ReadyMessage
  | ErrorMessage string string
  | Pong
  | SftpAttach string
  | ProcessAttach string

text \<open>What it sends to the attached process monitor.\<close>

datatype process_message =
    ProcessPong
  | ProcessReady
  | ProcessError string
  | ProcessSnapshotText string
  | ProcessKillResult nat string bool string string

text \<open>Calls of the SFTP handler of a channel.\<close>

datatype sftp_call = SftpNew | SftpDispose | SftpInitialize | SftpFeed bytes | SftpWindowAdjust | SftpOnClosed | SftpAnnounceReady

datatype effect =
    WireIdentification bytes
  | WirePlain bytes bytes
  | WireEncrypted bytes bytes
  | Browser browser_message
  | TerminalOutput bytes
  | HostDecision string bool
  | ProcessOut process_message
  | SftpError string string
  | SftpCall nat sftp_call
  | SocketClosed bool

record PendingChannelOpen =
  open_channelID :: nat
  open_timeout :: bool
  open_cancelled :: bool

record PendingProcessKillChannel =
  kill_channelID :: nat
  kill_requestId :: string
  kill_pid :: nat
  kill_timeout :: bool
  kill_cancelled :: bool
  kill_openConfirmed :: bool
  kill_stdoutDecoder :: text_decoder
  kill_stderrDecoder :: text_decoder
  kill_stdout :: string
  kill_stderr :: string
  kill_stdoutBytes :: nat
  kill_stderrBytes :: nat
  kill_finalized :: bool

text \<open>Where the reading task stands: waiting for bytes, in the packet loop, between a packet and its handler, or at
  one of the awaits of a handler that other events can overtake.\<close>

record reply_context =
  ctx_hostKey :: bytes
  ctx_signature :: bytes
  ctx_secret :: bytes
  ctx_hash :: bytes
  ctx_keyType :: string

datatype reader =
    Idle
  | Pumping
  | Handling bytes
  | VerifyingHost reply_context
  | ConfirmingHost reply_context
  | HostAnswered reply_context bool
  | EnablingInbound

text \<open>The fields of the class. A channel object is named by its local identifier, which is never used twice:
  \<open>channelObjects\<close> is the store of the objects and \<open>channels\<close> the keys of the map of the same name.
  \<open>flushTask\<close> is the suspended loop of \<open>flushInput\<close>: the length of the piece that it reads from, the number of
  bytes in the chunk whose sending it awaits, and whether that sending succeeds. The writer and the chain of
  sends have no field: a send is one action, in the order of the calls (\<open>Session_Actions\<close>). The two fields of the
  chain of file operations and the upload limit belong to the SFTP messages, which are not modelled.\<close>

record 'k kex_state =
  transport :: SSHTransport
  versionBuffer :: bytes
  packetParser :: parser
  sendSequence :: nat
  packetsSent :: nat
  localKex :: "bytes option"
  remoteKex :: "bytes option"
  kexName :: "string option"
  hostKeyAlgorithm :: "string option"
  keyPairs :: nat
  ecdhPair :: "nat option"
  curvePair :: "nat option"
  clientPublic :: "bytes option"
  sessionId :: "bytes option"
  keys :: "SessionKeys option"
  cipherC2S :: string
  cipherS2C :: string
  macC2S :: string
  macS2C :: string
  encryptor :: "'k cipher option"
  decryptor :: "'k cipher option"
  signer :: "'k SSHHMAC option"
  verifier :: "'k SSHHMAC option"
  ignoreNextKexPacket :: bool

record 'k auth_state = "'k kex_state" +
  serverSigAlgs :: "string list"
  authRequestSent :: bool
  passwordAuthMethod :: password_method
  keyboardInteractiveRounds :: nat
  keyboardInteractivePasswordSent :: bool
  config :: SSHConnectionConfig
  pendingHostConfirmation :: "string option"

record 'k session = "'k auth_state" +
  phase :: phase
  readTask :: reader
  wsOpen :: bool
  pendingChannelRequest :: "phase option"
  keepaliveTimer :: bool
  keepalivePending :: nat
  shellTimer :: bool
  channelObjects :: "nat \<Rightarrow> SSHChannel"
  channels :: "nat list"
  nextChannelID :: nat
  sftpChannel :: "nat option"
  sftpHandler :: "nat option"
  sftpWebSocket :: "(nat \<times> bool) option"
  sftpAttachUrl :: string
  pendingSFTPChannelOpen :: "PendingChannelOpen option"
  processChannel :: "nat option"
  processWebSocket :: "(nat \<times> bool) option"
  processAttachUrl :: string
  processBuffer :: string
  processDecoder :: text_decoder
  pendingProcessChannelOpen :: "PendingChannelOpen option"
  pendingProcessKillChannels :: "PendingProcessKillChannel list"
  inputQueue :: "bytes list"
  queueHeadOffset :: nat
  queuedBytes :: int
  flushingInput :: bool
  flushTask :: "(nat \<times> nat \<times> bool) option"
  effects :: "effect list"

end
