(* ===== verification/Session_Actions.thy ===== *)
theory Session_Actions
  imports Session_State
begin

text \<open>
  Actions on the session state: sequencing with exceptions, and the sending of packets
  (\<open>sendPlain\<close>, \<open>sendEncrypted\<close>, \<open>sendChannelData\<close>, \<open>serialSend\<close>, \<open>write\<close> of
  \<^verbatim>\<open>worker/src/webssh/backend/session.ts\<close>). \<open>serialSend\<close> runs the sends one after the other in the order of
  the calls, so a send is one action: it builds the packet, counts it and writes it. A write fails once the socket
  has failed; then nothing is sent and the send throws, with the cipher and the counters already advanced.
\<close>

type_synonym ('k, 'a) act = "'k session \<Rightarrow> 'a sresult \<times> 'k session"

definition return :: "'a \<Rightarrow> ('k, 'a) act" where
  "return x s = (Inr x, s)"

definition throw :: "string \<Rightarrow> ('k, 'a) act" where
  "throw message s = (fail_with message, s)"

definition modify :: "('k session \<Rightarrow> 'k session) \<Rightarrow> ('k, unit) act" where
  "modify f s = (Inr (), f s)"

definition act_bind :: "('k, 'a) act \<Rightarrow> ('a \<Rightarrow> ('k, 'b) act) \<Rightarrow> ('k, 'b) act" where
  "act_bind m f s = (case m s of (Inl e, s) \<Rightarrow> (Inl e, s) | (Inr x, s) \<Rightarrow> f x s)"

definition with_state :: "('k session \<Rightarrow> ('k, 'a) act) \<Rightarrow> ('k, 'a) act" where
  "with_state f s = f s s"

text \<open>A pure computation that may throw.\<close>

definition attempt :: "'a sresult \<Rightarrow> ('k, 'a) act" where
  "attempt r s = (r, s)"

fun act_block :: "('k, unit) act list \<Rightarrow> ('k, unit) act" where
  "act_block [] = return ()"
| "act_block (m # ms) = act_bind m (\<lambda>_. act_block ms)"

definition act_when :: "bool \<Rightarrow> ('k, unit) act \<Rightarrow> ('k, unit) act" where
  "act_when c m = (if c then m else return ())"

text \<open>\<open>try { m } catch (error) { h }\<close>\<close>

definition act_catch :: "('k, 'a) act \<Rightarrow> (session_error \<Rightarrow> ('k, 'a) act) \<Rightarrow> ('k, 'a) act" where
  "act_catch m h s = (case m s of (Inl e, s) \<Rightarrow> h e s | (Inr x, s) \<Rightarrow> (Inr x, s))"

definition emit :: "effect \<Rightarrow> ('k, unit) act" where
  "emit e = modify (\<lambda>s. s\<lparr>effects := effects s @ [e]\<rparr>)"

subsection \<open>What an action guarantees\<close>

text \<open>\<open>wp m Q s\<close>: run from \<open>s\<close>, the action \<open>m\<close> ends with a result and a state that satisfy \<open>Q\<close>. The rules
  compute it through the structure of the action.\<close>

definition wp :: "('k, 'a) act \<Rightarrow> ('a sresult \<Rightarrow> 'k session \<Rightarrow> bool) \<Rightarrow> 'k session \<Rightarrow> bool" where
  "wp m Q s = (case m s of (r, s') \<Rightarrow> Q r s')"

named_theorems wp_simps

lemma wp_return [wp_simps]: "wp (return x) Q s = Q (Inr x) s"
  by (simp add: wp_def return_def)

lemma wp_throw [wp_simps]: "wp (throw e) Q s = Q (fail_with e) s"
  by (simp add: wp_def throw_def)

lemma wp_modify [wp_simps]: "wp (modify f) Q s = Q (Inr ()) (f s)"
  by (simp add: wp_def modify_def)

lemma wp_with_state [wp_simps]: "wp (with_state f) Q s = wp (f s) Q s"
  by (simp add: wp_def with_state_def)

lemma wp_attempt [wp_simps]: "wp (attempt r) Q s = Q r s"
  by (simp add: wp_def attempt_def)

lemma wp_bind [wp_simps]:
  "wp (act_bind m f) Q s = wp m (\<lambda>r s'. case r of Inl e \<Rightarrow> Q (Inl e) s' | Inr x \<Rightarrow> wp (f x) Q s') s"
  by (simp add: wp_def act_bind_def split: prod.splits sum.splits)

lemma wp_block [wp_simps]:
  "wp (act_block []) Q s = Q (Inr ()) s"
  "wp (act_block (m # ms)) Q s = wp m (\<lambda>r s'. case r of Inl e \<Rightarrow> Q (Inl e) s' | Inr _ \<Rightarrow> wp (act_block ms) Q s') s"
  by (simp_all add: wp_simps)

lemma wp_when [wp_simps]: "wp (act_when c m) Q s = (if c then wp m Q s else Q (Inr ()) s)"
  by (simp add: act_when_def wp_simps)

lemma wp_catch [wp_simps]:
  "wp (act_catch m h) Q s = wp m (\<lambda>r s'. case r of Inl e \<Rightarrow> wp (h e) Q s' | Inr x \<Rightarrow> Q (Inr x) s') s"
  by (simp add: wp_def act_catch_def split: prod.splits sum.splits)

lemma wp_emit [wp_simps]: "wp (emit e) Q s = Q (Inr ()) (s\<lparr>effects := effects s @ [e]\<rparr>)"
  by (simp add: emit_def wp_simps)

lemma wp_mono: "wp m Q s \<Longrightarrow> (\<And>r s'. Q r s' \<Longrightarrow> R r s') \<Longrightarrow> wp m R s"
  by (auto simp: wp_def split: prod.splits)

lemma wp_conj: "wp m Q s \<Longrightarrow> wp m R s \<Longrightarrow> wp m (\<lambda>r s'. Q r s' \<and> R r s') s"
  by (auto simp: wp_def split: prod.splits)

text \<open>An action keeps a relation between the state before and the state after, on every outcome. For a
  reflexive and transitive relation the rules follow the structure of the action.\<close>

definition keeps :: "('k session \<Rightarrow> 'k session \<Rightarrow> bool) \<Rightarrow> ('k, 'a) act \<Rightarrow> bool" where
  "keeps R m \<longleftrightarrow> (\<forall>s. R s (snd (m s)))"

locale preorder_on_states =
  fixes R :: "'k session \<Rightarrow> 'k session \<Rightarrow> bool"
  assumes refl: "R s s" and trans: "R s t \<Longrightarrow> R t u \<Longrightarrow> R s u"
begin

lemma keeps_return: "keeps R (return x)"
  by (simp add: keeps_def return_def refl)

lemma keeps_throw: "keeps R (throw e)"
  by (simp add: keeps_def throw_def refl)

lemma keeps_attempt: "keeps R (attempt r)"
  by (simp add: keeps_def attempt_def refl)

lemma keeps_modify: "(\<And>s. R s (f s)) \<Longrightarrow> keeps R (modify f)"
  by (simp add: keeps_def modify_def)

lemma keeps_bind:
  assumes "keeps R m" "\<And>x. keeps R (f x)"
  shows "keeps R (act_bind m f)"
  unfolding keeps_def
proof
  fix s
  have "R s (snd (m s))" using assms(1) by (simp add: keeps_def)
  moreover have "R t (snd (f x t))" for x t using assms(2) by (simp add: keeps_def)
  ultimately show "R s (snd (act_bind m f s))"
    by (auto simp: act_bind_def split: prod.splits sum.splits intro: trans)
qed

lemma keeps_catch:
  assumes "keeps R m" "\<And>e. keeps R (h e)"
  shows "keeps R (act_catch m h)"
  unfolding keeps_def
proof
  fix s
  have "R s (snd (m s))" using assms(1) by (simp add: keeps_def)
  moreover have "R t (snd (h x t))" for x t using assms(2) by (simp add: keeps_def)
  ultimately show "R s (snd (act_catch m h s))"
    by (auto simp: act_catch_def split: prod.splits sum.splits intro: trans)
qed

lemma keeps_with_state: "(\<And>s. keeps R (f s)) \<Longrightarrow> keeps R (with_state f)"
  by (simp add: keeps_def with_state_def)

lemma keeps_when: "keeps R m \<Longrightarrow> keeps R (act_when c m)"
  by (simp add: act_when_def keeps_return)

lemma keeps_block: "list_all (keeps R) ms \<Longrightarrow> keeps R (act_block ms)"
  by (induction ms) (auto intro: keeps_return keeps_bind)

lemma keeps_emit: "(\<And>s e. R s (s\<lparr>effects := effects s @ [e]\<rparr>)) \<Longrightarrow> keeps R (emit e)"
  by (simp add: emit_def keeps_modify)

lemmas keeps_rules = keeps_return keeps_throw keeps_attempt keeps_bind keeps_catch keeps_with_state keeps_when keeps_block

end

subsection \<open>Sending\<close>

fun cipher_encrypt :: "'k session_env \<Rightarrow> 'k cipher encryptor" where
  "cipher_encrypt env (GcmCipher c) data seq aad =
     (case gcm_encryptor (env_gcmEncrypt env) c data seq aad of (c, out) \<Rightarrow> (GcmCipher c, out))"
| "cipher_encrypt env (CtrCipher c) data seq aad =
     (case ctr_encryptor (env_ctrEncrypt env) c data seq aad of (c, out) \<Rightarrow> (CtrCipher c, out))"

fun cipher_decrypt :: "'k session_env \<Rightarrow> 'k cipher decryptor" where
  "cipher_decrypt env (GcmCipher c) data seq aad commit =
     (case gcm_decryptor (env_gcmDecrypt env) c data seq aad commit of (c, out) \<Rightarrow> (GcmCipher c, out))"
| "cipher_decrypt env (CtrCipher c) data seq aad commit =
     (case ctr_decryptor (env_ctrDecrypt env) c data seq aad commit of (c, out) \<Rightarrow> (CtrCipher c, out))"

text \<open>After a packet: the next sequence number, and fresh padding bytes for the next one.\<close>

definition count_packet :: "'k session \<Rightarrow> 'k session" where
  "count_packet s = s\<lparr>sendSequence := nextSequenceNumber (sendSequence s), packetsSent := packetsSent s + 1\<rparr>"

definition socket_write :: "'k session_env \<Rightarrow> effect \<Rightarrow> ('k, unit) act" where
  "socket_write env e = with_state (\<lambda>s.
     if (case env_writes env of None \<Rightarrow> True | Some n \<Rightarrow> packetsSent s < n) then emit e else throw ''write failed'')"

definition sendPlain :: "'k session_env \<Rightarrow> bytes \<Rightarrow> ('k, unit) act" where
  "sendPlain env payload = with_state (\<lambda>s.
     let packet = snd (build payload 8 None () (sendSequence s) False None (env_padding env (packetsSent s))) in
     act_block [modify count_packet, socket_write env (WirePlain payload packet)])"

text \<open>The common part of \<open>sendEncrypted\<close> and \<open>sendChannelData\<close>; \<open>mk\<close> builds the packet.\<close>

definition send_built ::
  "'k session_env \<Rightarrow> bytes \<Rightarrow> ('k session \<Rightarrow> CipherSpec \<Rightarrow> 'k cipher \<Rightarrow> 'k cipher \<times> bytes) \<Rightarrow> ('k, unit) act" where
  "send_built env payload mk = with_state (\<lambda>s.
     case encryptor s of
       None \<Rightarrow> throw ''SSH encryption is not initialized''
     | Some c \<Rightarrow>
         act_bind (attempt (rethrow (getCipherSpec (cipherC2S s)))) (\<lambda>spec.
           case mk s spec c of
             (c', packet) \<Rightarrow>
               act_block [modify (\<lambda>s. count_packet (s\<lparr>encryptor := Some c'\<rparr>)), socket_write env (WireEncrypted payload packet)]))"

definition session_signer :: "'k session_env \<Rightarrow> 'k session \<Rightarrow> mac_signer option" where
  "session_signer env s = map_option (hmac_signer (env_hmacSign env)) (signer s)"

definition sendEncrypted :: "'k session_env \<Rightarrow> bytes \<Rightarrow> ('k, unit) act" where
  "sendEncrypted env payload =
     send_built env payload (\<lambda>s spec c.
       build payload (cs_blockSize spec) (Some (cipher_encrypt env)) c (sendSequence s) (cs_aead spec)
         (session_signer env s) (env_padding env (packetsSent s)))"

text \<open>\<open>sendChannelData\<close> writes the payload of the chunk straight into the packet.\<close>

definition sendChannelData :: "'k session_env \<Rightarrow> nat \<Rightarrow> ChannelDataChunk \<Rightarrow> ('k, unit) act" where
  "sendChannelData env ch chunk = with_state (\<lambda>s.
     let fill = (\<lambda>target offset. writeChannelDataPayload (channelObjects s ch) target offset
                    (chunk_source chunk) (chunk_sourceOffset chunk) (chunk_bytesConsumed chunk))
     in send_built env (fill (zeros (chunk_payloadLength chunk)) 0) (\<lambda>s spec c.
          buildWithPayloadWriter (chunk_payloadLength chunk) fill (cs_blockSize spec) (Some (cipher_encrypt env)) c
            (sendSequence s) (cs_aead spec) (session_signer env s) (env_padding env (packetsSent s))))"

subsection \<open>Messages to the browser, closing\<close>

definition sendJson :: "browser_message \<Rightarrow> ('k, unit) act" where
  "sendJson m = with_state (\<lambda>s. act_when (wsOpen s) (emit (Browser m)))"

definition status :: "string \<Rightarrow> string \<Rightarrow> ('k, unit) act" where
  "status event message = sendJson (Status event message)"

text \<open>An attached WebSocket is its number and whether it is open.\<close>

definition socket_open :: "(nat \<times> bool) option \<Rightarrow> bool" where
  "socket_open w = (case w of Some (_, True) \<Rightarrow> True | _ \<Rightarrow> False)"

definition sendProcessJson :: "process_message \<Rightarrow> ('k, unit) act" where
  "sendProcessJson m = with_state (\<lambda>s. act_when (socket_open (processWebSocket s)) (emit (ProcessOut m)))"

definition sendProcessError :: "string \<Rightarrow> ('k, unit) act" where
  "sendProcessError message = sendProcessJson (ProcessError message)"

definition sendSFTPError :: "string \<Rightarrow> string \<Rightarrow> ('k, unit) act" where
  "sendSFTPError operation message = with_state (\<lambda>s. act_when (socket_open (sftpWebSocket s)) (emit (SftpError operation message)))"

text \<open>A call of the SFTP handler, when there is one.\<close>

definition call_sftp :: "sftp_call \<Rightarrow> ('k, unit) act" where
  "call_sftp c = with_state (\<lambda>s. case sftpHandler s of None \<Rightarrow> return () | Some h \<Rightarrow> emit (SftpCall h c))"

definition answer_host :: "bool \<Rightarrow> 'k session \<Rightarrow> 'k session" where
  "answer_host accepted s =
     (case readTask s of
        ConfirmingHost ctx \<Rightarrow>
          s\<lparr>pendingHostConfirmation := None,
            phase := (if accepted \<and> phase s \<noteq> Closed then Kex else phase s),
            readTask := HostAnswered ctx accepted\<rparr>
      | _ \<Rightarrow> s\<lparr>pendingHostConfirmation := None\<rparr>)"

definition clear_credentials :: "'k session \<Rightarrow> 'k session" where
  "clear_credentials s = s\<lparr>config := (config s)\<lparr>cfg_password := None, cfg_privateKey := None\<rparr>\<rparr>"

definition close :: "bool \<Rightarrow> ('k, unit) act" where
  "close normal = with_state (\<lambda>s.
     if phase s = Closed then return ()
     else act_block
       [modify (\<lambda>s. s\<lparr>phase := Closed, keepaliveTimer := False, shellTimer := False, inputQueue := [], queuedBytes := 0\<rparr>),
        call_sftp SftpDispose,
        modify (\<lambda>s. s\<lparr>sftpHandler := None, sftpChannel := None, pendingSFTPChannelOpen := None,
                      pendingProcessChannelOpen := None, processChannel := None, processBuffer := [],
                      pendingProcessKillChannels := [], channels := [], sftpWebSocket := None, processWebSocket := None\<rparr>),
        modify (\<lambda>s. if pendingHostConfirmation s = None then s else answer_host False s),
        modify clear_credentials,
        modify (\<lambda>s. s\<lparr>wsOpen := False\<rparr>),
        emit (SocketClosed normal)])"

definition fail :: "string \<Rightarrow> string \<Rightarrow> ('k, unit) act" where
  "fail event message = act_block [sendJson (ErrorMessage event message), close False]"

end
