(* ===== verification/Session_Handshake.thy ===== *)
theory Session_Handshake
  imports Session_Actions
begin

text \<open>
  From the first byte to the authenticated connection (\<^verbatim>\<open>worker/src/webssh/backend/session.ts\<close>): the version
  exchange, the key exchange with the verification and confirmation of the host key, and user authentication.
  A handler runs as one action up to an await that other events can overtake with an effect on what follows:
  the verification of the host signature, the user's decision on the host key, and the set-up of inbound
  encryption. There it leaves the rest of its work in \<open>readTask\<close>.
\<close>

abbreviation SSH_MSG_DISCONNECT :: byte where "SSH_MSG_DISCONNECT \<equiv> 1"
abbreviation SSH_MSG_IGNORE :: byte where "SSH_MSG_IGNORE \<equiv> 2"
abbreviation SSH_MSG_UNIMPLEMENTED :: byte where "SSH_MSG_UNIMPLEMENTED \<equiv> 3"
abbreviation SSH_MSG_DEBUG :: byte where "SSH_MSG_DEBUG \<equiv> 4"
abbreviation SSH_MSG_SERVICE_REQUEST :: byte where "SSH_MSG_SERVICE_REQUEST \<equiv> 5"
abbreviation SSH_MSG_SERVICE_ACCEPT :: byte where "SSH_MSG_SERVICE_ACCEPT \<equiv> 6"
abbreviation SSH_MSG_EXT_INFO :: byte where "SSH_MSG_EXT_INFO \<equiv> 7"
abbreviation MSG_KEXINIT :: byte where "MSG_KEXINIT \<equiv> 20"
abbreviation SSH_MSG_NEWKEYS :: byte where "SSH_MSG_NEWKEYS \<equiv> 21"
abbreviation SSH_MSG_KEX_ECDH_REPLY :: byte where "SSH_MSG_KEX_ECDH_REPLY \<equiv> 31"
abbreviation SSH_MSG_USERAUTH_FAILURE :: byte where "SSH_MSG_USERAUTH_FAILURE \<equiv> 51"
abbreviation SSH_MSG_USERAUTH_SUCCESS :: byte where "SSH_MSG_USERAUTH_SUCCESS \<equiv> 52"
abbreviation SSH_MSG_USERAUTH_INFO_REQUEST :: byte where "SSH_MSG_USERAUTH_INFO_REQUEST \<equiv> 60"
abbreviation SSH_MSG_GLOBAL_REQUEST :: byte where "SSH_MSG_GLOBAL_REQUEST \<equiv> 80"
abbreviation SSH_MSG_REQUEST_SUCCESS :: byte where "SSH_MSG_REQUEST_SUCCESS \<equiv> 81"
abbreviation SSH_MSG_REQUEST_FAILURE :: byte where "SSH_MSG_REQUEST_FAILURE \<equiv> 82"

definition MAX_VERSION_BYTES :: nat where "MAX_VERSION_BYTES = 8192"

subsection \<open>Version exchange\<close>

datatype version_scan = NeedMore | NotSsh2 | Identified string bytes

text \<open>\<open>replace(/\r?\n$/, '')\<close> on a line that ends with the only line feed in it.\<close>

definition strip_eol :: "string \<Rightarrow> string" where
  "strip_eol line =
     (let body = butlast line in if body \<noteq> [] \<and> last body = CHR 0x0D then butlast body else body)"

text \<open>The loop over the lines of the buffer.\<close>

function scan_version :: "bytes \<Rightarrow> version_scan" where
  "scan_version buf =
     (case dropWhile (\<lambda>b. b \<noteq> 0x0A) buf of
        [] \<Rightarrow> NeedMore
      | _ # rest \<Rightarrow>
          let line = strip_eol (utf8_lossy (takeWhile (\<lambda>b. b \<noteq> 0x0A) buf @ [0x0A])) in
          if \<not> starts_with ''SSH-'' line then scan_version rest
          else if \<not> isSSH2Identification line then NotSsh2
          else Identified line rest)"
  by pat_completeness auto
termination
proof (relation "measure length")
  fix buf x rest
  assume "dropWhile (\<lambda>b. b \<noteq> (0x0A :: byte)) buf = x # rest"
  then have "length (x # rest) \<le> length buf" by (metis length_dropWhile_le)
  then show "(rest, buf) \<in> measure length" by simp
qed simp

declare scan_version.simps [simp del]

definition startKex :: "'k session_env \<Rightarrow> ('k, unit) act" where
  "startKex env =
     (let kexinit = KEXInitBuilder_build (env_cookie env) in
      act_block [modify (\<lambda>s. s\<lparr>localKex := Some kexinit\<rparr>), sendPlain env kexinit])"

definition feed_parser :: "bytes \<Rightarrow> ('k, unit) act" where
  "feed_parser data = modify (\<lambda>s. s\<lparr>packetParser := Ssh_Packet.feed (packetParser s) data, readTask := Pumping\<rparr>)"

definition consume :: "'k session_env \<Rightarrow> bytes \<Rightarrow> ('k, unit) act" where
  "consume env data = with_state (\<lambda>s.
     if phase s = Version then
       let merged = versionBuffer s @ data in
       if MAX_VERSION_BYTES < length merged then throw ''SSH identification banner is too large''
       else act_block
         [modify (\<lambda>s. s\<lparr>versionBuffer := merged\<rparr>),
          case scan_version merged of
            NeedMore \<Rightarrow> return ()
          | NotSsh2 \<Rightarrow> throw ''The server does not support SSH 2.0''
          | Identified line remaining \<Rightarrow> act_block
              [modify (\<lambda>s. s\<lparr>transport := setRemoteVersion (transport s) line, versionBuffer := [], phase := Kex\<rparr>),
               status ''version_ready'' ''Version exchange complete; negotiating keys'',
               startKex env,
               act_when (remaining \<noteq> []) (feed_parser remaining)]]
     else feed_parser data)"

subsection \<open>Key exchange\<close>

definition first_of :: "'a list \<Rightarrow> 'a option" where
  "first_of xs = (case xs of [] \<Rightarrow> None | x # _ \<Rightarrow> Some x)"

definition sendEcdhInit :: "'k session_env \<Rightarrow> ('k, unit) act" where
  "sendEcdhInit env = with_state (\<lambda>s.
     case kexName s of
       None \<Rightarrow> throw ''Unsupported key exchange algorithm: none''
     | Some name \<Rightarrow>
         let n = keyPairs s; public = env_publicKey env n in
         if name \<noteq> [] \<and> isCurve25519KEXAlgorithm name then act_block
           [modify (\<lambda>s. s\<lparr>keyPairs := n + 1, curvePair := Some n, clientPublic := Some public\<rparr>),
            act_bind (attempt (rethrow (curve25519_buildInit public))) (sendPlain env)]
         else if name = KEX_ALGORITHM_ECDH_NISTP256 then act_block
           [modify (\<lambda>s. s\<lparr>keyPairs := n + 1, ecdhPair := Some n, clientPublic := Some public\<rparr>),
            sendPlain env (ecdh_buildInit public)]
         else throw ''Unsupported key exchange algorithm'')"

definition negotiated :: "string list \<Rightarrow> string list \<Rightarrow> string \<Rightarrow> ('k, string) act" where
  "negotiated client server label = attempt (rethrow (negotiate client server label))"

definition negotiated_mac :: "string \<Rightarrow> string list \<Rightarrow> string list \<Rightarrow> string \<Rightarrow> ('k, string) act" where
  "negotiated_mac cipherName client server label =
     act_bind (attempt (rethrow (getCipherSpec cipherName))) (\<lambda>spec.
       if cs_aead spec then return ''none'' else negotiated client server label)"

definition handleKexInit :: "'k session_env \<Rightarrow> bytes \<Rightarrow> ('k, unit) act" where
  "handleKexInit env payload = with_state (\<lambda>s.
     if encryptor s \<noteq> None then throw ''SSH rekey is not supported by this terminal session''
     else
       act_bind (modify (\<lambda>s. s\<lparr>remoteKex := Some payload\<rparr>)) (\<lambda>_.
       act_bind (case localKex s of None \<Rightarrow> throw ''TypeError'' | Some l \<Rightarrow> attempt (rethrow (parseKEXInit l))) (\<lambda>client.
       act_bind (attempt (rethrow (parseKEXInit payload))) (\<lambda>server.
       let clientKex = filterExtInfo (kexAlgorithms client); serverKex = filterExtInfo (kexAlgorithms server) in
       act_bind (negotiated clientKex serverKex ''key exchange algorithm'') (\<lambda>name.
       act_bind (modify (\<lambda>s. s\<lparr>kexName := Some name\<rparr>)) (\<lambda>_.
       act_bind (negotiated (hostKeyAlgorithms client) (hostKeyAlgorithms server) ''host key algorithm'') (\<lambda>hostAlg.
       act_bind (modify (\<lambda>s. s\<lparr>hostKeyAlgorithm := Some hostAlg,
                   ignoreNextKexPacket := (firstKexPacketFollows server
                     \<and> (first_of serverKex \<noteq> Some name \<or> first_of (hostKeyAlgorithms server) \<noteq> Some hostAlg))\<rparr>)) (\<lambda>_.
       act_bind (negotiated (encryptionC2S client) (encryptionC2S server) ''client cipher'') (\<lambda>c2s.
       act_bind (modify (\<lambda>s. s\<lparr>cipherC2S := c2s\<rparr>)) (\<lambda>_.
       act_bind (negotiated (encryptionS2C client) (encryptionS2C server) ''server cipher'') (\<lambda>s2c.
       act_bind (modify (\<lambda>s. s\<lparr>cipherS2C := s2c\<rparr>)) (\<lambda>_.
       act_bind (negotiated_mac c2s (KEXInitMessage.macC2S client) (KEXInitMessage.macC2S server) ''client MAC'') (\<lambda>m1.
       act_bind (modify (\<lambda>s. s\<lparr>macC2S := m1\<rparr>)) (\<lambda>_.
       act_bind (negotiated_mac s2c (KEXInitMessage.macS2C client) (KEXInitMessage.macS2C server) ''server MAC'') (\<lambda>m2.
       act_bind (modify (\<lambda>s. s\<lparr>macS2C := m2\<rparr>)) (\<lambda>_.
       act_bind (negotiated (compressionC2S client) (compressionC2S server) ''client compression'') (\<lambda>z1.
       if z1 \<noteq> ''none'' then throw ''SSH compression is not supported''
       else act_bind (negotiated (compressionS2C client) (compressionS2C server) ''server compression'') (\<lambda>z2.
       if z2 \<noteq> ''none'' then throw ''SSH compression is not supported''
       else sendEcdhInit env))))))))))))))))))"

text \<open>The exchange hash of the current key exchange.\<close>

definition exchange_hash :: "'k session_env \<Rightarrow> 'k session \<Rightarrow> bytes \<Rightarrow> bytes \<Rightarrow> bytes \<Rightarrow> bytes" where
  "exchange_hash env s hostKey serverKey secret =
     computeExchangeHash (env_sha256 env) (localVersion (transport s)) (remoteVersion (transport s))
       (the (localKex s)) (the (remoteKex s)) hostKey (the (clientPublic s)) serverKey secret"

text \<open>\<open>handleEcdhReply\<close> up to the verification of the signature: the shared secret, the exchange hash and the
  check of the key type.\<close>

definition shared_secret :: "'k session_env \<Rightarrow> 'k session \<Rightarrow> string \<Rightarrow> bytes \<Rightarrow> bytes sresult" where
  "shared_secret env s name serverKey =
     (if isCurve25519KEXAlgorithm name
      then (case curvePair s of
              None \<Rightarrow> fail_with ''Missing Curve25519 key''
            | Some n \<Rightarrow> rethrow (curve25519_computeSharedSecret (env_derive env n) serverKey))
      else (case ecdhPair s of
              None \<Rightarrow> fail_with ''Missing ECDH key''
            | Some n \<Rightarrow> rethrow (ecdh_computeSharedSecret (env_derive env n) serverKey)))"

definition checked_reply :: "'k session_env \<Rightarrow> 'k session \<Rightarrow> exchange_reply \<Rightarrow> bytes \<Rightarrow> reply_context sresult" where
  "checked_reply env s reply secret =
     (let hostKey = reply_hostKey reply;
          hash = exchange_hash env s hostKey (reply_serverKey reply) secret;
          keyTypeLength = readUint32 hostKey 0
      in
      if 128 < keyTypeLength \<or> length hostKey < keyTypeLength + 4 then fail_with ''Malformed SSH host key''
      else
        let name = utf8_lossy (subarray hostKey 4 (4 + keyTypeLength)) in
        if \<not> isHostKeyAlgorithmCompatible (hostKeyAlgorithm s) name then fail_with ''Server used another host key algorithm''
        else Inr \<lparr>ctx_hostKey = hostKey, ctx_signature = reply_signature reply, ctx_secret = secret,
                  ctx_hash = hash, ctx_keyType = name\<rparr>)"

definition received_reply :: "'k session_env \<Rightarrow> 'k session \<Rightarrow> bytes \<Rightarrow> reply_context sresult" where
  "received_reply env s payload =
     (case kexName s of
        None \<Rightarrow> fail_with ''Unexpected key exchange reply''
      | Some name \<Rightarrow>
          if name = [] \<or> clientPublic s = None \<or> localKex s = None \<or> remoteKex s = None
          then fail_with ''Unexpected key exchange reply''
          else and_then (rethrow (ecdh_parseReply payload)) (\<lambda>reply.
               and_then (shared_secret env s name (reply_serverKey reply)) (\<lambda>secret.
                 checked_reply env s reply secret)))"

definition handleEcdhReply :: "'k session_env \<Rightarrow> bytes \<Rightarrow> ('k, unit) act" where
  "handleEcdhReply env payload = with_state (\<lambda>s.
     act_bind (attempt (received_reply env s payload)) (\<lambda>ctx. modify (\<lambda>s. s\<lparr>readTask := VerifyingHost ctx\<rparr>)))"

definition make_cipher :: "'k session_env \<Rightarrow> CipherSpec \<Rightarrow> bytes \<Rightarrow> bytes \<Rightarrow> ('k, 'k cipher) act" where
  "make_cipher env spec key iv =
     (if cs_mode spec = Gcm
      then act_bind (attempt (rethrow (new_SSHAESGCMCipher (take (cs_keyLength spec) key) iv)))
             (\<lambda>c. return (GcmCipher (gcm_init (env_gcmKey env) c)))
      else act_bind (attempt (rethrow (new_SSHAESCTRCipher (take (cs_keyLength spec) key) iv)))
             (\<lambda>c. return (CtrCipher (ctr_init (env_ctrKey env) c))))"

definition enableOutboundEncryption :: "'k session_env \<Rightarrow> ('k, unit) act" where
  "enableOutboundEncryption env = with_state (\<lambda>s.
     case keys s of
       None \<Rightarrow> throw ''Session keys are not available''
     | Some k \<Rightarrow>
         act_bind (attempt (rethrow (getCipherSpec (cipherC2S s)))) (\<lambda>spec.
         act_bind (make_cipher env spec (encKeyClientToServer k) (ivClientToServer k)) (\<lambda>c.
         act_bind (modify (\<lambda>s. s\<lparr>encryptor := Some c\<rparr>)) (\<lambda>_.
           if cs_aead spec then return ()
           else act_bind (attempt (rethrow (new_SSHHMAC (macC2S s) (integrityKeyC2S k))))
                  (\<lambda>m. modify (\<lambda>s. s\<lparr>signer := Some (hmac_init (env_hmacKey env) m)\<rparr>))))))"

definition enableInboundEncryption :: "'k session_env \<Rightarrow> ('k, unit) act" where
  "enableInboundEncryption env = with_state (\<lambda>s.
     case keys s of
       None \<Rightarrow> throw ''Session keys are not available''
     | Some k \<Rightarrow>
         act_bind (attempt (rethrow (getCipherSpec (cipherS2C s)))) (\<lambda>spec.
         act_bind (make_cipher env spec (encKeyServerToClient k) (ivServerToClient k)) (\<lambda>c.
         act_bind (modify (\<lambda>s. s\<lparr>decryptor := Some c\<rparr>)) (\<lambda>_.
           if cs_aead spec then return ()
           else act_bind (attempt (rethrow (new_SSHHMAC (macS2C s) (integrityKeyS2C k))))
                  (\<lambda>m. modify (\<lambda>s. s\<lparr>verifier := Some (hmac_init (env_hmacKey env) m)\<rparr>))))))"

text \<open>The end of \<open>handleEcdhReply\<close>, once the host key is trusted or accepted.\<close>

definition finishKex :: "'k session_env \<Rightarrow> reply_context \<Rightarrow> ('k, unit) act" where
  "finishKex env ctx = act_block
     [status ''host_key_verified'' (''Host key verified ('' @ ctx_keyType ctx @ '')''),
      modify (\<lambda>s. s\<lparr>sessionId := Some (case sessionId s of None \<Rightarrow> ctx_hash ctx | Some i \<Rightarrow> i)\<rparr>),
      with_state (\<lambda>s.
        act_bind (attempt (rethrow (getCipherSpec (cipherC2S s)))) (\<lambda>c2s.
        act_bind (attempt (rethrow (getCipherSpec (cipherS2C s)))) (\<lambda>s2c.
        act_bind (attempt (rethrow (getMacSpec (macC2S s)))) (\<lambda>m1.
        act_bind (attempt (rethrow (getMacSpec (macS2C s)))) (\<lambda>m2.
          modify (\<lambda>s. s\<lparr>keys := Some (deriveKeys (env_sha256 env) (ctx_secret ctx) (ctx_hash ctx) (the (sessionId s))
             (cs_ivLength c2s) (cs_ivLength s2c) (ms_keyLength m1) (ms_keyLength m2)
             (cs_keyLength c2s) (cs_keyLength s2c))\<rparr>)))))),
      sendPlain env [SSH_MSG_NEWKEYS],
      enableOutboundEncryption env]"

definition confirmHostKey :: "reply_context \<Rightarrow> string \<Rightarrow> string option \<Rightarrow> ('k, unit) act" where
  "confirmHostKey ctx fingerprint expected = act_block
     [modify (\<lambda>s. s\<lparr>phase := HostConfirm\<rparr>),
      status ''host_key_confirmation'' ''Confirm this host key before credentials are sent'',
      modify (\<lambda>s. s\<lparr>pendingHostConfirmation := Some fingerprint, readTask := ConfirmingHost ctx\<rparr>),
      sendJson (HostKey fingerprint (ctx_keyType ctx) False expected)]"

text \<open>\<open>handleEcdhReply\<close> from the verification of the signature on.\<close>

definition verifyHost :: "'k session_env \<Rightarrow> reply_context \<Rightarrow> ('k, unit) act" where
  "verifyHost env ctx = with_state (\<lambda>s.
     let fingerprint = host_fingerprint (env_sha256 env) (ctx_hostKey ctx);
         expected = cfg_expectedFingerprint (config s)
     in
     act_bind (attempt (verifyHostSignature (env_subtle env) (env_importJwk env) (hostKeyAlgorithm s)
                 (ctx_hostKey ctx) (ctx_signature ctx) (ctx_hash ctx))) (\<lambda>ok.
       if \<not> ok then throw ''SSH host key signature verification failed''
       else case classifyHostKey expected fingerprint of
              Trusted \<Rightarrow> act_block
                [sendJson (HostKey fingerprint (ctx_keyType ctx) True None),
                 modify (\<lambda>s. s\<lparr>readTask := Pumping\<rparr>),
                 finishKex env ctx]
            | FirstSeen \<Rightarrow> confirmHostKey ctx fingerprint None
            | Changed \<Rightarrow> confirmHostKey ctx fingerprint expected))"

definition hostAnswered :: "'k session_env \<Rightarrow> reply_context \<Rightarrow> bool \<Rightarrow> ('k, unit) act" where
  "hostAnswered env ctx accepted =
     (if accepted then act_block [modify (\<lambda>s. s\<lparr>readTask := Pumping\<rparr>), finishKex env ctx]
      else throw ''Host key was not accepted'')"

text \<open>\<open>handleKex\<close>: the branch of NEWKEYS continues in \<open>inboundReady\<close> after the cipher is set up.\<close>

definition handleKex :: "'k session_env \<Rightarrow> byte \<Rightarrow> bytes \<Rightarrow> ('k, unit) act" where
  "handleKex env type payload = with_state (\<lambda>s.
     if ignoreNextKexPacket s then modify (\<lambda>s. s\<lparr>ignoreNextKexPacket := False\<rparr>)
     else if type = MSG_KEXINIT then handleKexInit env payload
     else if type = SSH_MSG_KEX_ECDH_REPLY then handleEcdhReply env payload
     else if type = SSH_MSG_NEWKEYS then
       if keys s = None \<or> encryptor s = None then throw ''Received NEWKEYS before completing key exchange''
       else act_block [enableInboundEncryption env, modify (\<lambda>s. s\<lparr>readTask := EnablingInbound\<rparr>)]
     else return ())"

definition inboundReady :: "'k session_env \<Rightarrow> ('k, unit) act" where
  "inboundReady env = act_block
     [modify (\<lambda>s. s\<lparr>phase := Auth, readTask := Pumping\<rparr>),
      status ''authenticating'' ''Encrypted transport established; authenticating'',
      sendEncrypted env (SSH_MSG_SERVICE_REQUEST # encodeStringText ''ssh-userauth'')]"

subsection \<open>User authentication\<close>

text \<open>The request that answers the acceptance of the service.\<close>

definition auth_request :: "'k session_env \<Rightarrow> 'k session \<Rightarrow> ('k, bytes) act" where
  "auth_request env s =
     (case cfg_authMethod (config s) of
        AuthPublicKey \<Rightarrow>
          (case cfg_privateKey (config s) of
             None \<Rightarrow> throw ''TypeError''
           | Some pem \<Rightarrow> attempt (rethrow (buildPublicKeyAuthRequest (env_subtle env) (cfg_username (config s))
                          pem (the (sessionId s)) (Some (serverSigAlgs s)))))
      | AuthPassword \<Rightarrow>
          return (buildPasswordAuthRequest (cfg_username (config s))
            (case cfg_password (config s) of None \<Rightarrow> '''' | Some p \<Rightarrow> p)))"

definition serviceAccepted :: "'k session_env \<Rightarrow> bytes \<Rightarrow> ('k, unit) act" where
  "serviceAccepted env payload = with_state (\<lambda>s.
     act_bind (attempt (session_readString payload 1)) (\<lambda>(service, after).
       if after \<noteq> length payload \<or> service \<noteq> ''ssh-userauth''
       then throw ''Invalid SSH user authentication service acceptance''
       else if authRequestSent s then throw ''Duplicate SSH user authentication service acceptance''
       else
         act_bind (auth_request env s) (\<lambda>request. act_block
           [modify (\<lambda>s. s\<lparr>authRequestSent := True\<rparr>),
            act_when (cfg_authMethod (config s) = AuthPublicKey)
              (modify (\<lambda>s. s\<lparr>config := (config s)\<lparr>cfg_privateKey := None\<rparr>\<rparr>)),
            sendEncrypted env request])))"

definition infoRequested :: "'k session_env \<Rightarrow> bytes \<Rightarrow> ('k, unit) act" where
  "infoRequested env payload = with_state (\<lambda>s.
     if cfg_authMethod (config s) \<noteq> AuthPassword \<or> passwordAuthMethod s \<noteq> KeyboardInteractiveMethod \<or> \<not> authRequestSent s
     then throw ''Unexpected SSH keyboard-interactive challenge''
     else
       act_bind (modify (\<lambda>s. s\<lparr>keyboardInteractiveRounds := keyboardInteractiveRounds s + 1\<rparr>)) (\<lambda>_.
       if 16 < keyboardInteractiveRounds s + 1 then throw ''Too many SSH keyboard-interactive challenge rounds''
       else act_bind (attempt (rethrow (parseKeyboardInteractiveChallenge payload))) (\<lambda>challenge.
       act_bind (if length (challenge_prompts challenge) = 0 then return []
                 else if keyboardInteractivePasswordSent s \<or> cfg_password (config s) = None
                 then throw ''SSH keyboard-interactive requested credentials more than once''
                 else attempt (rethrow (passwordResponsesForChallenge (env_lower env) challenge (the (cfg_password (config s)))
                        \<lparr>id_username = cfg_username (config s), id_host = cfg_host (config s)\<rparr>))) (\<lambda>responses.
       act_block
         [act_when (0 < length responses)
            (modify (\<lambda>s. s\<lparr>keyboardInteractivePasswordSent := True, config := (config s)\<lparr>cfg_password := None\<rparr>\<rparr>)),
          sendEncrypted env (buildKeyboardInteractiveResponse responses)]))))"

definition authSucceeded :: "'k session_env \<Rightarrow> bytes \<Rightarrow> ('k, unit) act" where
  "authSucceeded env payload = with_state (\<lambda>s.
     if length payload \<noteq> 1 then throw ''Malformed SSH authentication success''
     else if \<not> authRequestSent s then throw ''SSH authentication completed before credentials were sent''
     else case buildOpenSession (channelObjects s 0) 0 of
            (ch, open_message) \<Rightarrow> act_block
              [modify clear_credentials,
               status ''auth_success'' ''SSH authentication succeeded; opening terminal'',
               modify (\<lambda>s. s\<lparr>phase := Pty, keepaliveTimer := True, channelObjects := (channelObjects s)(0 := ch)\<rparr>),
               sendEncrypted env open_message])"

definition authFailed :: "'k session_env \<Rightarrow> bytes \<Rightarrow> ('k, unit) act" where
  "authFailed env payload = with_state (\<lambda>s.
     if \<not> authRequestSent s then throw ''SSH authentication failed before credentials were sent''
     else act_bind (attempt (validateAuthFailure payload)) (\<lambda>methods.
       if cfg_authMethod (config s) = AuthPassword \<and> passwordAuthMethod s = PasswordMethod
          \<and> cfg_password (config s) \<noteq> None \<and> ''keyboard-interactive'' \<in> set methods
       then act_block
         [modify (\<lambda>s. s\<lparr>passwordAuthMethod := KeyboardInteractiveMethod\<rparr>),
          sendEncrypted env (buildKeyboardInteractiveAuthRequest (cfg_username (config s)))]
       else act_block
         [modify (\<lambda>s. s\<lparr>config := (config s)\<lparr>cfg_password := None\<rparr>\<rparr>),
          throw ''SSH authentication failed'']))"

definition handleAuth :: "'k session_env \<Rightarrow> byte \<Rightarrow> bytes \<Rightarrow> ('k, unit) act" where
  "handleAuth env type payload =
     (if type = SSH_MSG_SERVICE_ACCEPT then serviceAccepted env payload
      else if type = SSH_MSG_USERAUTH_INFO_REQUEST then infoRequested env payload
      else if type = SSH_MSG_USERAUTH_SUCCESS then authSucceeded env payload
      else if type = SSH_MSG_USERAUTH_FAILURE then authFailed env payload
      else return ())"

definition handleGlobalRequest :: "'k session_env \<Rightarrow> bytes \<Rightarrow> ('k, unit) act" where
  "handleGlobalRequest env payload = with_state (\<lambda>s.
     act_bind (attempt (global_request_reply payload)) (\<lambda>wantsReply.
       act_when (wantsReply \<and> encryptor s \<noteq> None) (sendEncrypted env [SSH_MSG_REQUEST_FAILURE])))"

end
