(* ===== verification/Process_Framing.thy ===== *)
theory Process_Framing
  imports Text_Decoder
begin

text \<open>
  The framing of the process monitor: \<^verbatim>\<open>worker/src/webssh/backend/process-framing.ts\<close> and the loop of
  \<open>consumeProcessOutput\<close> in \<^verbatim>\<open>session.ts\<close>. The monitored command prints a marker before each snapshot; the
  session cuts the decoded output at the markers.
\<close>

subsection \<open>Searching\<close>

text \<open>\<open>indexOf\<close> and \<open>lastIndexOf\<close>. On UTF-8 text and an ASCII marker positions are byte positions.\<close>

fun indexOf :: "'a list \<Rightarrow> 'a list \<Rightarrow> nat option" where
  "indexOf m [] = (if m = [] then Some 0 else None)"
| "indexOf m (x # xs) = (if starts_with m (x # xs) then Some 0 else map_option Suc (indexOf m xs))"

definition lastIndexOf :: "'a list \<Rightarrow> 'a list \<Rightarrow> nat option" where
  "lastIndexOf m s = map_option (\<lambda>k. length s - k - length m) (indexOf (rev m) (rev s))"

subsection \<open>Retaining a partial marker\<close>

fun retain_loop :: "'a list \<Rightarrow> 'a list \<Rightarrow> nat \<Rightarrow> 'a list" where
  "retain_loop buffer marker 0 = []"
| "retain_loop buffer marker (Suc n) =
     (if Suc n \<le> length buffer \<and> drop (length buffer - Suc n) buffer = take (Suc n) marker
      then drop (length buffer - Suc n) buffer
      else retain_loop buffer marker n)"

definition retainTrailingMarkerPrefix :: "'a list \<Rightarrow> 'a list \<Rightarrow> 'a list" where
  "retainTrailingMarkerPrefix buffer marker =
     retain_loop buffer marker (min (length buffer) (length marker - 1))"

subsection \<open>Cutting\<close>

text \<open>The \<open>while\<close> loop: the snapshots that are complete, and the buffer that stays. A search from position
  \<open>n\<close> is a search in the rest.\<close>

function cut_snapshots :: "'a list \<Rightarrow> 'a list \<Rightarrow> 'a list list \<times> 'a list" where
  "cut_snapshots marker buffer =
     (case indexOf marker buffer of
        None \<Rightarrow> ([], retainTrailingMarkerPrefix buffer marker)
      | Some first \<Rightarrow>
          let buffer = drop first buffer in
          case indexOf marker (drop (length marker) buffer) of
            None \<Rightarrow> ([], buffer)
          | Some after \<Rightarrow>
              if marker = [] then ([], buffer)
              else case cut_snapshots marker (drop (length marker + after) buffer) of
                     (snapshots, rest) \<Rightarrow> (take after (drop (length marker) buffer) # snapshots, rest))"
  by pat_completeness auto

lemma indexOf_Some:
  assumes "indexOf m s = Some k"
  shows "take (length m) (drop k s) = m" "k + length m \<le> length s"
proof -
  have "take (length m) (drop k s) = m \<and> k + length m \<le> length s"
    using assms
  proof (induction s arbitrary: k)
    case (Cons x xs)
    show ?case
    proof (cases "starts_with m (x # xs)")
      case True
      then have "take (length m) (x # xs) = m" "k = 0" using Cons.prems by (auto simp: starts_with_def)
      moreover from this(1) have "length m \<le> length (x # xs)" by (metis length_take min.cobounded1)
      ultimately show ?thesis by simp
    next
      case False
      then obtain j where "indexOf m xs = Some j" "k = Suc j" using Cons.prems by auto
      with Cons.IH show ?thesis by simp
    qed
  qed (simp split: if_splits)
  then show "take (length m) (drop k s) = m" "k + length m \<le> length s" by simp_all
qed

termination cut_snapshots
proof (relation "measure (\<lambda>(marker, buffer). length buffer)")
  fix marker buffer :: "'a list" and first x after
  assume "indexOf marker buffer = Some first" "x = drop first buffer" "marker \<noteq> []"
  then show "((marker, drop (length marker + after) x), marker, buffer) \<in> measure (\<lambda>(marker, buffer). length buffer)"
    using indexOf_Some(2) [of marker buffer first] by (cases marker) auto
qed simp

declare cut_snapshots.simps [simp del]

lemma indexOf_first:
  assumes "indexOf m s = Some k" "j < k"
  shows "take (length m) (drop j s) \<noteq> m"
  using assms
proof (induction s arbitrary: j k)
  case (Cons x xs)
  then show ?case by (cases j) (auto simp: starts_with_def split: if_splits)
qed (simp split: if_splits)

lemma indexOf_None:
  assumes "indexOf m s = None"
  shows "take (length m) (drop j s) \<noteq> m"
  using assms
proof (induction s arbitrary: j)
  case (Cons x xs)
  then show ?case by (cases j) (auto simp: starts_with_def split: if_splits)
qed (simp split: if_splits)

lemma indexOf_eqI:
  assumes "take (length m) (drop k s) = m" "k \<le> length s" "\<And>j. j < k \<Longrightarrow> take (length m) (drop j s) \<noteq> m"
  shows "indexOf m s = Some k"
proof (cases "indexOf m s")
  case None
  then show ?thesis using indexOf_None [OF None] assms(1) by blast
next
  case (Some i)
  then show ?thesis using indexOf_Some [OF Some] indexOf_first [OF Some] assms by (metis linorder_neqE_nat)
qed

lemma indexOf_append:
  assumes "indexOf m s = Some k"
  shows "indexOf m (s @ x) = Some k"
proof (rule indexOf_eqI)
  note b = indexOf_Some [OF assms]
  show "take (length m) (drop k (s @ x)) = m" using b by simp
  show "k \<le> length (s @ x)" using b by simp
  fix j assume "j < k"
  then show "take (length m) (drop j (s @ x)) \<noteq> m" using indexOf_first [OF assms \<open>j < k\<close>] b(2) by simp
qed

text \<open>What is retained: the longest suffix that is a proper prefix of the marker.\<close>

definition partial_marker :: "'a list \<Rightarrow> 'a list \<Rightarrow> nat \<Rightarrow> bool" where
  "partial_marker marker buffer k \<longleftrightarrow>
     k \<le> length buffer \<and> k \<le> length marker - 1 \<and> drop (length buffer - k) buffer = take k marker"

lemma retain_loop_longest:
  "n \<le> min (length buffer) (length marker - 1) \<Longrightarrow>
     \<exists>k\<le>n. partial_marker marker buffer k \<and> retain_loop buffer marker n = drop (length buffer - k) buffer
       \<and> (\<forall>i\<le>n. partial_marker marker buffer i \<longrightarrow> i \<le> k)"
proof (induction n)
  case 0
  then show ?case by (simp add: partial_marker_def)
next
  case (Suc n)
  show ?case
  proof (cases "partial_marker marker buffer (Suc n)")
    case True
    then have "retain_loop buffer marker (Suc n) = drop (length buffer - Suc n) buffer" by (simp add: partial_marker_def)
    with True show ?thesis by (intro exI [of _ "Suc n"]) simp
  next
    case False
    then have "retain_loop buffer marker (Suc n) = retain_loop buffer marker n" using Suc.prems by (auto simp: partial_marker_def)
    with False Suc show ?thesis by (metis Suc_leD le_SucE le_SucI)
  qed
qed

lemma retained:
  obtains k where "partial_marker marker buffer k" "retainTrailingMarkerPrefix buffer marker = drop (length buffer - k) buffer"
    "\<forall>i. partial_marker marker buffer i \<longrightarrow> i \<le> k"
proof -
  let ?n = "min (length buffer) (length marker - 1)"
  obtain k where k: "partial_marker marker buffer k" "retain_loop buffer marker ?n = drop (length buffer - k) buffer"
    "\<forall>i\<le>?n. partial_marker marker buffer i \<longrightarrow> i \<le> k"
    using retain_loop_longest [of ?n buffer marker] by blast
  have "i \<le> ?n" if "partial_marker marker buffer i" for i using that by (simp add: partial_marker_def)
  with k that show thesis by (simp add: retainTrailingMarkerPrefix_def)
qed

lemma retained_suffix:
  obtains p where "buffer = p @ retainTrailingMarkerPrefix buffer marker"
  using retained [of marker buffer] by (metis append_take_drop_id)

lemma length_retained: "partial_marker marker buffer i \<Longrightarrow> i \<le> length (retainTrailingMarkerPrefix buffer marker)"
proof (rule retained [of marker buffer])
  fix k
  assume i: "partial_marker marker buffer i" and k: "partial_marker marker buffer k"
    and r: "retainTrailingMarkerPrefix buffer marker = drop (length buffer - k) buffer"
    and mx: "\<forall>i. partial_marker marker buffer i \<longrightarrow> i \<le> k"
  have "k \<le> length buffer" using k unfolding partial_marker_def by blast
  then have "length (retainTrailingMarkerPrefix buffer marker) = k" unfolding r by simp
  then show "i \<le> length (retainTrailingMarkerPrefix buffer marker)" using mx i by simp
qed

lemma partial_append:
  assumes "partial_marker marker (buffer @ x) n" "length x \<le> n"
  shows "partial_marker marker buffer (n - length x)"
proof -
  have "drop (length buffer + length x - n) (buffer @ x) = take n marker" "n \<le> length buffer + length x" "n \<le> length marker - 1"
    using assms(1) by (auto simp: partial_marker_def)
  then have "drop (length buffer - (n - length x)) buffer @ x = take n marker" using assms(2) by simp
  from arg_cong [OF this, of "take (n - length x)"] have "drop (length buffer - (n - length x)) buffer = take (n - length x) marker"
    using assms \<open>n \<le> length buffer + length x\<close> by (simp add: min_def)
  moreover have "n - length x \<le> length buffer" "n - length x \<le> length marker - 1"
    using \<open>n \<le> length buffer + length x\<close> \<open>n \<le> length marker - 1\<close> by linarith+
  ultimately show ?thesis by (simp add: partial_marker_def)
qed

text \<open>Retaining in two steps is retaining once.\<close>

lemma retained_append:
  "retainTrailingMarkerPrefix (retainTrailingMarkerPrefix buffer marker @ x) marker = retainTrailingMarkerPrefix (buffer @ x) marker"
proof -
  define r where "r = retainTrailingMarkerPrefix buffer marker"
  obtain p where p: "buffer = p @ r" unfolding r_def by (rule retained_suffix)
  have eq: "partial_marker marker (r @ x) n \<longleftrightarrow> partial_marker marker (buffer @ x) n" for n
  proof
    assume "partial_marker marker (r @ x) n"
    then show "partial_marker marker (buffer @ x) n" by (auto simp: partial_marker_def p)
  next
    assume a: "partial_marker marker (buffer @ x) n"
    have "n \<le> length (r @ x)"
    proof (cases "length x \<le> n")
      case True
      have "n - length x \<le> length r" unfolding r_def by (rule length_retained [OF partial_append [OF a True]])
      then show ?thesis by simp
    qed simp
    then show "partial_marker marker (r @ x) n" using a by (simp add: partial_marker_def p)
  qed
  obtain k where k: "partial_marker marker (r @ x) k" "retainTrailingMarkerPrefix (r @ x) marker = drop (length (r @ x) - k) (r @ x)"
    "\<forall>i. partial_marker marker (r @ x) i \<longrightarrow> i \<le> k" by (rule retained [of marker "r @ x"])
  obtain n where n: "partial_marker marker (buffer @ x) n"
    "retainTrailingMarkerPrefix (buffer @ x) marker = drop (length (buffer @ x) - n) (buffer @ x)"
    "\<forall>i. partial_marker marker (buffer @ x) i \<longrightarrow> i \<le> n" by (rule retained [of marker "buffer @ x"])
  have "k = n" using k(1,3) n(1,3) eq by (meson le_antisym)
  moreover have "k \<le> length (r @ x)" using k(1) unfolding partial_marker_def by blast
  ultimately have "drop (length (buffer @ x) - n) (buffer @ x) = drop (length (r @ x) - k) (r @ x)" by (simp add: p)
  then show ?thesis using k(2) n(2) unfolding r_def [symmetric] by simp
qed

text \<open>Dropping what cannot belong to a marker does not change the search: an occurrence that the following
  bytes complete begins in the retained part.\<close>

lemma indexOf_retained:
  fixes buffer marker :: "'a list"
  assumes none: "indexOf marker buffer = None" and ne: "marker \<noteq> []"
  defines "r \<equiv> retainTrailingMarkerPrefix buffer marker"
  defines "d \<equiv> length buffer - length r"
  shows "indexOf marker (buffer @ x) = map_option (\<lambda>k. k + d) (indexOf marker (r @ x))"
proof -
  obtain p where p: "buffer = p @ r" unfolding r_def by (rule retained_suffix)
  then have d: "d = length p" by (simp add: d_def)
  have start: "d \<le> j" if "take (length marker) (drop j (buffer @ x)) = marker" for j
  proof (rule ccontr)
    assume "\<not> d \<le> j"
    then have j: "j < length p" using d by simp
    then have jb: "j < length buffer" using p by simp
    have "\<not> j + length marker \<le> length buffer"
    proof
      assume "j + length marker \<le> length buffer"
      then have "take (length marker) (drop j buffer) = marker" using that by simp
      then show False using indexOf_None [OF none] by blast
    qed
    then have "drop j buffer = take (length buffer - j) marker"
      using arg_cong [OF that, of "take (length buffer - j)"] jb by (simp add: min_def)
    then have "length buffer - j \<le> length r"
      unfolding r_def using jb \<open>\<not> j + length marker \<le> length buffer\<close>
      by (intro length_retained) (auto simp: partial_marker_def)
    then show False using j p by simp
  qed
  show ?thesis
  proof (cases "indexOf marker (r @ x)")
    case None
    have "indexOf marker (buffer @ x) = None"
    proof (rule ccontr)
      assume "indexOf marker (buffer @ x) \<noteq> None"
      then obtain k where k: "indexOf marker (buffer @ x) = Some k" by blast
      have "take (length marker) (drop (k - d) (r @ x)) = marker"
        using indexOf_Some(1) [OF k] start [OF indexOf_Some(1) [OF k]] by (simp add: p d)
      then show False using indexOf_None [OF None] by blast
    qed
    then show ?thesis using None by simp
  next
    case (Some k)
    have "indexOf marker (buffer @ x) = Some (k + d)"
    proof (rule indexOf_eqI)
      show "take (length marker) (drop (k + d) (buffer @ x)) = marker" using indexOf_Some(1) [OF Some] by (simp add: p d)
      show "k + d \<le> length (buffer @ x)" using indexOf_Some(2) [OF Some] by (simp add: p d)
      fix j assume j: "j < k + d"
      show "take (length marker) (drop j (buffer @ x)) \<noteq> marker"
      proof
        assume m: "take (length marker) (drop j (buffer @ x)) = marker"
        then have "take (length marker) (drop (j - d) (r @ x)) = marker" using start [OF m] by (simp add: p d)
        moreover have "j - d < k" using j start [OF m] by linarith
        ultimately show False using indexOf_first [OF Some] by blast
      qed
    qed
    then show ?thesis using Some by simp
  qed
qed

lemma cut_snapshots_drop:
  assumes "indexOf marker buffer = Some k"
  shows "cut_snapshots marker buffer = cut_snapshots marker (drop k buffer)"
proof -
  have "indexOf marker (drop k buffer) = Some 0"
    by (rule indexOf_eqI) (use indexOf_Some [OF assms] in auto)
  then show ?thesis using assms by (simp add: cut_snapshots.simps [of marker buffer] cut_snapshots.simps [of marker "drop k buffer"])
qed

text \<open>Cutting what has arrived so far and then what follows is cutting the whole.\<close>

lemma cut_snapshots_append:
  assumes "marker \<noteq> []" "cut_snapshots marker buffer = (snaps, rest)" "cut_snapshots marker (rest @ x) = (snaps', rest')"
  shows "cut_snapshots marker (buffer @ x) = (snaps @ snaps', rest')"
  using assms
proof (induction marker buffer arbitrary: snaps rule: cut_snapshots.induct)
  case (1 marker buffer)
  show ?case
  proof (cases "indexOf marker buffer")
    case None
    then have r: "rest = retainTrailingMarkerPrefix buffer marker" "snaps = []"
      using "1.prems"(2) by (simp_all add: cut_snapshots.simps [of marker buffer])
    obtain p where p: "buffer = p @ rest" unfolding r(1) by (rule retained_suffix)
    let ?d = "length buffer - length rest"
    have ix: "indexOf marker (buffer @ x) = map_option (\<lambda>k. k + ?d) (indexOf marker (rest @ x))"
      using indexOf_retained [OF None "1.prems"(1)] r(1) by simp
    show ?thesis
    proof (cases "indexOf marker (rest @ x)")
      case None
      have "retainTrailingMarkerPrefix (buffer @ x) marker = retainTrailingMarkerPrefix (rest @ x) marker"
        unfolding r(1) by (rule retained_append [symmetric])
      then show ?thesis using None ix "1.prems"(3) r(2)
        by (simp add: cut_snapshots.simps [of marker "buffer @ x"] cut_snapshots.simps [of marker "rest @ x"])
    next
      case (Some k)
      then have "cut_snapshots marker (buffer @ x) = cut_snapshots marker (drop (k + ?d) (buffer @ x))"
        using ix by (intro cut_snapshots_drop) simp
      also have "drop (k + ?d) (buffer @ x) = drop k (rest @ x)" using p by (simp add: add.commute flip: drop_drop)
      also have "cut_snapshots marker \<dots> = cut_snapshots marker (rest @ x)" using cut_snapshots_drop [OF Some] by simp
      finally show ?thesis using "1.prems"(3) r(2) by simp
    qed
  next
    case (Some first)
    note f = Some
    let ?b = "drop first buffer"
    have fx: "indexOf marker (buffer @ x) = Some first" using indexOf_append [OF Some] .
    have lb: "first + length marker \<le> length buffer" using indexOf_Some(2) [OF Some] .
    show ?thesis
    proof (cases "indexOf marker (drop (length marker) ?b)")
      case None
      then have "rest = ?b" "snaps = []" using Some "1.prems"(2) by (simp_all add: cut_snapshots.simps [of marker buffer])
      then show ?thesis using cut_snapshots_drop [OF fx] lb "1.prems"(3) by simp
    next
      case (Some after)
      let ?b' = "drop (length marker + after) ?b"
      obtain s1 where s1: "cut_snapshots marker ?b' = (s1, rest)" "snaps = take after (drop (length marker) ?b) # s1"
        using f Some "1.prems"(1,2) by (auto simp: cut_snapshots.simps [of marker buffer] split: prod.splits)
      have IH: "cut_snapshots marker (?b' @ x) = (s1 @ snaps', rest')"
        using "1.IH" [OF f refl Some] "1.prems"(1,3) s1(1) by blast
      have la: "after + length marker \<le> length buffer - first - length marker" using indexOf_Some(2) [OF Some] by simp
      have ax: "indexOf marker (drop (length marker) (drop first (buffer @ x))) = Some after"
        using indexOf_append [OF Some, of x] lb by simp
      show ?thesis using fx ax IH "1.prems"(1) s1(2) lb la
        by (simp add: cut_snapshots.simps [of marker "buffer @ x"])
    qed
  qed
qed

subsection \<open>The monitored stream\<close>

definition PROCESS_SNAPSHOT_MARKER :: string where
  "PROCESS_SNAPSHOT_MARKER = ''__CF_WEBSSH_TOP_SNAPSHOT__''"

definition PROCESS_MAX_BUFFER_BYTES :: nat where "PROCESS_MAX_BUFFER_BYTES = 2 * 1024 * 1024"

text \<open>\<open>consumeProcessOutput\<close>: decoder and buffer after a chunk, the snapshots emitted, and whether the buffer
  limit was exceeded.\<close>

definition consumeProcessOutput :: "text_decoder \<Rightarrow> string \<Rightarrow> bytes \<Rightarrow> text_decoder \<times> string \<times> string list \<times> bool" where
  "consumeProcessOutput d buffer data =
     (case decode_stream d data of
        (d, decoded) \<Rightarrow>
          let buffer = buffer @ decoded in
          if PROCESS_MAX_BUFFER_BYTES < u16_length buffer
          then (d,
                case lastIndexOf PROCESS_SNAPSHOT_MARKER buffer of
                  Some marker \<Rightarrow> drop marker buffer
                | None \<Rightarrow> retainTrailingMarkerPrefix buffer PROCESS_SNAPSHOT_MARKER,
                [], True)
          else case cut_snapshots PROCESS_SNAPSHOT_MARKER buffer of
                 (snapshots, rest) \<Rightarrow> (d, rest, snapshots, False))"

text \<open>\<open>flushProcessBuffer\<close>, when the command ends.\<close>

definition flushProcessBuffer :: "text_decoder \<Rightarrow> string \<Rightarrow> text_decoder \<times> string \<times> string list" where
  "flushProcessBuffer d buffer =
     (let buffer = buffer @ snd (decode_flush d) in
      (new_TextDecoder, [],
       case lastIndexOf PROCESS_SNAPSHOT_MARKER buffer of
         None \<Rightarrow> []
       | Some marker \<Rightarrow> [drop (marker + length PROCESS_SNAPSHOT_MARKER) buffer]))"

fun consume_all :: "text_decoder \<Rightarrow> string \<Rightarrow> bytes list \<Rightarrow> text_decoder \<times> string \<times> string list \<times> bool" where
  "consume_all d buffer [] = (d, buffer, [], False)"
| "consume_all d buffer (c # cs) =
     (case consumeProcessOutput d buffer c of
        (d, buffer, snapshots, overflow) \<Rightarrow>
          case consume_all d buffer cs of
            (d, buffer, snapshots', overflow') \<Rightarrow> (d, buffer, snapshots @ snapshots', overflow \<or> overflow'))"

lemma marker_ne [simp]: "PROCESS_SNAPSHOT_MARKER \<noteq> []"
  by (simp add: PROCESS_SNAPSHOT_MARKER_def)

text \<open>The snapshots are the segments between consecutive markers.\<close>

lemma cut_snapshots_segments:
  assumes "marker \<noteq> []" "cut_snapshots marker buffer = (snaps, rest)"
  shows "(case indexOf marker buffer of None \<Rightarrow> snaps = [] | Some k \<Rightarrow> drop k buffer = concat (map ((@) marker) snaps) @ rest)
     \<and> list_all (\<lambda>s. indexOf marker (s @ marker) = Some (length s)) snaps"
  using assms
proof (induction marker buffer arbitrary: snaps rule: cut_snapshots.induct)
  case (1 marker buffer)
  show ?case
  proof (cases "indexOf marker buffer")
    case None
    then show ?thesis using "1.prems"(2) by (simp add: cut_snapshots.simps [of marker buffer])
  next
    case (Some first)
    note f = Some
    let ?b = "drop first buffer"
    show ?thesis
    proof (cases "indexOf marker (drop (length marker) ?b)")
      case None
      then show ?thesis using Some "1.prems"(2) by (simp add: cut_snapshots.simps [of marker buffer])
    next
      case (Some after)
      let ?c = "drop (length marker) ?b"
      let ?s = "take after ?c" and ?b' = "drop (length marker + after) ?b"
      obtain s1 where s1: "cut_snapshots marker ?b' = (s1, rest)" "snaps = ?s # s1"
        using f Some "1.prems"(1,2) by (auto simp: cut_snapshots.simps [of marker buffer] split: prod.splits)
      note a = indexOf_Some [OF Some] and fi = indexOf_Some [OF f]
      have b': "?b' = drop after ?c" by (simp add: ac_simps)
      have "indexOf marker ?b' = Some 0" unfolding b' by (rule indexOf_eqI) (use a(1) in auto)
      then have IH: "?b' = concat (map ((@) marker) s1) @ rest" "list_all (\<lambda>s. indexOf marker (s @ marker) = Some (length s)) s1"
        using "1.IH" [OF f refl Some "1.prems"(1) "1.prems"(1) s1(1)] by simp_all
      have "?b = marker @ ?c" using fi(1) by (metis append_take_drop_id)
      moreover have "?c = ?s @ ?b'" unfolding b' by (simp only: append_take_drop_id)
      ultimately have "?b = marker @ ?s @ concat (map ((@) marker) s1) @ rest" using IH(1) by metis
      then have A: "?b = concat (map ((@) marker) snaps) @ rest" unfolding s1(2) by (simp only: list.map concat.simps append_assoc)
      have B: "indexOf marker (?s @ marker) = Some (length ?s)"
      proof (rule indexOf_eqI)
        fix j assume "j < length ?s"
        then have j: "j < after" by simp
        have "?s @ marker = take (after + length marker) ?c" using a by (metis take_add)
        then show "take (length marker) (drop j (?s @ marker)) \<noteq> marker"
          using indexOf_first [OF Some j] j "1.prems"(1) by (simp add: drop_take min_def)
      qed simp_all
      have "list_all (\<lambda>s. indexOf marker (s @ marker) = Some (length s)) snaps"
        unfolding s1(2) list.pred_inject using B IH(2) by (rule conjI)
      with A show ?thesis unfolding f option.case by (rule conjI)
    qed
  qed
qed

lemma cut_snapshots_rest:
  assumes "marker \<noteq> []" "cut_snapshots marker buffer = (snaps, rest)"
  shows "cut_snapshots marker rest = ([], rest)"
proof -
  obtain s r where "cut_snapshots marker (rest @ []) = (s, r)" by fastforce
  with cut_snapshots_append [OF assms this] assms(2) show ?thesis by simp
qed

lemma cut_snapshots_Nil: "marker \<noteq> [] \<Longrightarrow> cut_snapshots marker [] = ([], [])"
  by (simp add: cut_snapshots.simps [of marker "[]"] retainTrailingMarkerPrefix_def)

lemma consume_all_cut:
  assumes "consume_all d buffer chunks = (d', buffer', snaps, False)" "cut_snapshots PROCESS_SNAPSHOT_MARKER buffer = ([], buffer)"
  shows "\<exists>decoded. decode_stream d (concat chunks) = (d', decoded)
     \<and> cut_snapshots PROCESS_SNAPSHOT_MARKER (buffer @ decoded) = (snaps, buffer')"
  using assms
proof (induction chunks arbitrary: d buffer snaps)
  case Nil
  then show ?case by (simp add: decode_stream_def td_bom_def)
next
  case (Cons c cs)
  obtain d1 t1 where d1: "decode_stream d c = (d1, t1)" by fastforce
  obtain s1 b1 where c1: "cut_snapshots PROCESS_SNAPSHOT_MARKER (buffer @ t1) = (s1, b1)" by fastforce
  have "\<not> PROCESS_MAX_BUFFER_BYTES < u16_length (buffer @ t1)"
    using Cons.prems(1) d1 by (auto simp: consumeProcessOutput_def Let_def split: prod.splits if_splits)
  then obtain s2 where s2: "consume_all d1 b1 cs = (d', buffer', s2, False)" "snaps = s1 @ s2"
    using Cons.prems(1) d1 c1 by (auto simp: consumeProcessOutput_def Let_def split: prod.splits)
  have "cut_snapshots PROCESS_SNAPSHOT_MARKER b1 = ([], b1)" by (rule cut_snapshots_rest [OF marker_ne c1])
  from Cons.IH [OF s2(1) this] obtain t2 where t2: "decode_stream d1 (concat cs) = (d', t2)"
    "cut_snapshots PROCESS_SNAPSHOT_MARKER (b1 @ t2) = (s2, buffer')" by blast
  have "cut_snapshots PROCESS_SNAPSHOT_MARKER (buffer @ t1 @ t2) = (snaps, buffer')"
    using cut_snapshots_append [OF marker_ne c1 t2(2)] s2(2) by simp
  then show ?case using d1 t2(1) by (simp add: decode_stream_append)
qed

text \<open>C13: However the output of the monitored command is cut into channel messages, even inside a character or a
  marker, the snapshots handed on are exactly the segments between consecutive markers of the decoded output, in
  order and without a marker inside, and what follows the last marker stays in the buffer: provided that the buffer
  never overflows while these chunks are consumed. That is a condition on the chunks and not only on the snapshots: the
  limit is tested after a chunk has been appended to the buffer and before it is cut.\<close>

theorem process_snapshots_chunking:
  assumes "consume_all new_TextDecoder [] chunks = (d, buffer, snaps, False)"
  obtains decoded where "decode_stream new_TextDecoder (concat chunks) = (d, decoded)"
    and "cut_snapshots PROCESS_SNAPSHOT_MARKER decoded = (snaps, buffer)"
    and "indexOf PROCESS_SNAPSHOT_MARKER decoded = None \<longrightarrow> snaps = []"
    and "\<forall>k. indexOf PROCESS_SNAPSHOT_MARKER decoded = Some k
           \<longrightarrow> drop k decoded = concat (map ((@) PROCESS_SNAPSHOT_MARKER) snaps) @ buffer"
    and "list_all (\<lambda>s. indexOf PROCESS_SNAPSHOT_MARKER (s @ PROCESS_SNAPSHOT_MARKER) = Some (length s)) snaps"
proof -
  obtain decoded where d: "decode_stream new_TextDecoder (concat chunks) = (d, decoded)"
    "cut_snapshots PROCESS_SNAPSHOT_MARKER decoded = (snaps, buffer)"
    using consume_all_cut [OF assms cut_snapshots_Nil [OF marker_ne]] by auto
  show thesis by (rule that [OF d]) (use cut_snapshots_segments [OF marker_ne d(2)] in \<open>auto split: option.splits\<close>)
qed

theorem process_snapshots_chunking_witness:
  "\<exists>decoded. cut_snapshots PROCESS_SNAPSHOT_MARKER decoded = ([''a''], PROCESS_SNAPSHOT_MARKER)"
proof -
  let ?m = "utf8_encode PROCESS_SNAPSHOT_MARKER" and ?d = "new_TextDecoder\<lparr>td_bomSeen := True\<rparr>"
  let ?c1 = "[0x20] @ take 5 ?m" and ?c2 = "drop 5 ?m @ [0x61] @ ?m"
  let ?t1 = "CHR '' '' # take 5 PROCESS_SNAPSHOT_MARKER" and ?t2 = "drop 5 PROCESS_SNAPSHOT_MARKER @ ''a'' @ PROCESS_SNAPSHOT_MARKER"
  have d: "decode_stream new_TextDecoder ?c1 = (?d, ?t1)" "decode_stream ?d ?c2 = (?d, ?t2)" by code_simp+
  have c: "cut_snapshots PROCESS_SNAPSHOT_MARKER ?t1 = ([], take 5 PROCESS_SNAPSHOT_MARKER)"
    "cut_snapshots PROCESS_SNAPSHOT_MARKER (take 5 PROCESS_SNAPSHOT_MARKER @ ?t2) = ([''a''], PROCESS_SNAPSHOT_MARKER)" by code_simp+
  have u: "u16_length ?t1 = 6" "u16_length (take 5 PROCESS_SNAPSHOT_MARKER @ ?t2) = 53" by code_simp+
  have "consumeProcessOutput new_TextDecoder [] ?c1 = (?d, take 5 PROCESS_SNAPSHOT_MARKER, [], False)"
    unfolding consumeProcessOutput_def d(1) using c(1) u(1) by (simp add: PROCESS_MAX_BUFFER_BYTES_def)
  moreover have "consumeProcessOutput ?d (take 5 PROCESS_SNAPSHOT_MARKER) ?c2 = (?d, PROCESS_SNAPSHOT_MARKER, [''a''], False)"
    unfolding consumeProcessOutput_def d(2) prod.case Let_def c(2) u(2) by (simp add: PROCESS_MAX_BUFFER_BYTES_def)
  ultimately have "consume_all new_TextDecoder [] [?c1, ?c2] = (?d, PROCESS_SNAPSHOT_MARKER, [''a''], False)"
    by (simp only: consume_all.simps prod.case append_Nil append_Nil2 simp_thms)
  then show ?thesis by (rule process_snapshots_chunking) blast
qed
end
