(* ===== verification/Js_Json.thy ===== *)
theory Js_Json
  imports Complex_Main Js_Text
begin

text \<open>
  Messages of the browser as the handlers see them: the result of \<open>JSON.parse\<close>, and the tests of the sources on
  its fields. A text that does not parse is the missing value.
\<close>

text \<open>The values that \<open>JSON.parse\<close> returns. A number is a rational or, for a literal out of range, infinite; an
  object keeps its fields, the last one of a name counting.\<close>

datatype js_num = Finite rat | NonFinite

datatype json = JNull | JBool bool | JNum js_num | JStr string | JArr "json list" | JObj "(string \<times> json) list"

fun json_field :: "json \<Rightarrow> string \<Rightarrow> json option" where
  "json_field (JObj fs) name = map_of (rev fs) name"
| "json_field _ _ = None"

fun is_object :: "json \<Rightarrow> bool" where
  "is_object (JObj _) = True"
| "is_object _ = False"

text \<open>\<open>Number.isInteger\<close> with its value, and \<open>Number.isSafeInteger\<close>.\<close>

definition json_integer :: "json option \<Rightarrow> int option" where
  "json_integer v = (case v of Some (JNum (Finite q)) \<Rightarrow> if q = of_int \<lfloor>q\<rfloor> then Some \<lfloor>q\<rfloor> else None | _ \<Rightarrow> None)"

definition json_safe_integer :: "json option \<Rightarrow> int option" where
  "json_safe_integer v =
     (case json_integer v of Some i \<Rightarrow> if \<bar>i\<bar> \<le> MAX_SAFE_INTEGER then Some i else None | None \<Rightarrow> None)"

end
