(* ===== verification/Session_Channels.thy ===== *)
theory Session_Channels
  imports Session_Handshake Process_Framing Js_Json
begin

text \<open>
  The connected session (\<^verbatim>\<open>worker/src/webssh/backend/session.ts\<close>): the shell channel with its input queue,
  the process monitor and its \<open>kill\<close> channels, and the life cycle of the SFTP channel. The SFTP handler's own
  work is recorded as calls; whether its \<open>feed\<close> throws is an argument of the handlers, so every outcome is covered.
  The loop of \<open>flushInput\<close> is suspended at the await of each send: what follows the await is an event of its own
  (\<open>flush_resumed\<close>), and until then other events find the flag \<open>flushingInput\<close> set.
\<close>

definition LOCAL_WINDOW_THRESHOLD :: nat where "LOCAL_WINDOW_THRESHOLD = 512 * 1024"
definition MAX_QUEUED_INPUT :: nat where "MAX_QUEUED_INPUT = 1024 * 1024"
definition MAX_CLIENT_BINARY_INPUT_BYTES :: nat where "MAX_CLIENT_BINARY_INPUT_BYTES = 64 * 1024"
definition MAX_CLIENT_TEXT_INPUT_CHARS :: nat where "MAX_CLIENT_TEXT_INPUT_CHARS = 256 * 1024"
definition MAX_PENDING_PROCESS_KILLS :: nat where "MAX_PENDING_PROCESS_KILLS = 8"
definition PROCESS_KILL_MAX_BUFFER_BYTES :: nat where "PROCESS_KILL_MAX_BUFFER_BYTES = 4 * 1024"

definition PROCESS_MONITOR_COMMAND :: string where
  "PROCESS_MONITOR_COMMAND =
     ''LC_ALL=C LANG=C sh -c '' @ [CHR 0x27] @ ''os=$(uname -s 2>/dev/null || echo Linux); export COLUMNS=4096; while :; do printf '' @
     [CHR 0x22] @ [CHR 0x5C] @ ''137'' @ [CHR 0x5C] @ ''137CF_WEBSSH_TOP_SNAPSHOT'' @ [CHR 0x5C] @ ''137'' @ [CHR 0x5C] @ ''137'' @
     [CHR 0x5C] @ ''n'' @ [CHR 0x22] @ ''; case '' @ [CHR 0x22] @ ''$os'' @ [CHR 0x22] @
     '' in FreeBSD) top -b -a -d 1 2>/dev/null || exit 127;; Darwin) top -l 1 -c -n 0 -s 0 2>/dev/null || exit 127;; *) top -b -c -n 1 -w 0 2>/dev/null || top -b -c -n 1 2>/dev/null || top -b -n 1 2>/dev/null || exit 127;; esac; printf '' @
     [CHR 0x22] @ [CHR 0x5C] @ ''137'' @ [CHR 0x5C] @ ''137CF_WEBSSH_NETWORK'' @ [CHR 0x5C] @ ''137'' @ [CHR 0x5C] @ ''137'' @ [CHR 0x5C] @
     ''n'' @ [CHR 0x22] @ ''; NETN=0; if [ -d /sys/class/net ]; then for NDIR in /sys/class/net/*; do [ -d '' @ [CHR 0x22] @ ''$NDIR'' @
     [CHR 0x22] @ '' ] || continue; NAME=${NDIR##*/}; case '' @ [CHR 0x22] @ ''$NAME'' @ [CHR 0x22] @
     '' in lo|docker*|veth*|br-*|tun*|tailscale*) continue;; esac; RX=$(cat '' @ [CHR 0x22] @ ''$NDIR/statistics/rx_bytes'' @ [CHR 0x22] @
     '' 2>/dev/null) || continue; TX=$(cat '' @ [CHR 0x22] @ ''$NDIR/statistics/tx_bytes'' @ [CHR 0x22] @
     '' 2>/dev/null) || continue; case '' @ [CHR 0x22] @ ''$RX$TX'' @ [CHR 0x22] @
     '' in *[!0-9]*) continue;; esac; NETN=$((NETN+1)); [ '' @ [CHR 0x22] @ ''$NETN'' @ [CHR 0x22] @ '' -ge 32 ] && break; printf '' @
     [CHR 0x22] @ ''%s'' @ [CHR 0x5C] @ ''t%s'' @ [CHR 0x5C] @ ''t%s'' @ [CHR 0x5C] @ ''n'' @ [CHR 0x22] @ '' '' @ [CHR 0x22] @ ''$NAME'' @
     [CHR 0x22] @ '' '' @ [CHR 0x22] @ ''$RX'' @ [CHR 0x22] @ '' '' @ [CHR 0x22] @ ''$TX'' @ [CHR 0x22] @
     ''; done; elif command -v netstat >/dev/null 2>&1; then netstat -ibn 2>/dev/null | grep -v '' @ [CHR 0x22] @ [CHR 0x5E] @ ''lo'' @
     [CHR 0x22] @ '' | grep '' @ [CHR 0x22] @ ''<Link#[0-9]>'' @ [CHR 0x22] @ '' | head -n 32 | awk -v OFS='' @ [CHR 0x22] @ [CHR 0x5C] @
     ''t'' @ [CHR 0x22] @ '' '' @ [CHR 0x22] @ ''{print '' @ [CHR 0x5C] @ ''$1, '' @ [CHR 0x5C] @ ''$7, '' @ [CHR 0x5C] @ ''$10}'' @
     [CHR 0x22] @ ''; fi; sleep 2; done'' @ [CHR 0x27]"

abbreviation SSH_MSG_CHANNEL_OPEN_CONFIRMATION :: byte where "SSH_MSG_CHANNEL_OPEN_CONFIRMATION \<equiv> 91"
abbreviation SSH_MSG_CHANNEL_OPEN_FAILURE :: byte where "SSH_MSG_CHANNEL_OPEN_FAILURE \<equiv> 92"
abbreviation MSG_WINDOW_ADJUST :: byte where "MSG_WINDOW_ADJUST \<equiv> 93"
abbreviation MSG_DATA :: byte where "MSG_DATA \<equiv> 94"
abbreviation SSH_MSG_CHANNEL_EXTENDED_DATA :: byte where "SSH_MSG_CHANNEL_EXTENDED_DATA \<equiv> 95"
abbreviation MSG_EOF :: byte where "MSG_EOF \<equiv> 96"
abbreviation MSG_CLOSE :: byte where "MSG_CLOSE \<equiv> 97"
abbreviation SSH_MSG_CHANNEL_SUCCESS :: byte where "SSH_MSG_CHANNEL_SUCCESS \<equiv> 99"
abbreviation SSH_MSG_CHANNEL_FAILURE :: byte where "SSH_MSG_CHANNEL_FAILURE \<equiv> 100"

subsection \<open>Channel objects\<close>

definition store_channel :: "nat \<Rightarrow> SSHChannel \<Rightarrow> 'k session \<Rightarrow> 'k session" where
  "store_channel i ch s = s\<lparr>channelObjects := (channelObjects s)(i := ch)\<rparr>"

text \<open>A method of a channel object: the object changes even when the method throws.\<close>

definition on_channel :: "nat \<Rightarrow> (SSHChannel \<Rightarrow> SSHChannel \<times> ('e, 'a) result) \<Rightarrow> ('k, 'a) act" where
  "on_channel i method = with_state (\<lambda>s.
     case method (channelObjects s i) of
       (ch, r) \<Rightarrow> act_bind (modify (store_channel i ch)) (\<lambda>_. attempt (rethrow r)))"

definition drop_channel :: "nat \<Rightarrow> ('k, unit) act" where
  "drop_channel i = modify (\<lambda>s. s\<lparr>channels := filter (\<lambda>c. c \<noteq> i) (channels s)\<rparr>)"

definition sendAuxiliaryChannelClose :: "'k session_env \<Rightarrow> nat \<Rightarrow> ('k, unit) act" where
  "sendAuxiliaryChannelClose env i = with_state (\<lambda>s.
     if \<not> isOpen (channelObjects s i) \<or> hasSentClose (channelObjects s i) then return ()
     else act_catch
       (act_block
         [act_bind (on_channel i buildEof) (sendEncrypted env),
          act_bind (on_channel i buildClose) (sendEncrypted env)])
       (\<lambda>_. return ()))"

definition clearPendingSFTPChannelOpen :: "nat \<Rightarrow> ('k, unit) act" where
  "clearPendingSFTPChannelOpen i = modify (\<lambda>s.
     case pendingSFTPChannelOpen s of
       None \<Rightarrow> s
     | Some p \<Rightarrow> if open_channelID p = i then s\<lparr>pendingSFTPChannelOpen := None\<rparr> else s)"

definition clearPendingProcessChannelOpen :: "nat \<Rightarrow> ('k, unit) act" where
  "clearPendingProcessChannelOpen i = modify (\<lambda>s.
     case pendingProcessChannelOpen s of
       None \<Rightarrow> s
     | Some p \<Rightarrow> if open_channelID p = i then s\<lparr>pendingProcessChannelOpen := None\<rparr> else s)"

text \<open>\<open>pending?.cancelled\<close>\<close>

definition open_is_cancelled :: "PendingChannelOpen option \<Rightarrow> bool" where
  "open_is_cancelled p = (case p of None \<Rightarrow> False | Some p \<Rightarrow> open_cancelled p)"

text \<open>\<open>if (pending?.channel === channel) pending.cancelled = true\<close>\<close>

definition cancel_open :: "nat option \<Rightarrow> PendingChannelOpen option \<Rightarrow> PendingChannelOpen option" where
  "cancel_open ch p =
     (case p of None \<Rightarrow> None | Some q \<Rightarrow> Some (if Some (open_channelID q) = ch then q\<lparr>open_cancelled := True\<rparr> else q))"

subsection \<open>Terminal input\<close>

definition take_input_chunk :: "('k, (bytes \<times> ChannelDataChunk) option) act" where
  "take_input_chunk = with_state (\<lambda>s.
     let head = hd (inputQueue s) in
     case takeChannelDataChunk (channelObjects s 0) head (queueHeadOffset s) of
       (ch, chunk) \<Rightarrow> act_bind (modify (store_channel 0 ch)) (\<lambda>_. return (map_option (Pair head) chunk)))"

definition advance_queue :: "nat \<Rightarrow> nat \<Rightarrow> 'k session \<Rightarrow> 'k session" where
  "advance_queue firstLength n s =
     (let s = s\<lparr>queueHeadOffset := queueHeadOffset s + n, queuedBytes := queuedBytes s - int n\<rparr> in
      if queueHeadOffset s = firstLength then s\<lparr>inputQueue := tl (inputQueue s), queueHeadOffset := 0\<rparr> else s)"

text \<open>Whether a send succeeds; the loop learns of it at its await.\<close>

definition settled :: "('k, unit) act \<Rightarrow> ('k, bool) act" where
  "settled m = act_catch (act_bind m (\<lambda>_. return True)) (\<lambda>_. return False)"

text \<open>The loop of \<open>flushInput\<close> from its head to the await of the next send, or to its end, which clears the flag.\<close>

definition flush_turn :: "'k session_env \<Rightarrow> ('k, unit) act" where
  "flush_turn env = with_state (\<lambda>s.
     if inputQueue s \<noteq> [] \<and> phase s = PhaseReady then
       act_bind take_input_chunk (\<lambda>taken.
         case taken of
           None \<Rightarrow> modify (\<lambda>s. s\<lparr>flushingInput := False\<rparr>)
         | Some (head, chunk) \<Rightarrow>
             act_bind (settled (sendChannelData env 0 chunk)) (\<lambda>sent.
               modify (\<lambda>s. s\<lparr>flushTask := Some (length head, chunk_bytesConsumed chunk, sent)\<rparr>)))
     else modify (\<lambda>s. s\<lparr>flushingInput := False\<rparr>))"

text \<open>\<open>void this.flushInput()\<close>: nobody sees its exceptions. While a flush is suspended a call returns at once.\<close>

definition flushInput :: "'k session_env \<Rightarrow> ('k, unit) act" where
  "flushInput env = with_state (\<lambda>s.
     if flushingInput s \<or> phase s \<noteq> PhaseReady then return ()
     else act_block [modify (\<lambda>s. s\<lparr>flushingInput := True\<rparr>), flush_turn env])"

text \<open>After the await: the bytes leave the queue when they were sent; a failed send ends the flush.\<close>

definition flush_resumed :: "'k session_env \<Rightarrow> ('k, unit) act" where
  "flush_resumed env = with_state (\<lambda>s.
     case flushTask s of
       None \<Rightarrow> return ()
     | Some (firstLength, n, sent) \<Rightarrow>
         act_bind (modify (\<lambda>s. s\<lparr>flushTask := None\<rparr>)) (\<lambda>_.
           if sent then act_block [modify (advance_queue firstLength n), flush_turn env]
           else modify (\<lambda>s. s\<lparr>flushingInput := False\<rparr>)))"

definition push_input :: "bytes \<Rightarrow> 'k session \<Rightarrow> 'k session" where
  "push_input data s = s\<lparr>inputQueue := inputQueue s @ [data], queuedBytes := queuedBytes s + int (length data)\<rparr>"

definition queueInput :: "'k session_env \<Rightarrow> bytes \<Rightarrow> ('k, unit) act" where
  "queueInput env data = with_state (\<lambda>s.
     if length data = 0 \<or> phase s = Closed then return ()
     else if int MAX_QUEUED_INPUT < queuedBytes s + int (length data) then act_block
       [status ''input_truncated'' ''Terminal input queue is full; input was dropped'',
        let allowed = int MAX_QUEUED_INPUT - queuedBytes s in
        if allowed \<le> 0 then return () else act_block [modify (push_input (take (nat allowed) data)), flushInput env]]
     else act_block [modify (push_input data), flushInput env])"

definition markReady :: "'k session_env \<Rightarrow> ('k, unit) act" where
  "markReady env = with_state (\<lambda>s.
     if phase s = PhaseReady \<or> phase s = Closed then return ()
     else act_block
       [modify (\<lambda>s. s\<lparr>shellTimer := False, pendingChannelRequest := None, phase := PhaseReady\<rparr>),
        sendJson ReadyMessage,
        status ''shell_ready'' ''Shell is ready'',
        act_when (sftpAttachUrl s \<noteq> []) (sendJson (SftpAttach (sftpAttachUrl s))),
        act_when (processAttachUrl s \<noteq> []) (sendJson (ProcessAttach (processAttachUrl s))),
        flushInput env])"

definition setSFTPAttachUrl :: "string \<Rightarrow> ('k, unit) act" where
  "setSFTPAttachUrl url =
     (if \<not> starts_with ''/api/sftp?'' url then throw ''Invalid SFTP attach URL''
      else modify (\<lambda>s. s\<lparr>sftpAttachUrl := url\<rparr>))"

definition setProcessAttachUrl :: "string \<Rightarrow> ('k, unit) act" where
  "setProcessAttachUrl url =
     (if \<not> starts_with ''/api/processes?'' url then throw ''Invalid process attach URL''
      else modify (\<lambda>s. s\<lparr>processAttachUrl := url\<rparr>))"

definition resize :: "'k session_env \<Rightarrow> json option \<Rightarrow> json option \<Rightarrow> ('k, unit) act" where
  "resize env cols rows =
     (case (json_integer cols, json_integer rows) of
        (Some c, Some r) \<Rightarrow>
          if c < 10 \<or> 1000 < c \<or> r < 5 \<or> 1000 < r then return ()
          else with_state (\<lambda>s. act_when (phase s = PhaseReady)
                 (sendEncrypted env (buildWindowChange (channelObjects s 0) (nat c) (nat r))))
      | _ \<Rightarrow> return ())"

text \<open>A message of the browser: binary input, or a text with the value it parses to.\<close>

datatype client_message = BinaryMessage bytes | TextMessage "json option"

definition json_array_resize :: "json \<Rightarrow> (json option \<times> json option) option" where
  "json_array_resize v =
     (case json_field v ''resize'' of
        Some (JArr xs) \<Rightarrow> Some (case xs of [] \<Rightarrow> (None, None) | [a] \<Rightarrow> (Some a, None) | a # b # _ \<Rightarrow> (Some a, Some b))
      | _ \<Rightarrow> None)"

definition host_key_decision :: "json \<Rightarrow> ('k, unit) act" where
  "host_key_decision v = with_state (\<lambda>s.
     case (pendingHostConfirmation s, json_field v ''accept'', json_field v ''fingerprint'') of
       (Some pending, Some (JBool accept), Some (JStr fingerprint)) \<Rightarrow>
         if fingerprint = pending
         then act_block [emit (HostDecision fingerprint accept), modify (answer_host accept)]
         else return ()
     | _ \<Rightarrow> return ())"

definition handleTextMessage :: "'k session_env \<Rightarrow> json \<Rightarrow> ('k, unit) act" where
  "handleTextMessage env v =
    (let type = json_field v ''type'' in
     if type = Some (JStr ''host_key_decision'') then host_key_decision v
     else if type = Some (JStr ''ping'') then sendJson Pong
     else
       case (if type = Some (JStr ''resize'') then Some (json_field v ''cols'', json_field v ''rows'') else json_array_resize v) of
         Some (cols, rows) \<Rightarrow> resize env cols rows
       | None \<Rightarrow>
           (case json_field v ''data'' of
              Some (JStr data) \<Rightarrow>
                if type = Some (JStr ''input'') \<or> type = None then
                  if MAX_CLIENT_TEXT_INPUT_CHARS < u16_length data then act_block
                    [status ''input_truncated'' ''Oversized terminal input was truncated'',
                     queueInput env (utf8_encode (u16_take MAX_CLIENT_TEXT_INPUT_CHARS data))]
                  else queueInput env (utf8_encode data)
                else return ()
            | _ \<Rightarrow> return ()))"

definition handleClientMessage :: "'k session_env \<Rightarrow> client_message \<Rightarrow> ('k, unit) act" where
  "handleClientMessage env message = with_state (\<lambda>s.
     if phase s = Closed then return ()
     else case message of
       BinaryMessage data \<Rightarrow>
         if MAX_CLIENT_BINARY_INPUT_BYTES < length data then act_block
           [status ''input_truncated'' ''Oversized terminal input was truncated'',
            queueInput env (take MAX_CLIENT_BINARY_INPUT_BYTES data)]
         else queueInput env data
     | TextMessage None \<Rightarrow> return ()
     | TextMessage (Some v) \<Rightarrow> if is_object v then handleTextMessage env v else return ())"

end
