(* ===== verification/Session_Aux.thy ===== *)
theory Session_Aux
  imports Session_Channels
begin

text \<open>
  The auxiliary channels of a session (\<^verbatim>\<open>worker/src/webssh/backend/session.ts\<close>): the process monitor, the
  channels that run \<open>kill\<close>, and the SFTP channel (opening, time-outs, closing, attaching and detaching sockets).
\<close>

subsection \<open>Kill channels\<close>

definition find_kill :: "nat \<Rightarrow> 'k session \<Rightarrow> PendingProcessKillChannel option" where
  "find_kill i s = find (\<lambda>k. kill_channelID k = i) (pendingProcessKillChannels s)"

definition put_kill :: "PendingProcessKillChannel \<Rightarrow> 'k session \<Rightarrow> 'k session" where
  "put_kill k s = s\<lparr>pendingProcessKillChannels :=
     map (\<lambda>k'. if kill_channelID k' = kill_channelID k then k else k') (pendingProcessKillChannels s)\<rparr>"

definition delete_kill :: "nat \<Rightarrow> 'k session \<Rightarrow> 'k session" where
  "delete_kill i s = s\<lparr>pendingProcessKillChannels := filter (\<lambda>k. kill_channelID k \<noteq> i) (pendingProcessKillChannels s)\<rparr>"

definition appendKillOutput :: "PendingProcessKillChannel \<Rightarrow> bytes \<Rightarrow> bool \<Rightarrow> PendingProcessKillChannel" where
  "appendKillOutput kill output isStderr =
     (let used = (if isStderr then kill_stderrBytes kill else kill_stdoutBytes kill);
          maxRemaining = PROCESS_KILL_MAX_BUFFER_BYTES - used
      in
      if kill_finalized kill \<or> maxRemaining = 0 then kill
      else
        let input = take maxRemaining output in
        case decode_stream (if isStderr then kill_stderrDecoder kill else kill_stdoutDecoder kill) input of
          (d, decoded) \<Rightarrow>
            if isStderr then
              let kill = kill\<lparr>kill_stderrDecoder := d\<rparr> in
              if decoded = [] then kill
              else kill\<lparr>kill_stderr := kill_stderr kill @ decoded, kill_stderrBytes := kill_stderrBytes kill + length input\<rparr>
            else
              let kill = kill\<lparr>kill_stdoutDecoder := d\<rparr> in
              if decoded = [] then kill
              else kill\<lparr>kill_stdout := kill_stdout kill @ decoded, kill_stdoutBytes := kill_stdoutBytes kill + length input\<rparr>)"

text \<open>The flushed tail of a decoder, cut to what the limit leaves.\<close>

definition kill_tail :: "text_decoder \<Rightarrow> nat \<Rightarrow> string" where
  "kill_tail d used =
     (let tail = snd (decode_flush d); remaining = PROCESS_KILL_MAX_BUFFER_BYTES - used in
      if remaining = 0 then [] else if remaining < u16_length tail then u16_take remaining tail else tail)"

definition kill_result :: "PendingProcessKillChannel \<Rightarrow> string option \<Rightarrow> process_message" where
  "kill_result kill errorMessage =
     (let stdout = kill_stdout kill @ kill_tail (kill_stdoutDecoder kill) (kill_stdoutBytes kill);
          stderr = (case errorMessage of
                      Some m \<Rightarrow> m
                    | None \<Rightarrow> kill_stderr kill @ kill_tail (kill_stderrDecoder kill) (kill_stderrBytes kill));
          ok = (errorMessage = None \<and> js_trim stderr = [])
      in ProcessKillResult (kill_pid kill) (kill_requestId kill) ok stdout stderr)"

definition finalizeProcessKill :: "PendingProcessKillChannel \<Rightarrow> string option \<Rightarrow> ('k, unit) act" where
  "finalizeProcessKill kill errorMessage = act_block
     [modify (delete_kill (kill_channelID kill)),
      drop_channel (kill_channelID kill),
      act_when (\<not> kill_finalized kill) (sendProcessJson (kill_result kill errorMessage))]"

definition expirePendingProcessKill :: "'k session_env \<Rightarrow> nat \<Rightarrow> ('k, unit) act" where
  "expirePendingProcessKill env i = with_state (\<lambda>s.
     case find_kill i s of
       None \<Rightarrow> return ()
     | Some kill \<Rightarrow>
         let expired = kill\<lparr>kill_timeout := False, kill_cancelled := True\<rparr> in
         if kill_finalized kill then modify (put_kill expired)
         else act_block
           [modify (put_kill (expired\<lparr>kill_finalized := True\<rparr>)),
            sendProcessJson (ProcessKillResult (kill_pid kill) (kill_requestId kill) False [] ''Timed out opening the kill channel''),
            modify (delete_kill i),
            act_when (isOpen (channelObjects s i)) (sendAuxiliaryChannelClose env i)])"

definition openProcessKillChannel :: "'k session_env \<Rightarrow> nat \<Rightarrow> string \<Rightarrow> ('k, unit) act" where
  "openProcessKillChannel env pid requestId = with_state (\<lambda>s.
     if processWebSocket s = None then throw ''Process-monitor WebSocket is not attached''
     else if phase s \<noteq> PhaseReady then throw ''SSH connection is not ready''
     else if MAX_PENDING_PROCESS_KILLS \<le> length (pendingProcessKillChannels s) then throw ''Too many pending process-kill requests''
     else
       let i = nextChannelID s;
           pending = \<lparr>kill_channelID = i, kill_requestId = requestId, kill_pid = pid, kill_timeout = False, kill_cancelled = False,
                      kill_openConfirmed = False, kill_stdoutDecoder = new_TextDecoder, kill_stderrDecoder = new_TextDecoder,
                      kill_stdout = [], kill_stderr = [], kill_stdoutBytes = 0, kill_stderrBytes = 0, kill_finalized = False\<rparr>
       in
       case buildOpenSession new_SSHChannel i of
         (ch, open_message) \<Rightarrow> act_block
           [modify (\<lambda>s. (store_channel i ch s)\<lparr>nextChannelID := i + 1, channels := channels s @ [i],
                      pendingProcessKillChannels := pendingProcessKillChannels s @ [pending]\<rparr>),
            act_catch
              (act_block [sendEncrypted env open_message, modify (put_kill (pending\<lparr>kill_timeout := True\<rparr>))])
              (\<lambda>e. act_block [drop_channel i, modify (delete_kill i), attempt (Inl e)])])"

subsection \<open>The process monitor\<close>

definition emit_snapshots :: "string list \<Rightarrow> ('k, unit) act" where
  "emit_snapshots raws = act_block (map (\<lambda>raw. sendProcessJson (ProcessSnapshotText raw)) raws)"

definition processOutput :: "bytes \<Rightarrow> ('k, unit) act" where
  "processOutput data = with_state (\<lambda>s.
     case consumeProcessOutput (processDecoder s) (processBuffer s) data of
       (d, buffer, snapshots, overflow) \<Rightarrow> act_block
         [modify (\<lambda>s. s\<lparr>processDecoder := d, processBuffer := buffer\<rparr>),
          act_when overflow (sendProcessError ''Process snapshot exceeded the buffer limit''),
          emit_snapshots snapshots])"

definition flushProcess :: "('k, unit) act" where
  "flushProcess = with_state (\<lambda>s.
     case flushProcessBuffer (processDecoder s) (processBuffer s) of
       (d, buffer, snapshots) \<Rightarrow> act_block
         [emit_snapshots snapshots, modify (\<lambda>s. s\<lparr>processDecoder := d, processBuffer := buffer\<rparr>)])"

definition openProcessChannel :: "'k session_env \<Rightarrow> ('k, unit) act" where
  "openProcessChannel env = with_state (\<lambda>s.
     if processWebSocket s = None then throw ''Process-monitor WebSocket is not attached''
     else if phase s \<noteq> PhaseReady then throw ''SSH connection is not ready''
     else if open_is_cancelled (pendingProcessChannelOpen s) then throw ''The previous process channel is still closing''
     else if processChannel s \<noteq> None then sendProcessJson ProcessReady
     else
       let i = nextChannelID s; pending = \<lparr>open_channelID = i, open_timeout = False, open_cancelled = False\<rparr> in
       case buildOpenSession new_SSHChannel i of
         (ch, open_message) \<Rightarrow> act_block
           [modify (\<lambda>s. (store_channel i ch s)\<lparr>nextChannelID := i + 1, channels := channels s @ [i], processChannel := Some i,
                      processBuffer := [], processDecoder := new_TextDecoder, pendingProcessChannelOpen := Some pending\<rparr>),
            act_catch
              (act_block [sendEncrypted env open_message,
                          modify (\<lambda>s. s\<lparr>pendingProcessChannelOpen := Some (pending\<lparr>open_timeout := True\<rparr>)\<rparr>)])
              (\<lambda>e. act_block [clearPendingProcessChannelOpen i, drop_channel i,
                              modify (\<lambda>s. s\<lparr>processChannel := None\<rparr>), attempt (Inl e)])])"

definition closeProcessChannel :: "'k session_env \<Rightarrow> ('k, unit) act" where
  "closeProcessChannel env = with_state (\<lambda>s. act_block
     [modify (\<lambda>s. s\<lparr>pendingProcessChannelOpen := cancel_open (processChannel s) (pendingProcessChannelOpen s),
                    processChannel := None, processBuffer := []\<rparr>),
      case processChannel s of
        None \<Rightarrow> return ()
      | Some i \<Rightarrow> act_when (isOpen (channelObjects s i)) (sendAuxiliaryChannelClose env i)])"

definition expirePendingProcessChannelOpen :: "'k session_env \<Rightarrow> nat \<Rightarrow> ('k, unit) act" where
  "expirePendingProcessChannelOpen env i = with_state (\<lambda>s.
     case pendingProcessChannelOpen s of
       None \<Rightarrow> return ()
     | Some p \<Rightarrow>
         if open_channelID p \<noteq> i then return ()
         else act_block
           [modify (\<lambda>s. s\<lparr>pendingProcessChannelOpen := None,
                          processChannel := (if processChannel s = Some i then None else processChannel s)\<rparr>),
            sendProcessError ''Timed out opening the process-monitor channel'',
            act_when (isOpen (channelObjects s i)) (sendAuxiliaryChannelClose env i),
            modify (\<lambda>s. s\<lparr>processWebSocket := map_option (\<lambda>(w, _). (w, False)) (processWebSocket s)\<rparr>)])"

definition attachProcessWebSocket :: "nat \<Rightarrow> ('k, bool) act" where
  "attachProcessWebSocket ws = with_state (\<lambda>s.
     if phase s = Closed \<or> processWebSocket s \<noteq> None then return False
     else act_bind (modify (\<lambda>s. s\<lparr>processWebSocket := Some (ws, True)\<rparr>)) (\<lambda>_. return True))"

text \<open>One pending \<open>kill\<close> when the monitor detaches.\<close>

definition detach_kill :: "'k session_env \<Rightarrow> PendingProcessKillChannel \<Rightarrow> ('k, unit) act" where
  "detach_kill env kill = with_state (\<lambda>s.
     let i = kill_channelID kill in
     act_block
       [modify (put_kill (kill\<lparr>kill_cancelled := True, kill_timeout := False\<rparr>)),
        act_when (kill_openConfirmed kill) (act_block
          [act_when (isOpen (channelObjects s i) \<and> \<not> hasSentClose (channelObjects s i)) (sendAuxiliaryChannelClose env i),
           act_when (\<not> kill_finalized kill) (modify (delete_kill i))])])"

definition detachProcessWebSocket :: "'k session_env \<Rightarrow> nat \<Rightarrow> ('k, unit) act" where
  "detachProcessWebSocket env ws = with_state (\<lambda>s.
     if map_option fst (processWebSocket s) \<noteq> Some ws then return ()
     else act_block
       [modify (\<lambda>s. s\<lparr>processWebSocket := None\<rparr>),
        closeProcessChannel env,
        act_block (map (detach_kill env) (pendingProcessKillChannels s))])"

definition handleProcessClientMessage :: "'k session_env \<Rightarrow> bool \<Rightarrow> nat \<Rightarrow> json option \<Rightarrow> ('k, unit) act" where
  "handleProcessClientMessage env binary messageLength parsed = with_state (\<lambda>s.
     if phase s = Closed \<or> processWebSocket s = None then return ()
     else if binary \<or> 4096 < messageLength then throw ''Invalid process-monitor message''
     else case parsed of
       None \<Rightarrow> throw ''Invalid process-monitor JSON''
     | Some v \<Rightarrow>
         if \<not> is_object v then throw ''Invalid process-monitor message''
         else
           let type = json_field v ''type'' in
           if type = Some (JStr ''ping'') then sendProcessJson ProcessPong
           else if type = Some (JStr ''process_start'') then openProcessChannel env
           else if type = Some (JStr ''process_stop'') then closeProcessChannel env
           else if type = Some (JStr ''process_kill'') then
             (case json_safe_integer (json_field v ''pid'') of
                None \<Rightarrow> throw ''Invalid process-kill request: PID out of range''
              | Some pid \<Rightarrow>
                  if pid \<le> 0 \<or> 2147483647 < pid then throw ''Invalid process-kill request: PID out of range''
                  else case json_field v ''requestId'' of
                    Some (JStr requestId) \<Rightarrow>
                      if u16_length requestId = 0 \<or> 64 < u16_length requestId
                      then throw ''Invalid process-kill request: requestId is missing or too long''
                      else openProcessKillChannel env (nat pid) requestId
                  | _ \<Rightarrow> throw ''Invalid process-kill request: requestId is missing or too long'')
           else throw ''Unsupported process-monitor message'')"

subsection \<open>The SFTP channel\<close>

definition dispose_sftp :: "('k, unit) act" where
  "dispose_sftp = act_block [call_sftp SftpDispose, modify (\<lambda>s. s\<lparr>sftpHandler := None, sftpChannel := None\<rparr>)]"

definition closeSFTPChannel :: "'k session_env \<Rightarrow> ('k, unit) act" where
  "closeSFTPChannel env = with_state (\<lambda>s.
     if sftpHandler s = None then return ()
     else act_block
       [modify (\<lambda>s. s\<lparr>pendingSFTPChannelOpen := cancel_open (sftpChannel s) (pendingSFTPChannelOpen s)\<rparr>),
        dispose_sftp,
        case sftpChannel s of
          None \<Rightarrow> return ()
        | Some i \<Rightarrow> act_when (isOpen (channelObjects s i)) (sendAuxiliaryChannelClose env i)])"

text \<open>\<open>ready\<close> is the handler's own \<open>isReady()\<close>.\<close>

definition openSFTPChannel :: "'k session_env \<Rightarrow> bool \<Rightarrow> ('k, unit) act" where
  "openSFTPChannel env ready = with_state (\<lambda>s.
     if sftpWebSocket s = None then throw ''SFTP WebSocket is not attached''
     else if open_is_cancelled (pendingSFTPChannelOpen s) then throw ''The previous SFTP channel is still closing''
     else if sftpHandler s \<noteq> None then
       if ready then call_sftp SftpAnnounceReady else sendSFTPError ''init'' ''SFTP initialization is already in progress''
     else
       let i = nextChannelID s; pending = \<lparr>open_channelID = i, open_timeout = False, open_cancelled = False\<rparr> in
       case buildOpenSession new_SSHChannel i of
         (ch, open_message) \<Rightarrow> act_block
           [modify (\<lambda>s. (store_channel i ch s)\<lparr>nextChannelID := i + 1, channels := channels s @ [i], sftpChannel := Some i,
                      sftpHandler := Some i, pendingSFTPChannelOpen := Some pending\<rparr>),
            call_sftp SftpNew,
            act_catch
              (act_block [sendEncrypted env open_message,
                          modify (\<lambda>s. s\<lparr>pendingSFTPChannelOpen := Some (pending\<lparr>open_timeout := True\<rparr>)\<rparr>)])
              (\<lambda>e. act_block [clearPendingSFTPChannelOpen i, drop_channel i, dispose_sftp, attempt (Inl e)])])"

definition expirePendingSFTPChannelOpen :: "'k session_env \<Rightarrow> nat \<Rightarrow> ('k, unit) act" where
  "expirePendingSFTPChannelOpen env i = with_state (\<lambda>s.
     case pendingSFTPChannelOpen s of
       None \<Rightarrow> return ()
     | Some p \<Rightarrow>
         if open_channelID p \<noteq> i then return ()
         else act_block
           [modify (\<lambda>s. s\<lparr>pendingSFTPChannelOpen := None\<rparr>),
            act_when (sftpChannel s = Some i) dispose_sftp,
            sendSFTPError ''init'' ''Timed out opening the SFTP channel'',
            act_when (isOpen (channelObjects s i)) (sendAuxiliaryChannelClose env i),
            modify (\<lambda>s. s\<lparr>sftpWebSocket := map_option (\<lambda>(w, _). (w, False)) (sftpWebSocket s)\<rparr>)])"

definition attachSFTPWebSocket :: "nat \<Rightarrow> ('k, bool) act" where
  "attachSFTPWebSocket ws = with_state (\<lambda>s.
     if phase s = Closed \<or> sftpWebSocket s \<noteq> None then return False
     else act_bind (modify (\<lambda>s. s\<lparr>sftpWebSocket := Some (ws, True)\<rparr>)) (\<lambda>_. return True))"

definition detachSFTPWebSocket :: "'k session_env \<Rightarrow> nat \<Rightarrow> ('k, unit) act" where
  "detachSFTPWebSocket env ws = with_state (\<lambda>s.
     if map_option fst (sftpWebSocket s) \<noteq> Some ws then return ()
     else act_block [modify (\<lambda>s. s\<lparr>sftpWebSocket := None\<rparr>), closeSFTPChannel env])"

end
