(* ===== verification/Session_Dispatch.thy ===== *)
theory Session_Dispatch
  imports Session_Aux
begin

text \<open>
  The dispatch of packets and channel messages (\<open>handleChannel\<close>, \<open>handlePacket\<close>, \<open>processPackets\<close> of
  \<^verbatim>\<open>worker/src/webssh/backend/session.ts\<close>), and the timers. A turn of the packet loop is two actions, one up to the
  await of the packet and one for its handler.
\<close>

definition adjustLocalWindow :: "'k session_env \<Rightarrow> nat \<Rightarrow> ('k, unit) act" where
  "adjustLocalWindow env i =
     act_bind (on_channel i (\<lambda>ch. takeLocalWindowAdjustment ch LOCAL_WINDOW_THRESHOLD)) (\<lambda>amount.
       case amount of
         None \<Rightarrow> return ()
       | Some n \<Rightarrow> with_state (\<lambda>s. sendEncrypted env (buildWindowAdjust (channelObjects s i) n)))"

subsection \<open>Channel messages\<close>

definition kill_confirmed :: "'k session_env \<Rightarrow> PendingProcessKillChannel \<Rightarrow> ('k, unit) act" where
  "kill_confirmed env kill = with_state (\<lambda>s.
     let i = kill_channelID kill; confirmed = kill\<lparr>kill_openConfirmed := True, kill_timeout := False\<rparr> in
     act_block
       [modify (put_kill confirmed),
        if kill_cancelled kill \<or> processWebSocket s = None then sendAuxiliaryChannelClose env i
        else act_catch
          (act_bind (attempt (rethrow (buildExecRequest (channelObjects s i) (''kill -TERM '' @ show_nat (kill_pid kill)))))
             (sendEncrypted env))
          (\<lambda>e. act_block [finalizeProcessKill confirmed (Some ''error''), sendAuxiliaryChannelClose env i])])"

definition openConfirmed_message :: "'k session_env \<Rightarrow> nat \<Rightarrow> bytes \<Rightarrow> ('k, unit) act" where
  "openConfirmed_message env i payload =
     act_bind (on_channel i (\<lambda>ch. handleOpenConfirmation ch payload)) (\<lambda>_. with_state (\<lambda>s.
       if i = 0 then
         if phase s \<noteq> Pty then throw ''Unexpected shell channel open confirmation''
         else act_block
           [modify (\<lambda>s. s\<lparr>pendingChannelRequest := Some Pty\<rparr>),
            sendEncrypted env (buildPTYRequest (channelObjects s 0) (cfg_cols (config s)) (cfg_rows (config s)) (cfg_term (config s)))]
       else case find_kill i s of
         Some kill \<Rightarrow> kill_confirmed env kill
       | None \<Rightarrow>
           if sftpChannel s = Some i \<and> sftpHandler s \<noteq> None \<and> \<not> open_is_cancelled (pendingSFTPChannelOpen s) then
             act_catch
               (act_bind (attempt (rethrow (buildSubsystemRequest (channelObjects s i) ''sftp''))) (sendEncrypted env))
               (\<lambda>e. act_block [clearPendingSFTPChannelOpen i, dispose_sftp, sendAuxiliaryChannelClose env i, attempt (Inl e)])
           else if processChannel s = Some i \<and> processWebSocket s \<noteq> None \<and> \<not> open_is_cancelled (pendingProcessChannelOpen s) then
             act_catch
               (act_bind (attempt (rethrow (buildExecRequest (channelObjects s i) PROCESS_MONITOR_COMMAND))) (sendEncrypted env))
               (\<lambda>e. act_block [clearPendingProcessChannelOpen i, modify (\<lambda>s. s\<lparr>processChannel := None\<rparr>),
                               sendAuxiliaryChannelClose env i, attempt (Inl e)])
           else act_block
             [clearPendingSFTPChannelOpen i, clearPendingProcessChannelOpen i, sendAuxiliaryChannelClose env i]))"

definition openFailed_message :: "nat \<Rightarrow> bytes \<Rightarrow> ('k, unit) act" where
  "openFailed_message i payload =
     act_bind (on_channel i (\<lambda>ch. (ch, handleOpenFailure ch payload))) (\<lambda>_. with_state (\<lambda>s. act_block
       [clearPendingSFTPChannelOpen i, clearPendingProcessChannelOpen i, drop_channel i,
        if i = 0 then throw ''SSH server rejected the session channel''
        else if sftpChannel s = Some i then act_block
          [dispose_sftp, sendSFTPError ''init'' ''SSH server rejected the SFTP channel'']
        else if processChannel s = Some i then act_block
          [modify (\<lambda>s. s\<lparr>processChannel := None\<rparr>), sendProcessError ''SSH server rejected the process-monitor channel'']
        else case find_kill i s of
          None \<Rightarrow> return ()
        | Some kill \<Rightarrow> finalizeProcessKill kill (Some ''SSH server rejected the kill channel'')]))"

definition shell_result :: "'k session_env \<Rightarrow> bool \<Rightarrow> ('k, unit) act" where
  "shell_result env failure = with_state (\<lambda>s.
     case pendingChannelRequest s of
       None \<Rightarrow> throw ''Unexpected SSH channel request result''
     | Some pending \<Rightarrow>
         if pending \<noteq> phase s then throw ''Unexpected SSH channel request result''
         else act_block
           [modify (\<lambda>s. s\<lparr>pendingChannelRequest := None\<rparr>),
            if failure then throw (''SSH server rejected the '' @ (if pending = Pty then ''PTY'' else ''shell'') @ '' request'')
            else if pending = Pty then act_block
              [modify (\<lambda>s. s\<lparr>phase := Shell, pendingChannelRequest := Some Shell\<rparr>),
               sendEncrypted env (buildShellRequest (channelObjects s 0)),
               modify (\<lambda>s. s\<lparr>shellTimer := True\<rparr>)]
            else markReady env])"

definition request_result :: "'k session_env \<Rightarrow> nat \<Rightarrow> bool \<Rightarrow> bytes \<Rightarrow> ('k, unit) act" where
  "request_result env i failure payload =
     act_bind (on_channel i (\<lambda>ch. (ch, handleRequestResult ch payload))) (\<lambda>_.
     act_bind (clearPendingSFTPChannelOpen i) (\<lambda>_. with_state (\<lambda>s.
       if i = 0 then shell_result env failure
       else if sftpChannel s = Some i \<and> \<not> failure then call_sftp SftpInitialize
       else if sftpChannel s = Some i then act_block
         [dispose_sftp, sendSFTPError ''init'' ''SSH server rejected the SFTP subsystem'', sendAuxiliaryChannelClose env i]
       else if processChannel s = Some i then act_block
         [clearPendingProcessChannelOpen i,
          if failure then act_block
            [modify (\<lambda>s. s\<lparr>processChannel := None\<rparr>), sendProcessError ''SSH server rejected the top command'',
             sendAuxiliaryChannelClose env i]
          else sendProcessJson ProcessReady]
       else return ())))"

definition shell_output :: "'k session_env \<Rightarrow> bytes \<Rightarrow> ('k, unit) act" where
  "shell_output env output = with_state (\<lambda>s. act_block [act_when (phase s = Shell) (markReady env), emit (TerminalOutput output)])"

definition channel_data :: "'k session_env \<Rightarrow> bool \<Rightarrow> nat \<Rightarrow> bytes \<Rightarrow> ('k, unit) act" where
  "channel_data env feedThrows i payload =
     act_bind (on_channel i (\<lambda>ch. handleChannelData ch payload)) (\<lambda>output. with_state (\<lambda>s. act_block
       [if i = 0 then shell_output env output
        else if sftpChannel s = Some i \<and> sftpHandler s \<noteq> None then act_block
          [call_sftp (SftpFeed output),
           act_when feedThrows (act_block [sendSFTPError ''protocol'' ''error'', closeSFTPChannel env])]
        else if processChannel s = Some i then processOutput output
        else (case find_kill i s of None \<Rightarrow> return () | Some kill \<Rightarrow> modify (put_kill (appendKillOutput kill output False))),
        adjustLocalWindow env i]))"

definition channel_extended_data :: "'k session_env \<Rightarrow> nat \<Rightarrow> bytes \<Rightarrow> ('k, unit) act" where
  "channel_extended_data env i payload =
     act_bind (on_channel i (\<lambda>ch. handleExtendedData ch payload)) (\<lambda>output. with_state (\<lambda>s. act_block
       [if i = 0 then shell_output env output
        else if sftpChannel s = Some i then
          sendSFTPError ''protocol'' (let m = utf8_lossy output in if m = [] then ''SFTP channel reported an error'' else m)
        else if processChannel s = Some i then
          (let m = js_trim (utf8_lossy output) in act_when (m \<noteq> []) (sendProcessError (u16_take 512 m)))
        else (case find_kill i s of None \<Rightarrow> return () | Some kill \<Rightarrow> modify (put_kill (appendKillOutput kill output True))),
        adjustLocalWindow env i]))"

definition channel_window_adjust :: "'k session_env \<Rightarrow> nat \<Rightarrow> bytes \<Rightarrow> ('k, unit) act" where
  "channel_window_adjust env i payload =
     act_bind (on_channel i (\<lambda>ch. handleWindowAdjust ch payload)) (\<lambda>_. with_state (\<lambda>s.
       if i = 0 then flushInput env
       else act_when (sftpChannel s = Some i) (call_sftp SftpWindowAdjust)))"

definition channel_eof :: "nat \<Rightarrow> bytes \<Rightarrow> ('k, unit) act" where
  "channel_eof i payload =
     act_bind (on_channel i (\<lambda>ch. handleEof ch payload)) (\<lambda>_. with_state (\<lambda>s.
       if i = 0 then status ''remote_eof'' ''SSH server finished sending output''
       else if sftpChannel s = Some i then call_sftp SftpOnClosed
       else act_when (processChannel s = Some i) flushProcess))"

definition channel_close :: "'k session_env \<Rightarrow> nat \<Rightarrow> bytes \<Rightarrow> ('k, unit) act" where
  "channel_close env i payload =
     act_bind (on_channel i (\<lambda>ch. handleClose ch payload)) (\<lambda>_. with_state (\<lambda>s. act_block
       [act_when (\<not> hasSentClose (channelObjects s i)) (act_bind (on_channel i buildClose) (sendEncrypted env)),
        if i = 0 then act_block [status ''session_ended'' ''SSH session ended'', close True]
        else act_block
          [clearPendingSFTPChannelOpen i, drop_channel i,
           if sftpChannel s = Some i then act_block
             [call_sftp SftpOnClosed, modify (\<lambda>s. s\<lparr>sftpHandler := None, sftpChannel := None\<rparr>)]
           else if processChannel s = Some i then act_block
             [clearPendingProcessChannelOpen i, flushProcess, modify (\<lambda>s. s\<lparr>processChannel := None\<rparr>),
              sendProcessError ''The process monitor stopped'']
           else case find_kill i s of
             None \<Rightarrow> return ()
           | Some kill \<Rightarrow> finalizeProcessKill kill None]]))"

definition handleChannel :: "'k session_env \<Rightarrow> bool \<Rightarrow> byte \<Rightarrow> bytes \<Rightarrow> ('k, unit) act" where
  "handleChannel env feedThrows type payload = with_state (\<lambda>s.
     if length payload < 5 then throw ''Malformed SSH channel message''
     else
       let i = readUint32 payload 1 in
       if i \<notin> set (channels s) then throw ''SSH channel message has an unknown recipient''
       else if type = SSH_MSG_CHANNEL_OPEN_CONFIRMATION then openConfirmed_message env i payload
       else if type = SSH_MSG_CHANNEL_OPEN_FAILURE then openFailed_message i payload
       else if type = SSH_MSG_CHANNEL_SUCCESS \<or> type = SSH_MSG_CHANNEL_FAILURE
       then request_result env i (type = SSH_MSG_CHANNEL_FAILURE) payload
       else if type = MSG_DATA then channel_data env feedThrows i payload
       else if type = SSH_MSG_CHANNEL_EXTENDED_DATA then channel_extended_data env i payload
       else if type = MSG_WINDOW_ADJUST then channel_window_adjust env i payload
       else if type = MSG_EOF then channel_eof i payload
       else if type = MSG_CLOSE then channel_close env i payload
       else return ())"

subsection \<open>Packets\<close>

definition handlePacket :: "'k session_env \<Rightarrow> bool \<Rightarrow> bytes \<Rightarrow> ('k, unit) act" where
  "handlePacket env feedThrows payload = with_state (\<lambda>s.
     let type = u8_at payload 0 in
     if type = SSH_MSG_DISCONNECT then act_block
       [attempt (validateDisconnect payload),
        status ''remote_closed'' ''The SSH server closed the connection'',
        close True]
     else if type = SSH_MSG_IGNORE then attempt (validateIgnore payload)
     else if type = SSH_MSG_DEBUG then attempt (validateDebug payload)
     else if type = SSH_MSG_UNIMPLEMENTED then
       if length payload \<noteq> 5 then throw ''Malformed SSH unimplemented message'' else return ()
     else if type = SSH_MSG_GLOBAL_REQUEST then handleGlobalRequest env payload
     else if type = SSH_MSG_REQUEST_SUCCESS \<or> type = SSH_MSG_REQUEST_FAILURE then modify (\<lambda>s. s\<lparr>keepalivePending := 0\<rparr>)
     else if type = SSH_MSG_EXT_INFO then
       if phase s = Auth \<and> \<not> authRequestSent s
       then act_bind (attempt (rethrow (parseServerSigAlgs payload))) (\<lambda>algs. modify (\<lambda>s. s\<lparr>serverSigAlgs := algs\<rparr>))
       else return ()
     else if type = MSG_KEXINIT \<and> phase s \<noteq> Kex \<and> phase s \<noteq> HostConfirm
     then throw ''Server-initiated SSH rekey is not supported''
     else if phase s = Kex \<or> phase s = HostConfirm then handleKex env type payload
     else if phase s = Auth then handleAuth env type payload
     else if phase s = Pty \<or> phase s = Shell \<or> phase s = PhaseReady then handleChannel env feedThrows type payload
     else return ())"

text \<open>The framing parameters of the next packet: block size, whether the cipher authenticates, MAC length.\<close>

definition inbound_framing :: "'k session \<Rightarrow> (nat \<times> bool \<times> nat) sresult" where
  "inbound_framing s =
     (case decryptor s of
        None \<Rightarrow> Inr (8, False, 0)
      | Some _ \<Rightarrow>
          and_then (rethrow (getCipherSpec (cipherS2C s))) (\<lambda>spec.
            if cs_aead spec then Inr (cs_blockSize spec, True, 0)
            else and_then (rethrow (getMacSpec (macS2C s))) (\<lambda>m. Inr (cs_blockSize spec, False, ms_length m))))"

text \<open>\<open>parser.nextPacket\<close> with the session's decryption callbacks; the cipher changes even when it throws.\<close>

definition next_packet :: "'k session_env \<Rightarrow> ('k, bytes option) act" where
  "next_packet env = with_state (\<lambda>s.
     act_bind (attempt (inbound_framing s)) (\<lambda>(block, auth, macLength).
       let verify = map_option (hmac_verifier (env_hmacVerify env)) (verifier s) in
       case decryptor s of
         None \<Rightarrow>
           (case nextPacket (packetParser s) () block plain_decrypt auth macLength verify of
              (p, _, r) \<Rightarrow> act_bind (modify (\<lambda>s. s\<lparr>packetParser := p\<rparr>)) (\<lambda>_. attempt (rethrow (map_sum id (map_option pkt_payload) r))))
       | Some c \<Rightarrow>
           (case nextPacket (packetParser s) c block (cipher_decrypt env) auth macLength verify of
              (p, c', r) \<Rightarrow> act_bind (modify (\<lambda>s. s\<lparr>packetParser := p, decryptor := Some c'\<rparr>))
                             (\<lambda>_. attempt (rethrow (map_sum id (map_option pkt_payload) r))))))"

text \<open>One turn of the loop of \<open>processPackets\<close>: up to the await of the packet, and the handler.\<close>

definition processPacket :: "'k session_env \<Rightarrow> ('k, unit) act" where
  "processPacket env = with_state (\<lambda>s.
     if phase s = Closed then modify (\<lambda>s. s\<lparr>readTask := Idle\<rparr>)
     else act_bind (next_packet env) (\<lambda>packet.
       case packet of
         None \<Rightarrow> modify (\<lambda>s. s\<lparr>readTask := Idle\<rparr>)
       | Some payload \<Rightarrow> modify (\<lambda>s. s\<lparr>readTask := Handling payload\<rparr>)))"

definition process_payload :: "'k session_env \<Rightarrow> bool \<Rightarrow> bytes \<Rightarrow> ('k, unit) act" where
  "process_payload env feedThrows payload =
     act_block [modify (\<lambda>s. s\<lparr>readTask := Pumping\<rparr>), handlePacket env feedThrows payload]"

text \<open>An exception in the reading task ends it.\<close>

definition reading :: "('k, unit) act \<Rightarrow> ('k, unit) act" where
  "reading m = act_catch m (\<lambda>e. act_block [modify (\<lambda>s. s\<lparr>readTask := Idle\<rparr>), fail ''read_error'' (case e of SessionError t \<Rightarrow> t)])"

subsection \<open>Timers and start\<close>

definition KEEPALIVE_NAME :: bytes where
  "KEEPALIVE_NAME = utf8_encode ''keepalive@openssh.com''"

definition keepalive_payload :: bytes where
  "keepalive_payload =
     (let n = length KEEPALIVE_NAME;
          payload = (zeros (1 + 4 + n + 1))[0 := SSH_MSG_GLOBAL_REQUEST];
          payload = writeUint32 payload 1 n;
          payload = u8_set payload KEEPALIVE_NAME 5
      in payload[5 + n := 1])"

definition keepalive_tick :: "'k session_env \<Rightarrow> ('k, unit) act" where
  "keepalive_tick env = with_state (\<lambda>s.
     if phase s = Closed then return ()
     else if 3 \<le> keepalivePending s then fail ''keepalive_timeout'' ''SSH keepalive timed out''
     else act_block
       [modify (\<lambda>s. s\<lparr>keepalivePending := keepalivePending s + 1\<rparr>),
        act_catch (sendEncrypted env keepalive_payload) (\<lambda>e. fail ''keepalive_failed'' (case e of SessionError t \<Rightarrow> t))])"

definition start :: "'k session_env \<Rightarrow> ('k, unit) act" where
  "start env = act_block
     [status ''version_exchange'' ''Exchanging SSH protocol versions'',
      with_state (\<lambda>s. socket_write env (WireIdentification (getLocalIdentification (transport s))))]"

definition new_session :: "SSHConnectionConfig \<Rightarrow> 'k session" where
  "new_session cfg =
     \<lparr>transport = new_SSHTransport, versionBuffer = [], packetParser = new_parser, sendSequence = 0, packetsSent = 0,
      localKex = None, remoteKex = None, kexName = None, hostKeyAlgorithm = None, keyPairs = 0, ecdhPair = None,
      curvePair = None, clientPublic = None, sessionId = None, keys = None, cipherC2S = ''aes128-gcm@openssh.com'',
      cipherS2C = ''aes128-gcm@openssh.com'', macC2S = ''none'', macS2C = ''none'', encryptor = None, decryptor = None,
      signer = None, verifier = None, ignoreNextKexPacket = False, serverSigAlgs = [], authRequestSent = False,
      passwordAuthMethod = PasswordMethod, keyboardInteractiveRounds = 0, keyboardInteractivePasswordSent = False,
      config = cfg, pendingHostConfirmation = None, phase = Version, readTask = Idle, wsOpen = True,
      pendingChannelRequest = None, keepaliveTimer = False, keepalivePending = 0, shellTimer = False,
      channelObjects = (\<lambda>_. new_SSHChannel), channels = [0], nextChannelID = 1, sftpChannel = None, sftpHandler = None,
      sftpWebSocket = None, sftpAttachUrl = [], pendingSFTPChannelOpen = None, processChannel = None, processWebSocket = None,
      processAttachUrl = [], processBuffer = [], processDecoder = new_TextDecoder, pendingProcessChannelOpen = None,
      pendingProcessKillChannels = [], inputQueue = [], queueHeadOffset = 0, queuedBytes = 0, flushingInput = False, flushTask = None,
      effects = []\<rparr>"

end
