(* ===== verification/Session_Runs.thy ===== *)
theory Session_Runs
  imports Session_Dispatch
begin

text \<open>
  Runs of a session: the events that reach it (bytes of the server, turns of the reading task, messages of the
  browser and of the attached sockets, timers, the settling of a send of terminal input), in every order that the
  code allows. The reading task makes one turn per event, so that closing the session, timers and messages can come
  between any two turns.
\<close>

datatype session_event =
    Start
  | ServerData bytes
  | ReadTurn bool
  | ServerEof
  | ReadError string
  | BrowserMessage client_message
  | CloseCall bool
  | HostTimeout
  | ShellTimeout
  | KeepaliveTick
  | SetSftpUrl string
  | SetProcessUrl string
  | AttachProcess nat
  | DetachProcess nat
  | ProcessMessage bool nat "json option"
  | ProcessOpenTimeout nat
  | KillTimeout nat
  | AttachSftp nat
  | DetachSftp nat
  | SftpInit bool
  | SftpClose
  | SftpOpenTimeout nat
  | FlushTurn

text \<open>A turn of the reading task.\<close>

definition read_turn :: "'k session_env \<Rightarrow> bool \<Rightarrow> ('k, unit) act" where
  "read_turn env feedThrows = with_state (\<lambda>s.
     case readTask s of
       Pumping \<Rightarrow> reading (processPacket env)
     | Handling payload \<Rightarrow> reading (process_payload env feedThrows payload)
     | VerifyingHost ctx \<Rightarrow> reading (verifyHost env ctx)
     | HostAnswered ctx accepted \<Rightarrow> reading (hostAnswered env ctx accepted)
     | EnablingInbound \<Rightarrow> reading (inboundReady env)
     | _ \<Rightarrow> return ())"

definition discard :: "('k, 'a) act \<Rightarrow> ('k, unit) act" where
  "discard m = act_catch (act_bind m (\<lambda>_. return ())) (\<lambda>_. return ())"

fun perform :: "'k session_env \<Rightarrow> session_event \<Rightarrow> ('k, unit) act" where
  "perform env Start = start env"
| "perform env (ServerData data) = reading (consume env data)"
| "perform env (ReadTurn feedThrows) = read_turn env feedThrows"
| "perform env ServerEof = act_block [status ''remote_closed'' ''The SSH server closed the connection'', close True]"
| "perform env (ReadError message) = act_block [modify (\<lambda>s. s\<lparr>readTask := Idle\<rparr>), fail ''read_error'' message]"
| "perform env (BrowserMessage m) = discard (handleClientMessage env m)"
| "perform env (CloseCall normal) = close normal"
| "perform env HostTimeout = modify (answer_host False)"
| "perform env ShellTimeout = markReady env"
| "perform env KeepaliveTick = keepalive_tick env"
| "perform env (SetSftpUrl url) = discard (setSFTPAttachUrl url)"
| "perform env (SetProcessUrl url) = discard (setProcessAttachUrl url)"
| "perform env (AttachProcess ws) = discard (attachProcessWebSocket ws)"
| "perform env (DetachProcess ws) = discard (detachProcessWebSocket env ws)"
| "perform env (ProcessMessage binary n v) = discard (handleProcessClientMessage env binary n v)"
| "perform env (ProcessOpenTimeout i) = expirePendingProcessChannelOpen env i"
| "perform env (KillTimeout i) = expirePendingProcessKill env i"
| "perform env (AttachSftp ws) = discard (attachSFTPWebSocket ws)"
| "perform env (DetachSftp ws) = discard (detachSFTPWebSocket env ws)"
| "perform env (SftpInit ready) = discard (with_state (\<lambda>s. if phase s \<noteq> PhaseReady then throw ''SSH connection is not ready'' else openSFTPChannel env ready))"
| "perform env SftpClose = discard (closeSFTPChannel env)"
| "perform env (SftpOpenTimeout i) = expirePendingSFTPChannelOpen env i"
| "perform env FlushTurn = flush_resumed env"

text \<open>When an event can occur: bytes arrive only while the reading task waits for them; an await of the reading
  task can fail at any of its turns; a timer fires only while it is armed;
  a flush of terminal input goes on only where one is suspended.\<close>

fun enabled :: "session_event \<Rightarrow> 'k session \<Rightarrow> bool" where
  "enabled (ServerData data) s = (readTask s = Idle \<and> phase s \<noteq> Closed \<and> data \<noteq> [])"
| "enabled (ReadTurn _) s = (case readTask s of Idle \<Rightarrow> False | ConfirmingHost _ \<Rightarrow> False | _ \<Rightarrow> True)"
| "enabled ServerEof s = (readTask s = Idle \<and> phase s \<noteq> Closed)"
| "enabled (ReadError _) s = (case readTask s of Idle \<Rightarrow> phase s \<noteq> Closed | ConfirmingHost _ \<Rightarrow> False | _ \<Rightarrow> True)"
| "enabled HostTimeout s = (case readTask s of ConfirmingHost _ \<Rightarrow> True | _ \<Rightarrow> False)"
| "enabled ShellTimeout s = shellTimer s"
| "enabled KeepaliveTick s = keepaliveTimer s"
| "enabled FlushTurn s = (flushTask s \<noteq> None)"
| "enabled _ s = True"

definition after :: "'k session_env \<Rightarrow> session_event \<Rightarrow> 'k session \<Rightarrow> 'k session" where
  "after env e s = snd (perform env e s)"

inductive session_run :: "'k session_env \<Rightarrow> 'k session \<Rightarrow> session_event list \<Rightarrow> 'k session \<Rightarrow> bool" for env where
  run_Nil: "session_run env s [] s"
| run_snoc: "session_run env s es t \<Longrightarrow> enabled e t \<Longrightarrow> session_run env s (es @ [e]) (after env e t)"

lemma run_invariant:
  assumes "session_run env s es t" "I s" "\<And>t e. I t \<Longrightarrow> enabled e t \<Longrightarrow> I (after env e t)"
  shows "I t"
  using assms by (induction rule: session_run.induct) auto

end
