(* ===== verification/Session_Frame.thy ===== *)
theory Session_Frame
  imports Session_Runs
begin

text \<open>
  Reasoning about all operations of a session at once. A relation between states that ignores the channel
  bookkeeping, and that the few primitive steps satisfy, is kept by every operation of the connected session; the
  locale derives this once for each operation, and the properties of runs interpret it with their own relation.
\<close>

text \<open>The parts of the state that the properties are about: the key exchange, user authentication, the phase, and
  terminal input.\<close>

definition same_kex :: "'k session \<Rightarrow> 'k session \<Rightarrow> bool" where
  "same_kex s t \<longleftrightarrow>
     transport t = transport s \<and> localKex t = localKex s \<and> clientPublic t = clientPublic s \<and> encryptor t = encryptor s
     \<and> readTask t = readTask s \<and> pendingHostConfirmation t = pendingHostConfirmation s"

definition same_auth :: "'k session \<Rightarrow> 'k session \<Rightarrow> bool" where
  "same_auth s t \<longleftrightarrow>
     authRequestSent t = authRequestSent s \<and> passwordAuthMethod t = passwordAuthMethod s
     \<and> keyboardInteractiveRounds t = keyboardInteractiveRounds s
     \<and> keyboardInteractivePasswordSent t = keyboardInteractivePasswordSent s \<and> config t = config s"

definition same_phase :: "'k session \<Rightarrow> 'k session \<Rightarrow> bool" where
  "same_phase s t \<longleftrightarrow> phase t = phase s \<and> shellTimer t = shellTimer s \<and> pendingChannelRequest t = pendingChannelRequest s"

definition same_input :: "'k session \<Rightarrow> 'k session \<Rightarrow> bool" where
  "same_input s t \<longleftrightarrow>
     inputQueue t = inputQueue s \<and> queueHeadOffset t = queueHeadOffset s \<and> queuedBytes t = queuedBytes s
     \<and> flushingInput t = flushingInput s \<and> flushTask t = flushTask s"

definition same_effects :: "'k session \<Rightarrow> 'k session \<Rightarrow> bool" where
  "same_effects s t \<longleftrightarrow> effects t = effects s"

definition same_core :: "'k session \<Rightarrow> 'k session \<Rightarrow> bool" where
  "same_core s t \<longleftrightarrow> same_kex s t \<and> same_auth s t \<and> same_phase s t \<and> same_input s t \<and> same_effects s t"

lemmas same_defs = same_core_def same_kex_def same_auth_def same_phase_def same_input_def same_effects_def

text \<open>Credentials are only ever dropped.\<close>

definition weaker_config :: "SSHConnectionConfig \<Rightarrow> SSHConnectionConfig \<Rightarrow> bool" where
  "weaker_config c d \<longleftrightarrow>
     cfg_expectedFingerprint d = cfg_expectedFingerprint c \<and> cfg_authMethod d = cfg_authMethod c
     \<and> (cfg_password d = None \<or> cfg_password d = cfg_password c)
     \<and> (cfg_privateKey d = None \<or> cfg_privateKey d = cfg_privateKey c)"

fun quiet :: "effect \<Rightarrow> bool" where
  "quiet (WirePlain _ _) = False"
| "quiet (WireEncrypted _ _) = False"
| "quiet (HostDecision _ _) = False"
| "quiet (SocketClosed _) = False"
| "quiet _ = True"

text \<open>Payloads that are neither credentials nor terminal input.\<close>

definition ordinary :: "bytes \<Rightarrow> bool" where
  "ordinary p \<longleftrightarrow> p \<noteq> [] \<and> hd p \<notin> {50, 61, 94}"

text \<open>The packets that the session sends in the clear.\<close>

definition kex_payload :: "'k session_env \<Rightarrow> bytes \<Rightarrow> bool" where
  "kex_payload env p \<longleftrightarrow>
     p = KEXInitBuilder_build (env_cookie env) \<or> p = [SSH_MSG_NEWKEYS] \<or> (\<exists>n. p = ecdh_buildInit (env_publicKey env n))"

lemma ordinary_builds:
  "buildOpenSession ch i = (ch', p) \<Longrightarrow> ordinary p"
  "buildEof ch = (ch', Inr p) \<Longrightarrow> ordinary p"
  "buildClose ch = (ch', Inr p) \<Longrightarrow> ordinary p"
  "buildExecRequest ch c = Inr p \<Longrightarrow> ordinary p"
  "buildSubsystemRequest ch c = Inr p \<Longrightarrow> ordinary p"
  by (auto simp: ordinary_def buildOpenSession_wire buildEof_def buildClose_def buildExecRequest_def buildSubsystemRequest_def
      recipient_message_wire buildNamedRequest_wire msg_defs Let_def split: if_splits sum.splits)

lemma ordinary_requests:
  "ordinary (buildPTYRequest ch c r t)" "ordinary (buildShellRequest ch)" "ordinary (buildWindowChange ch c r)"
  "ordinary (buildWindowAdjust ch n)" "ordinary [SSH_MSG_REQUEST_FAILURE]" "ordinary (SSH_MSG_SERVICE_REQUEST # p)"
  by (simp_all add: ordinary_def buildPTYRequest_wire buildShellRequest_wire buildWindowChange_wire buildWindowAdjust_wire)

lemma ordinary_keepalive: "ordinary keepalive_payload"
  by code_simp

subsection \<open>What the primitive steps leave behind\<close>

lemma socket_write_cases:
  obtains "socket_write env e s = (Inr (), s\<lparr>effects := effects s @ [e]\<rparr>)" | "socket_write env e s = (fail_with ''write failed'', s)"
proof (cases "case env_writes env of None \<Rightarrow> True | Some n \<Rightarrow> packetsSent s < n")
  case True
  then show thesis using that(1) by (simp only: socket_write_def with_state_def if_True) (simp add: emit_def modify_def)
next
  case False
  then show thesis using that(2) by (simp only: socket_write_def with_state_def if_False) (simp add: throw_def)
qed

text \<open>A send does nothing, or advances the cipher and the counters without sending, or sends its packet.\<close>

lemma send_built_cases:
  obtains "snd (send_built env payload mk s) = s" "fst (send_built env payload mk s) \<noteq> Inr ()"
  | c c' where "encryptor s = Some c" "snd (send_built env payload mk s) = count_packet (s\<lparr>encryptor := Some c'\<rparr>)"
      "fst (send_built env payload mk s) \<noteq> Inr ()"
  | c c' packet where "encryptor s = Some c"
      "snd (send_built env payload mk s) = (count_packet (s\<lparr>encryptor := Some c'\<rparr>))\<lparr>effects := effects s @ [WireEncrypted payload packet]\<rparr>"
      "fst (send_built env payload mk s) = Inr ()"
proof (cases "encryptor s")
  case None
  show thesis by (rule that(1)) (simp_all add: None send_built_def with_state_def throw_def fail_with_def)
next
  case (Some c)
  show thesis
  proof (cases "getCipherSpec (cipherC2S s)")
    case (Inl e)
    show thesis by (rule that(1)) (simp_all add: Inl Some send_built_def with_state_def act_bind_def attempt_def fail_with_def)
  next
    case (Inr spec)
    obtain c' packet where m: "mk s spec c = (c', packet)" by fastforce
    let ?s = "count_packet (s\<lparr>encryptor := Some c'\<rparr>)"
    have b: "send_built env payload mk s = act_block [socket_write env (WireEncrypted payload packet)] ?s"
      using Some Inr m by (simp add: send_built_def with_state_def act_bind_def attempt_def modify_def)
    have e: "effects ?s = effects s" by (simp add: count_packet_def)
    show thesis
    proof (cases rule: socket_write_cases [of env "WireEncrypted payload packet" ?s])
      case 1
      have "send_built env payload mk s = (Inr (), ?s\<lparr>effects := effects s @ [WireEncrypted payload packet]\<rparr>)"
        unfolding b act_block.simps act_bind_def 1 e by (simp add: return_def)
      then show thesis by (intro that(3) [OF Some, of packet c']) simp_all
    next
      case 2
      have "send_built env payload mk s = (fail_with ''write failed'', ?s)"
        unfolding b act_block.simps act_bind_def 2 by (simp add: fail_with_def)
      then show thesis by (intro that(2) [OF Some, of c']) (simp_all add: fail_with_def)
    qed
  qed
qed

lemma sendPlain_result:
  "\<exists>es. snd (sendPlain env payload s) = (count_packet s)\<lparr>effects := effects s @ es\<rparr> \<and> (es = [] \<or> (\<exists>packet. es = [WirePlain payload packet]))"
proof -
  obtain packet where p: "sendPlain env payload s = act_block [socket_write env (WirePlain payload packet)] (count_packet s)"
    by (simp add: sendPlain_def with_state_def act_bind_def modify_def Let_def)
  have e: "effects (count_packet s) = effects s" by (simp add: count_packet_def)
  show ?thesis
  proof (cases rule: socket_write_cases [of env "WirePlain payload packet" "count_packet s"])
    case 1
    then show ?thesis using p e by (intro exI [of _ "[WirePlain payload packet]"]) (simp add: act_bind_def return_def)
  next
    case 2
    then show ?thesis using p e by (intro exI [of _ "[]"]) (simp add: act_bind_def fail_with_def count_packet_def)
  qed
qed

lemma close_result:
  assumes "phase s \<noteq> Closed"
  shows "\<exists>calls. list_all quiet calls \<and> effects (snd (close normal s)) = effects s @ calls @ [SocketClosed normal]"
    "transport (snd (close normal s)) = transport s" "localKex (snd (close normal s)) = localKex s"
    "clientPublic (snd (close normal s)) = clientPublic s" "encryptor (snd (close normal s)) = encryptor s"
    "authRequestSent (snd (close normal s)) = authRequestSent s" "passwordAuthMethod (snd (close normal s)) = passwordAuthMethod s"
    "keyboardInteractiveRounds (snd (close normal s)) = keyboardInteractiveRounds s"
    "keyboardInteractivePasswordSent (snd (close normal s)) = keyboardInteractivePasswordSent s"
    "config (snd (close normal s)) = (config s)\<lparr>cfg_password := None, cfg_privateKey := None\<rparr>"
    "readTask (snd (close normal s)) = (if pendingHostConfirmation s = None then readTask s else readTask (answer_host False s))"
    "pendingHostConfirmation (snd (close normal s)) = None"
    "phase (snd (close normal s)) = Closed" "inputQueue (snd (close normal s)) = []" "queuedBytes (snd (close normal s)) = 0"
  using assms
  by (auto simp: close_def with_state_def act_bind_def modify_def emit_def return_def call_sftp_def clear_credentials_def
      answer_host_def split: option.split reader.split)

text \<open>One turn of the flush loop: either the window is used up, or the first piece of the queue yields a chunk of
  channel data, which is taken off the queue once it is sent.\<close>

lemma chunk_payload:
  fixes ch2 :: SSHChannel
  assumes "takeChannelDataChunk ch head off = (ch', Some chunk)"
  defines "p \<equiv> writeChannelDataPayload ch2 (zeros (chunk_payloadLength chunk)) 0
      (chunk_source chunk) (chunk_sourceOffset chunk) (chunk_bytesConsumed chunk)"
  shows "p \<noteq> []" "hd p = MSG_DATA" "drop 9 p = take (chunk_bytesConsumed chunk) (drop off head)"
    "0 < chunk_bytesConsumed chunk" "off + chunk_bytesConsumed chunk \<le> length head"
proof -
  show n: "0 < chunk_bytesConsumed chunk" "off + chunk_bytesConsumed chunk \<le> length head"
    using assms(1) by (auto simp: takeChannelDataChunk_def Let_def split: if_splits)
  have chunk: "chunk_source chunk = head" "chunk_sourceOffset chunk = off" "chunk_payloadLength chunk = 9 + chunk_bytesConsumed chunk"
    using assms(1) by (auto simp: takeChannelDataChunk_def Let_def split: if_splits)
  let ?n = "chunk_bytesConsumed chunk" and ?m = "SSH_MSG_CHANNEL_DATA # be32 (remoteChannelID ch2) @ be32 (chunk_bytesConsumed chunk)
      @ subarray head off (off + chunk_bytesConsumed chunk)"
  have "p = ?m"
    using writeChannelDataPayload_writes [of off ?n head ch2, unfolded writes_payload_def, rule_format, of "9 + ?n" "[]"] n
    by (simp add: p_def chunk length_subarray msg_defs)
  then show "p \<noteq> []" "hd p = MSG_DATA" "drop 9 p = take ?n (drop off head)"
    using n by (simp_all add: subarray_def msg_defs)
qed

lemma settled_eq: "settled m s = (case m s of (r, u) \<Rightarrow> (Inr (r = Inr ()), u))"
  by (auto simp: settled_def act_catch_def act_bind_def return_def split: prod.split sum.split)

definition sends_chunk :: "'k session_env \<Rightarrow> 'k session \<Rightarrow> bytes \<Rightarrow> SSHChannel \<Rightarrow> nat \<Rightarrow> bytes
    \<Rightarrow> ('k session \<Rightarrow> CipherSpec \<Rightarrow> 'k cipher \<Rightarrow> 'k cipher \<times> bytes) \<Rightarrow> bool" where
  "sends_chunk env s head ch n p mk \<longleftrightarrow>
     p \<noteq> [] \<and> hd p = MSG_DATA \<and> drop 9 p = take n (drop (queueHeadOffset s) head) \<and> 0 < n \<and> queueHeadOffset s + n \<le> length head
     \<and> flush_turn env s = (case send_built env p mk (store_channel 0 ch s) of
          (r, u) \<Rightarrow> (Inr (), u\<lparr>flushTask := Some (length head, n, r = Inr ())\<rparr>))"

lemma flush_turn_outcome:
  assumes q: "inputQueue s = head # q" and ready: "phase s = PhaseReady"
  obtains ch where "flush_turn env s = (Inr (), (store_channel 0 ch s)\<lparr>flushingInput := False\<rparr>)"
      "queueHeadOffset s < length head \<Longrightarrow> remoteWindowSize ch = 0 \<or> remoteMaxPacketSize ch = 0"
  | ch n p mk where "sends_chunk env s head ch n p mk"
proof -
  obtain ch taken where t: "takeChannelDataChunk (channelObjects s 0) head (queueHeadOffset s) = (ch, taken)" by fastforce
  let ?s = "store_channel 0 ch s"
  have take: "take_input_chunk s = (Inr (map_option (Pair head) taken), ?s)"
    by (simp add: take_input_chunk_def with_state_def act_bind_def modify_def return_def q t Let_def)
  show thesis
  proof (cases taken)
    case None
    have "queueHeadOffset s < length head \<Longrightarrow> remoteWindowSize ch = 0 \<or> remoteMaxPacketSize ch = 0"
      using t None by (auto simp: takeChannelDataChunk_def Let_def min_def split: if_splits)
    then show thesis using None
      by (intro that(1)) (simp_all add: flush_turn_def with_state_def act_bind_def take modify_def q ready)
  next
    case (Some chunk)
    define p where "p = writeChannelDataPayload ch (zeros (chunk_payloadLength chunk)) 0
      (chunk_source chunk) (chunk_sourceOffset chunk) (chunk_bytesConsumed chunk)"
    note pay = chunk_payload(1-3) [OF t [unfolded Some], of ch, folded p_def] chunk_payload(4,5) [OF t [unfolded Some]]
    obtain mk where "sendChannelData env 0 chunk ?s = send_built env p mk ?s"
      by (simp add: sendChannelData_def with_state_def Let_def store_channel_def p_def)
    then have "sends_chunk env s head ch (chunk_bytesConsumed chunk) p mk"
      using pay Some by (auto simp: sends_chunk_def flush_turn_def with_state_def act_bind_def take modify_def settled_eq q ready split: prod.split)
    then show thesis by (rule that(2))
  qed
qed

lemma flush_turn_idle: "inputQueue s = [] \<or> phase s \<noteq> PhaseReady \<Longrightarrow> flush_turn env s = (Inr (), s\<lparr>flushingInput := False\<rparr>)"
  by (auto simp: flush_turn_def with_state_def modify_def)

lemma keepsD: "keeps R m \<Longrightarrow> R s (snd (m s))"
  by (simp add: keeps_def)

context preorder_on_states
begin

text \<open>A relation that ignores terminal input is kept by a flush if it is kept by sending channel data.\<close>

lemma keeps_flush:
  assumes input: "\<And>s t. same_kex s t \<Longrightarrow> same_auth s t \<Longrightarrow> same_phase s t \<Longrightarrow> same_effects s t \<Longrightarrow> R s t"
    and send: "\<And>p mk. p \<noteq> [] \<Longrightarrow> hd p = MSG_DATA \<Longrightarrow> keeps R (send_built env p mk)"
  shows "keeps R (flushInput env)" "keeps R (flush_resumed env)"
proof -
  have turn: "keeps R (flush_turn env)"
    unfolding keeps_def
  proof
    fix s :: "'k session"
    show "R s (snd (flush_turn env s))"
    proof (cases "inputQueue s = [] \<or> phase s \<noteq> PhaseReady")
      case True
      then show ?thesis by (simp add: flush_turn_idle input same_defs)
    next
      case False
      then obtain head q where q: "inputQueue s = head # q" and ready: "phase s = PhaseReady" by (cases "inputQueue s") auto
      show ?thesis
      proof (rule flush_turn_outcome [OF q ready, of env])
        fix ch assume "flush_turn env s = (Inr (), (store_channel 0 ch s)\<lparr>flushingInput := False\<rparr>)"
        then show ?thesis by (simp add: input same_defs store_channel_def)
      next
        fix ch n p and mk :: "'k session \<Rightarrow> CipherSpec \<Rightarrow> 'k cipher \<Rightarrow> 'k cipher \<times> bytes"
        assume chunk: "sends_chunk env s head ch n p mk"
        let ?u = "snd (send_built env p mk (store_channel 0 ch s))"
        have "R s (store_channel 0 ch s)" by (simp add: input same_defs store_channel_def)
        moreover have "R (store_channel 0 ch s) ?u" using chunk by (intro keepsD [OF send]) (simp_all add: sends_chunk_def)
        moreover have "R ?u (?u\<lparr>flushTask := t\<rparr>)" for t by (simp add: input same_defs)
        ultimately show ?thesis using chunk by (auto simp: sends_chunk_def split: prod.split intro: trans)
      qed
    qed
  qed
  show "keeps R (flushInput env)" unfolding flushInput_def
    by (auto intro!: keeps_with_state keeps_return keeps_bind keeps_modify turn input simp: same_defs)
  show "keeps R (flush_resumed env)" unfolding flush_resumed_def
    by (auto intro!: keeps_with_state keeps_return keeps_bind keeps_modify turn input simp: same_defs advance_queue_def Let_def
        split: option.split)
qed

end

text \<open>The events whose effect does not depend on the handlers.\<close>

fun routine :: "session_event \<Rightarrow> bool" where
  "routine (ReadTurn _) = False"
| "routine (BrowserMessage _) = False"
| "routine HostTimeout = False"
| "routine ShellTimeout = False"
| "routine _ = True"

locale session_relation = preorder_on_states R for R :: "'k session \<Rightarrow> 'k session \<Rightarrow> bool" +
  fixes env :: "'k session_env"
  assumes frame: "same_core s t \<Longrightarrow> R s t"
    and emit_quiet: "quiet e \<Longrightarrow> R s (s\<lparr>effects := effects s @ [e]\<rparr>)"
    and send: "ordinary p \<Longrightarrow> keeps R (send_built env p mk)"
    and plain: "kex_payload env p \<Longrightarrow> keeps R (sendPlain env p)"
    and flush: "keeps R (flushInput env)"
    and resume: "keeps R (flush_resumed env)"
    and closing: "keeps R (close b)"
    and reader_moves: "r \<in> {Idle, Pumping, EnablingInbound} \<union> range Handling \<Longrightarrow> R s (s\<lparr>readTask := r\<rparr>)"
    and own_kex: "R s (s\<lparr>localKex := Some (KEXInitBuilder_build (env_cookie env))\<rparr>)"
    and peer_version: "R s (s\<lparr>transport := setRemoteVersion (transport s) line\<rparr>)"
    and own_public: "R s (s\<lparr>clientPublic := Some (env_publicKey env n)\<rparr>)"
    and early_phase: "ph \<in> {Kex, HostConfirm, Auth} \<Longrightarrow> R s (s\<lparr>phase := ph\<rparr>)"
begin

lemma keeps_frame: "(\<And>s. same_core s (f s)) \<Longrightarrow> keeps R (modify f)"
  by (simp add: keeps_modify frame)

lemma keeps_quiet: "quiet e \<Longrightarrow> keeps R (emit e)"
  by (simp add: emit_def keeps_modify emit_quiet)

lemma keeps_send: "ordinary p \<Longrightarrow> keeps R (sendEncrypted env p)"
  by (simp add: sendEncrypted_def send)

lemma keeps_json: "keeps R (sendJson m)"
  unfolding sendJson_def by (intro keeps_rules keeps_quiet) simp

lemma keeps_status: "keeps R (status event message)"
  unfolding status_def by (rule keeps_json)

lemma keeps_process_json: "keeps R (sendProcessJson m)"
  unfolding sendProcessJson_def by (intro keeps_rules keeps_quiet) simp

lemma keeps_process_error: "keeps R (sendProcessError m)"
  unfolding sendProcessError_def by (rule keeps_process_json)

lemma keeps_sftp_error: "keeps R (sendSFTPError a m)"
  unfolding sendSFTPError_def by (intro keeps_rules keeps_quiet) simp

lemma keeps_call_sftp: "keeps R (call_sftp c)"
  unfolding call_sftp_def by (intro keeps_rules) (auto split: option.split intro: keeps_return keeps_quiet)

lemma keeps_fail: "keeps R (fail event message)"
  unfolding fail_def by (rule keeps_block) (simp add: keeps_json closing)

lemma keeps_reader: "r \<in> {Idle, Pumping, EnablingInbound} \<union> range Handling \<Longrightarrow> keeps R (modify (\<lambda>s. s\<lparr>readTask := r\<rparr>))"
  by (simp add: keeps_modify reader_moves)

lemma keeps_reading: "keeps R m \<Longrightarrow> keeps R (reading m)"
  unfolding reading_def by (intro keeps_catch keeps_block) (auto intro: keeps_reader keeps_fail)

lemma keeps_discard: "keeps R m \<Longrightarrow> keeps R (discard m)"
  unfolding discard_def by (intro keeps_rules)

lemma keeps_option: "keeps R n \<Longrightarrow> (\<And>x. keeps R (f x)) \<Longrightarrow> keeps R (case v of None \<Rightarrow> n | Some x \<Rightarrow> f x)"
  by (cases v) auto

lemma keeps_if: "(c \<Longrightarrow> keeps R a) \<Longrightarrow> (\<not> c \<Longrightarrow> keeps R b) \<Longrightarrow> keeps R (if c then a else b)"
  by simp

lemma keeps_pair: "(\<And>x y. p = (x, y) \<Longrightarrow> keeps R (f x y)) \<Longrightarrow> keeps R (case p of (x, y) \<Rightarrow> f x y)"
  by (cases p) auto

lemma keeps_let: "keeps R (f x) \<Longrightarrow> keeps R (Let x f)"
  by simp

lemma keeps_block_Cons: "keeps R m \<Longrightarrow> keeps R (act_block ms) \<Longrightarrow> keeps R (act_block (m # ms))"
  by (simp add: keeps_bind)

lemma keeps_block_Nil: "keeps R (act_block [])"
  by (simp add: keeps_return)

lemmas keeps_steps = keeps_return keeps_throw keeps_attempt keeps_bind keeps_catch keeps_with_state keeps_when
  keeps_option keeps_if keeps_pair keeps_let keeps_block_Cons keeps_block_Nil
  keeps_json keeps_status keeps_process_json keeps_process_error keeps_sftp_error keeps_call_sftp keeps_fail flush closing

lemma keeps_on_channel: "keeps R (on_channel i method)"
  unfolding on_channel_def by (intro keeps_steps keeps_frame) (simp add: same_defs store_channel_def)

lemma keeps_channel_send:
  assumes "\<And>ch ch' p. method ch = (ch', Inr p) \<Longrightarrow> ordinary p"
  shows "keeps R (act_bind (on_channel i method) (sendEncrypted env))"
  unfolding keeps_def
proof
  fix s :: "'k session"
  obtain ch r where m: "method (channelObjects s i) = (ch, r)" by fastforce
  have f: "R s (store_channel i ch s)" by (rule frame) (simp add: same_defs store_channel_def)
  show "R s (snd (act_bind (on_channel i method) (sendEncrypted env) s))"
  proof (cases r)
    case (Inl e)
    then show ?thesis using m f
      by (simp add: act_bind_def on_channel_def with_state_def modify_def attempt_def rethrow_def fail_with_def)
  next
    case (Inr p)
    then have "keeps R (sendEncrypted env p)" using assms m by (intro keeps_send) blast
    then have "R (store_channel i ch s) (snd (sendEncrypted env p (store_channel i ch s)))" by (simp add: keeps_def)
    with f have "R s (snd (sendEncrypted env p (store_channel i ch s)))" by (rule trans)
    then show ?thesis using m Inr by (simp add: act_bind_def on_channel_def with_state_def modify_def attempt_def)
  qed
qed

lemma keeps_attempt_send:
  assumes "\<And>p. r = Inr p \<Longrightarrow> ordinary p"
  shows "keeps R (act_bind (attempt r) (sendEncrypted env))"
  using assms by (cases r) (auto simp: keeps_def act_bind_def attempt_def refl dest: keeps_send)

lemma keeps_aux_close: "keeps R (sendAuxiliaryChannelClose env i)"
  unfolding sendAuxiliaryChannelClose_def
  by (intro keeps_steps keeps_channel_send) (auto dest: ordinary_builds)

lemma keeps_clear_sftp: "keeps R (clearPendingSFTPChannelOpen i)"
  unfolding clearPendingSFTPChannelOpen_def by (intro keeps_frame) (auto simp: same_defs split: option.split)

lemma keeps_clear_process: "keeps R (clearPendingProcessChannelOpen i)"
  unfolding clearPendingProcessChannelOpen_def by (intro keeps_frame) (auto simp: same_defs split: option.split)

lemma keeps_drop_channel: "keeps R (drop_channel i)"
  unfolding drop_channel_def by (intro keeps_frame) (simp add: same_defs)

lemma keeps_kill_update: "keeps R (modify (put_kill k))" "keeps R (modify (delete_kill i))"
  by (intro keeps_frame; simp add: same_defs put_kill_def delete_kill_def)+

lemma keeps_dispose_sftp: "keeps R dispose_sftp"
  unfolding dispose_sftp_def by (intro keeps_steps keeps_frame) (simp add: same_defs)

lemmas keeps_small = keeps_steps keeps_on_channel keeps_aux_close keeps_clear_sftp keeps_clear_process keeps_drop_channel
  keeps_kill_update keeps_dispose_sftp

lemma keeps_finalize: "keeps R (finalizeProcessKill k m)"
  unfolding finalizeProcessKill_def by (intro keeps_small)

lemma keeps_expire_kill: "keeps R (expirePendingProcessKill env i)"
  unfolding expirePendingProcessKill_def by (intro keeps_small)

lemma keeps_open_kill: "keeps R (openProcessKillChannel env pid rid)"
  unfolding openProcessKillChannel_def
  by (intro keeps_small keeps_frame keeps_send) (auto simp: same_defs store_channel_def dest: ordinary_builds)

lemma keeps_emit_snapshots: "keeps R (emit_snapshots raws)"
  unfolding emit_snapshots_def by (rule keeps_block) (auto simp: list_all_iff keeps_process_json)

lemma keeps_process_output: "keeps R (processOutput data)"
  unfolding processOutput_def
  by (intro keeps_small keeps_frame keeps_emit_snapshots) (simp add: same_defs)

lemma keeps_flush_process: "keeps R flushProcess"
  unfolding flushProcess_def
  by (intro keeps_small keeps_frame keeps_emit_snapshots) (simp add: same_defs)

lemma keeps_open_process: "keeps R (openProcessChannel env)"
  unfolding openProcessChannel_def
  by (intro keeps_small keeps_frame keeps_send) (auto simp: same_defs store_channel_def dest: ordinary_builds)

lemma keeps_close_process: "keeps R (closeProcessChannel env)"
  unfolding closeProcessChannel_def by (intro keeps_small keeps_frame) (auto simp: same_defs)

lemma keeps_expire_process: "keeps R (expirePendingProcessChannelOpen env i)"
  unfolding expirePendingProcessChannelOpen_def by (intro keeps_small keeps_frame) (auto simp: same_defs)

lemma keeps_attach: "keeps R (attachProcessWebSocket ws)" "keeps R (attachSFTPWebSocket ws)"
  unfolding attachProcessWebSocket_def attachSFTPWebSocket_def by (intro keeps_small keeps_frame; simp add: same_defs)+

lemma keeps_detach_kill: "keeps R (detach_kill env k)"
  unfolding detach_kill_def by (intro keeps_small)

lemma keeps_detach_process: "keeps R (detachProcessWebSocket env ws)"
  unfolding detachProcessWebSocket_def
  by (intro keeps_small keeps_frame keeps_close_process keeps_block)
    (auto simp: same_defs list_all_iff keeps_detach_kill)

lemma keeps_process_message: "keeps R (handleProcessClientMessage env b n v)"
  unfolding handleProcessClientMessage_def
  by (intro keeps_small keeps_open_process keeps_close_process keeps_open_kill)
    (auto split: option.split json.split intro: keeps_small keeps_open_kill)

lemma keeps_close_sftp: "keeps R (closeSFTPChannel env)"
  unfolding closeSFTPChannel_def by (intro keeps_small keeps_frame) (auto simp: same_defs)

lemma keeps_open_sftp: "keeps R (openSFTPChannel env ready)"
  unfolding openSFTPChannel_def
  by (intro keeps_small keeps_frame keeps_send) (auto simp: same_defs store_channel_def dest: ordinary_builds)

lemma keeps_expire_sftp: "keeps R (expirePendingSFTPChannelOpen env i)"
  unfolding expirePendingSFTPChannelOpen_def by (intro keeps_small keeps_frame) (auto simp: same_defs)

lemma keeps_detach_sftp: "keeps R (detachSFTPWebSocket env ws)"
  unfolding detachSFTPWebSocket_def by (intro keeps_small keeps_frame keeps_close_sftp) (auto simp: same_defs)

text \<open>The handshake, apart from what concerns the host key.\<close>

lemma keeps_phase: "ph \<in> {Kex, HostConfirm, Auth} \<Longrightarrow> keeps R (modify (\<lambda>s. s\<lparr>phase := ph\<rparr>))"
  by (rule keeps_modify) (rule early_phase)

lemma keeps_start: "keeps R (start env)"
  unfolding start_def socket_write_def by (intro keeps_small keeps_quiet) simp

lemma keeps_startKex: "keeps R (startKex env)"
  unfolding startKex_def by (intro keeps_small keeps_modify own_kex plain) (simp add: kex_payload_def)

lemma keeps_feed_parser: "keeps R (feed_parser data)"
  unfolding feed_parser_def
proof (rule keeps_modify)
  fix s :: "'k session"
  let ?t = "s\<lparr>packetParser := Ssh_Packet.feed (packetParser s) data\<rparr>"
  have "R s ?t" by (rule frame) (simp add: same_defs)
  moreover have "R ?t (?t\<lparr>readTask := Pumping\<rparr>)" by (rule reader_moves) simp
  ultimately have "R s (?t\<lparr>readTask := Pumping\<rparr>)" by (rule trans)
  then show "R s (s\<lparr>packetParser := Ssh_Packet.feed (packetParser s) data, readTask := Pumping\<rparr>)" by simp
qed

lemma identified: "R s (s\<lparr>transport := setRemoteVersion (transport s) line, versionBuffer := [], phase := Kex\<rparr>)"
proof -
  let ?t = "s\<lparr>transport := setRemoteVersion (transport s) line\<rparr>"
  let ?u = "?t\<lparr>versionBuffer := []\<rparr>"
  have "R s ?t" by (rule peer_version)
  moreover have "R ?t ?u" by (rule frame) (simp add: same_defs)
  moreover have "R ?u (?u\<lparr>phase := Kex\<rparr>)" by (rule early_phase) simp
  ultimately have "R s (?u\<lparr>phase := Kex\<rparr>)" by (blast intro: trans)
  then show ?thesis by simp
qed

lemma keeps_consume: "keeps R (consume env data)"
proof -
  have "keeps R (case scan_version merged of NeedMore \<Rightarrow> return () | NotSsh2 \<Rightarrow> throw message
          | Identified line remaining \<Rightarrow> act_block
              [modify (\<lambda>s. s\<lparr>transport := setRemoteVersion (transport s) line, versionBuffer := [], phase := Kex\<rparr>),
               status event1 message1, startKex env, act_when (remaining \<noteq> []) (feed_parser remaining)])"
    for merged message event1 message1
    by (cases "scan_version merged")
      (auto intro!: keeps_block_Cons keeps_block_Nil keeps_return keeps_throw keeps_modify identified keeps_status keeps_startKex
        keeps_when keeps_feed_parser simp del: act_block.simps)
  then show ?thesis unfolding consume_def
    by (intro keeps_small keeps_frame keeps_feed_parser) (simp_all add: same_defs)
qed

lemma own_pair:
  "R s (s\<lparr>keyPairs := m, curvePair := c, clientPublic := Some (env_publicKey env n)\<rparr>)"
  "R s (s\<lparr>keyPairs := m, ecdhPair := c, clientPublic := Some (env_publicKey env n)\<rparr>)"
proof -
  have "R s (s\<lparr>keyPairs := m, curvePair := c\<rparr>)" "R s (s\<lparr>keyPairs := m, ecdhPair := c\<rparr>)"
    by (rule frame; simp add: same_defs)+
  from this [THEN trans [OF _ own_public [of _ n]]]
  show "R s (s\<lparr>keyPairs := m, curvePair := c, clientPublic := Some (env_publicKey env n)\<rparr>)"
    "R s (s\<lparr>keyPairs := m, ecdhPair := c, clientPublic := Some (env_publicKey env n)\<rparr>)" by simp_all
qed

lemma keeps_attempt_plain:
  assumes "\<And>p. r = Inr p \<Longrightarrow> kex_payload env p"
  shows "keeps R (act_bind (attempt r) (sendPlain env))"
  using assms plain by (cases r) (auto simp: keeps_def act_bind_def attempt_def refl)

lemma curve_init: "curve25519_buildInit p = Inr q \<Longrightarrow> q = ecdh_buildInit p"
  by (auto simp: curve25519_buildInit_def ecdh_buildInit_def split: if_splits)

lemma keeps_sendEcdhInit: "keeps R (sendEcdhInit env)"
  unfolding sendEcdhInit_def Let_def
  by (intro keeps_attempt_plain keeps_small keeps_modify own_pair plain) (auto simp: kex_payload_def dest!: curve_init)

lemma keeps_negotiated: "keeps R (negotiated a b c)" "keeps R (negotiated_mac d a b c)"
  unfolding negotiated_def negotiated_mac_def by (intro keeps_small)+

lemma keeps_handleKexInit: "keeps R (handleKexInit env payload)"
  unfolding handleKexInit_def Let_def
  by (intro keeps_small keeps_frame keeps_negotiated keeps_sendEcdhInit) (simp_all add: same_defs)

lemma keeps_make_cipher: "keeps R (make_cipher env spec key iv)"
  unfolding make_cipher_def by (intro keeps_small)

lemma keeps_enableInbound: "keeps R (enableInboundEncryption env)"
  unfolding enableInboundEncryption_def by (intro keeps_small keeps_frame keeps_make_cipher) (simp_all add: same_defs)

lemma keeps_inboundReady: "keeps R (inboundReady env)"
proof -
  have "R s (s\<lparr>phase := Auth, readTask := Pumping\<rparr>)" for s
    using trans [OF early_phase [of Auth s] reader_moves [of Pumping]] by simp
  then show ?thesis unfolding inboundReady_def
    by (intro keeps_small keeps_modify keeps_send ordinary_requests)
qed

lemma keeps_global_request: "keeps R (handleGlobalRequest env payload)"
  unfolding handleGlobalRequest_def by (intro keeps_small keeps_send ordinary_requests)

lemma keeps_keepalive: "keeps R (keepalive_tick env)"
  unfolding keepalive_tick_def by (intro keeps_small keeps_frame keeps_send ordinary_keepalive) (simp add: same_defs)

lemma keeps_attach_urls: "keeps R (setSFTPAttachUrl url)" "keeps R (setProcessAttachUrl url)"
  unfolding setSFTPAttachUrl_def setProcessAttachUrl_def by (intro keeps_small keeps_frame; simp add: same_defs)+

lemma keeps_resize: "keeps R (resize env cols rows)"
  unfolding resize_def by (intro keeps_small keeps_send ordinary_requests)

lemma keeps_next_packet: "keeps R (next_packet env)"
  unfolding next_packet_def Let_def by (intro keeps_small keeps_frame) (simp_all add: same_defs)

lemma keeps_adjust_window: "keeps R (adjustLocalWindow env i)"
  unfolding adjustLocalWindow_def by (intro keeps_small keeps_send ordinary_requests)

end

text \<open>What the dispatch of packets needs from its three handlers.\<close>

context session_relation
begin

lemma kept_if: "(c \<Longrightarrow> R s (snd (a s))) \<Longrightarrow> (\<not> c \<Longrightarrow> R s (snd (b s))) \<Longrightarrow> R s (snd ((if c then a else b) s))"
  by simp

lemma keeps_handlePacket:
  assumes "\<And>type. keeps R (handleKex env type payload)" "\<And>type. keeps R (handleAuth env type payload)"
    and "\<And>type s. phase s \<in> {Pty, Shell, PhaseReady} \<Longrightarrow> R s (snd (handleChannel env feedThrows type payload s))"
  shows "keeps R (handlePacket env feedThrows payload)"
proof -
  have zero: "keeps R (modify (\<lambda>s. s\<lparr>keepalivePending := 0\<rparr>))"
    by (rule keeps_frame) (simp add: same_defs)
  have algs: "keeps R (act_bind (attempt r) (\<lambda>algs. modify (\<lambda>s. s\<lparr>serverSigAlgs := algs\<rparr>)))" for r
    by (intro keeps_small keeps_frame) (simp add: same_defs)
  have bye: "keeps R (act_block [attempt r, status event message, close normal])" for r event message normal
    by (intro keeps_small)
  have "R s (snd (handlePacket env feedThrows payload s))" for s
    unfolding handlePacket_def Let_def with_state_def
    by (intro kept_if; (rule assms(3), blast | rule keepsD,
          (rule bye keeps_attempt keeps_throw keeps_return keeps_global_request zero algs assms(1,2))))
  then show ?thesis by (simp add: keeps_def)
qed

lemma keeps_processPacket: "keeps R (processPacket env)"
  unfolding processPacket_def by (intro keeps_small keeps_next_packet keeps_reader) simp_all

lemma keeps_process_payload: "keeps R (handlePacket env feedThrows payload) \<Longrightarrow> keeps R (process_payload env feedThrows payload)"
  unfolding process_payload_def by (intro keeps_small keeps_reader) simp_all

lemma reading_at:
  assumes "R s (snd (m s))"
  shows "R s (snd (reading m s))"
proof -
  have h: "keeps R (act_block [modify (\<lambda>s. s\<lparr>readTask := Idle\<rparr>), fail event message])" for event message
    by (intro keeps_block_Cons keeps_block_Nil keeps_reader keeps_fail) simp
  show ?thesis
  proof (cases "fst (m s)")
    case (Inl e)
    then show ?thesis using trans [OF assms keepsD [OF h]]
      by (cases "m s") (simp add: reading_def act_catch_def del: act_block.simps)
  next
    case (Inr x)
    then show ?thesis using assms by (cases "m s") (simp add: reading_def act_catch_def)
  qed
qed

lemma turn_at:
  assumes "\<And>payload. keeps R (handlePacket env feedThrows payload)"
    and "\<And>ctx. readTask s = VerifyingHost ctx \<Longrightarrow> R s (snd (verifyHost env ctx s))"
    and "\<And>ctx accepted. readTask s = HostAnswered ctx accepted \<Longrightarrow> R s (snd (hostAnswered env ctx accepted s))"
  shows "R s (snd (read_turn env feedThrows s))"
  using assms(2,3) keepsD [OF keeps_processPacket] keepsD [OF keeps_process_payload [OF assms(1)]] keepsD [OF keeps_inboundReady]
  by (cases "readTask s") (simp_all add: read_turn_def with_state_def return_def refl reading_at)

lemma keeps_json_case:
  "keeps R a \<Longrightarrow> (\<And>b. keeps R (f b)) \<Longrightarrow> (\<And>n. keeps R (g n)) \<Longrightarrow> (\<And>t. keeps R (h t)) \<Longrightarrow> (\<And>xs. keeps R (k xs))
     \<Longrightarrow> (\<And>fs. keeps R (l fs)) \<Longrightarrow> keeps R (case_json a f g h k l v)"
  by (cases v) auto

lemma keeps_message_case: "(\<And>d. keeps R (f d)) \<Longrightarrow> (\<And>v. keeps R (g v)) \<Longrightarrow> keeps R (case_client_message f g m)"
  by (cases m) auto

lemma keeps_host_key_decision:
  assumes "\<And>fp accept s. pendingHostConfirmation s = Some fp
      \<Longrightarrow> R s (snd (act_block [emit (HostDecision fp accept), modify (answer_host accept)] s))"
  shows "keeps R (host_key_decision v)"
proof -
  have "R s (snd (host_key_decision v s))" for s
  proof (cases "pendingHostConfirmation s")
    case None
    then show ?thesis by (simp add: host_key_decision_def with_state_def return_def refl)
  next
    case (Some fp)
    show ?thesis
      using assms [OF Some] unfolding host_key_decision_def with_state_def Some
      by (simp add: return_def refl del: act_block.simps split: option.split json.split)
  qed
  then show ?thesis by (simp add: keeps_def)
qed

lemma keeps_client_message:
  assumes "\<And>data. keeps R (queueInput env data)"
    and "\<And>fp accept s. pendingHostConfirmation s = Some fp
      \<Longrightarrow> R s (snd (act_block [emit (HostDecision fp accept), modify (answer_host accept)] s))"
  shows "keeps R (handleClientMessage env m)"
proof -
  have "keeps R (handleTextMessage env v)" for v
    unfolding handleTextMessage_def Let_def
    by (intro keeps_host_key_decision assms keeps_small keeps_json_case keeps_resize)
  then show ?thesis unfolding handleClientMessage_def
    by (intro assms(1) keeps_small keeps_message_case)
qed

lemma routine_event: "routine e \<Longrightarrow> R s (after env e s)"
proof -
  assume "routine e"
  then have "keeps R (perform env e)"
    by (cases e) (auto intro!: keeps_start keeps_reading keeps_consume keeps_small keeps_reader keeps_discard keeps_keepalive
        keeps_attach_urls keeps_attach keeps_detach_process keeps_process_message keeps_expire_process keeps_expire_kill
        keeps_detach_sftp keeps_open_sftp keeps_close_sftp keeps_expire_sftp resume simp del: act_block.simps)
  then show ?thesis by (simp add: after_def keeps_def)
qed

end

subsection \<open>Relations that ignore a part of the state\<close>

locale phase_free = session_relation +
  assumes phases: "same_kex s t \<Longrightarrow> same_auth s t \<Longrightarrow> same_input s t \<Longrightarrow> same_effects s t \<Longrightarrow> R s t"
begin

lemma keeps_phases:
  "(\<And>s. same_kex s (f s) \<and> same_auth s (f s) \<and> same_input s (f s) \<and> same_effects s (f s)) \<Longrightarrow> keeps R (modify f)"
  by (simp add: keeps_modify phases)

lemma keeps_markReady: "keeps R (markReady env)"
  unfolding markReady_def by (intro keeps_small keeps_phases) (simp add: same_defs)

lemma keeps_shell_result: "keeps R (shell_result env failure)"
  unfolding shell_result_def
  by (intro keeps_small keeps_phases keeps_send ordinary_requests keeps_markReady) (simp_all add: same_defs)

lemma keeps_shell_output: "keeps R (shell_output env output)"
  unfolding shell_output_def by (intro keeps_small keeps_markReady keeps_quiet) simp

lemma keeps_kill_confirmed: "keeps R (kill_confirmed env kill)"
  unfolding kill_confirmed_def Let_def
  by (intro keeps_attempt_send keeps_small keeps_finalize) (auto dest: ordinary_builds)

lemma keeps_openConfirmed: "keeps R (openConfirmed_message env i payload)"
  unfolding openConfirmed_message_def
  by (intro keeps_attempt_send keeps_small keeps_phases keeps_send ordinary_requests keeps_kill_confirmed)
    (auto simp: same_defs dest: ordinary_builds)

lemma keeps_openFailed: "keeps R (openFailed_message i payload)"
  unfolding openFailed_message_def by (intro keeps_small keeps_frame keeps_finalize) (simp add: same_defs)

lemma keeps_request_result: "keeps R (request_result env i failure payload)"
  unfolding request_result_def by (intro keeps_small keeps_frame keeps_shell_result) (simp add: same_defs)

lemma keeps_channel_data: "keeps R (channel_data env feedThrows i payload)"
  unfolding channel_data_def
  by (intro keeps_small keeps_shell_output keeps_close_sftp keeps_process_output keeps_adjust_window)

lemma keeps_extended_data: "keeps R (channel_extended_data env i payload)"
  unfolding channel_extended_data_def Let_def by (intro keeps_small keeps_shell_output keeps_adjust_window)

lemma keeps_window_adjust: "keeps R (channel_window_adjust env i payload)"
  unfolding channel_window_adjust_def by (intro keeps_small)

lemma keeps_eof: "keeps R (channel_eof i payload)"
  unfolding channel_eof_def by (intro keeps_small keeps_flush_process)

lemma keeps_channel_close: "keeps R (channel_close env i payload)"
  unfolding channel_close_def
  by (intro keeps_channel_send keeps_small keeps_frame keeps_flush_process keeps_finalize)
    (auto simp: same_defs dest: ordinary_builds)

lemma keeps_handleChannel: "keeps R (handleChannel env feedThrows type payload)"
  unfolding handleChannel_def Let_def
  by (intro keeps_small keeps_openConfirmed keeps_openFailed keeps_request_result keeps_channel_data keeps_extended_data
      keeps_window_adjust keeps_eof keeps_channel_close)

lemma shell_timeout: "R s (after env ShellTimeout s)"
  using keeps_markReady by (simp add: after_def keeps_def)

end

text \<open>The requests and responses of user authentication.\<close>

definition auth_payload :: "bytes \<Rightarrow> bool" where
  "auth_payload p \<longleftrightarrow> p \<noteq> [] \<and> hd p \<in> {50, 61}"

lemma auth_payloads:
  "auth_payload (buildPasswordAuthRequest u pw)" "auth_payload (buildKeyboardInteractiveAuthRequest u)"
  "auth_payload (buildKeyboardInteractiveResponse rs)"
  "buildPublicKeyAuthRequest subtle u pem i algs = Inr p \<Longrightarrow> auth_payload p"
  by (auto simp: auth_payload_def buildPasswordAuthRequest_def buildKeyboardInteractiveAuthRequest_def
      buildKeyboardInteractiveResponse_def buildPublicKeyAuthRequest_def concat_arrays_concat and_then_def Let_def
      split: sum.splits)

definition yields :: "('a \<Rightarrow> bool) \<Rightarrow> ('k, 'a) act \<Rightarrow> bool" where
  "yields P m \<longleftrightarrow> (\<forall>s x t. m s = (Inr x, t) \<longrightarrow> P x)"

lemma yields_auth_request: "yields auth_payload (auth_request env s)"
  by (auto simp: yields_def auth_request_def throw_def attempt_def return_def auth_payloads split: auth_method.splits option.splits)

locale auth_free = session_relation +
  assumes auth: "same_kex s t \<Longrightarrow> same_phase s t \<Longrightarrow> same_input s t \<Longrightarrow> same_effects s t
      \<Longrightarrow> weaker_config (config s) (config t) \<Longrightarrow> R s t"
    and send_auth: "auth_payload p \<Longrightarrow> keeps R (send_built env p mk)"
begin

lemma keeps_auth:
  "(\<And>s. same_kex s (f s) \<and> same_phase s (f s) \<and> same_input s (f s) \<and> same_effects s (f s)
     \<and> weaker_config (config s) (config (f s))) \<Longrightarrow> keeps R (modify f)"
  by (simp add: keeps_modify auth)

lemma keeps_send_auth: "auth_payload p \<Longrightarrow> keeps R (sendEncrypted env p)"
  by (simp add: sendEncrypted_def send_auth)

lemma keeps_bind_yields:
  assumes "keeps R m" "yields P m" "\<And>x. P x \<Longrightarrow> keeps R (f x)"
  shows "keeps R (act_bind m f)"
  unfolding keeps_def
proof
  fix s
  have "R s (snd (m s))" using assms(1) by (simp add: keeps_def)
  moreover have "P x \<Longrightarrow> R t (snd (f x t))" for x t using assms(3) by (simp add: keeps_def)
  moreover have "m s = (Inr x, t) \<Longrightarrow> P x" for x t using assms(2) by (auto simp: yields_def)
  ultimately show "R s (snd (act_bind m f s))"
    by (cases "m s"; cases "fst (m s)") (fastforce simp: act_bind_def intro: trans)+
qed

lemma keeps_serviceAccepted: "keeps R (serviceAccepted env payload)"
proof -
  have req: "keeps R (act_bind (auth_request env s) (\<lambda>request. act_block
          [modify (\<lambda>s. s\<lparr>authRequestSent := True\<rparr>),
            act_when c (modify (\<lambda>s. s\<lparr>config := (config s)\<lparr>cfg_privateKey := None\<rparr>\<rparr>)),
            sendEncrypted env request]))" for s c
  proof (rule keeps_bind_yields [OF _ yields_auth_request])
    show "keeps R (auth_request env s)"
      by (auto simp: auth_request_def intro: keeps_small split: auth_method.split option.split)
  qed (intro keeps_small keeps_auth keeps_send_auth; simp add: same_defs weaker_config_def)
  show ?thesis unfolding serviceAccepted_def by (intro req keeps_small)
qed

lemma keeps_infoRequested: "keeps R (infoRequested env payload)"
  unfolding infoRequested_def
  by (intro keeps_small keeps_auth keeps_send_auth auth_payloads) (simp_all add: same_defs weaker_config_def)

lemma keeps_authFailed: "keeps R (authFailed env payload)"
  unfolding authFailed_def
  by (intro keeps_small keeps_auth keeps_send_auth auth_payloads) (simp_all add: same_defs weaker_config_def)

lemma keeps_handleAuth_if: "keeps R (authSucceeded env payload) \<Longrightarrow> keeps R (handleAuth env type payload)"
  unfolding handleAuth_def
  by (intro keeps_small keeps_serviceAccepted keeps_infoRequested keeps_authFailed)

end

locale login_free = phase_free + auth_free
begin

lemma keeps_authSucceeded: "keeps R (authSucceeded env payload)"
proof -
  have pty: "keeps R (modify (\<lambda>s. s\<lparr>phase := Pty, keepaliveTimer := True, channelObjects := (channelObjects s)(0 := ch)\<rparr>))" for ch
    by (rule keeps_phases) (simp add: same_defs)
  show ?thesis unfolding authSucceeded_def
    by (intro pty keeps_small keeps_auth keeps_send)
      (auto simp: same_defs weaker_config_def clear_credentials_def dest: ordinary_builds)
qed

lemma keeps_handleAuth: "keeps R (handleAuth env type payload)"
  by (rule keeps_handleAuth_if) (rule keeps_authSucceeded)

end

text \<open>The host key.\<close>

locale host_free = session_relation +
  assumes host: "same_auth s t \<Longrightarrow> same_phase s t \<Longrightarrow> same_input s t \<Longrightarrow> same_effects s t \<Longrightarrow> R s t"
    and decision: "R s (s\<lparr>effects := effects s @ [HostDecision fingerprint accept]\<rparr>)"
begin

lemma keeps_host:
  "(\<And>s. same_auth s (f s) \<and> same_phase s (f s) \<and> same_input s (f s) \<and> same_effects s (f s)) \<Longrightarrow> keeps R (modify f)"
  by (simp add: keeps_modify host)

lemma keeps_answer: "keeps R (modify (answer_host accepted))"
proof (rule keeps_modify)
  fix s :: "'a session"
  show "R s (answer_host accepted s)"
  proof (cases "\<exists>ctx. readTask s = ConfirmingHost ctx")
    case True
    then obtain ctx where c: "readTask s = ConfirmingHost ctx" by blast
    let ?h = "s\<lparr>pendingHostConfirmation := None, readTask := HostAnswered ctx accepted\<rparr>"
    have h: "R s ?h" by (rule host) (simp_all add: same_defs)
    show ?thesis
    proof (cases "accepted \<and> phase s \<noteq> Closed")
      case True
      have "R s (?h\<lparr>phase := Kex\<rparr>)" by (rule trans [OF h early_phase]) simp
      moreover have "answer_host accepted s = ?h\<lparr>phase := Kex\<rparr>" using True c by (simp add: answer_host_def)
      ultimately show ?thesis by simp
    next
      case False
      have "answer_host accepted s = ?h" using False c by (simp add: answer_host_def)
      then show ?thesis using h by simp
    qed
  next
    case False
    have "answer_host accepted s = s\<lparr>pendingHostConfirmation := None\<rparr>"
      using False by (cases "readTask s") (simp_all add: answer_host_def)
    then show ?thesis by (simp add: host same_defs)
  qed
qed

lemma host_timeout: "R s (after env HostTimeout s)"
  using keeps_answer by (simp add: after_def keeps_def)

lemma keeps_decision: "keeps R (act_block [emit (HostDecision fp accept), modify (answer_host accept)])"
  unfolding emit_def by (intro keeps_small keeps_answer keeps_modify decision)

lemma keeps_handleEcdhReply: "keeps R (handleEcdhReply env payload)"
  unfolding handleEcdhReply_def by (intro keeps_small keeps_host) (simp add: same_defs)

lemma keeps_enableOutbound: "keeps R (enableOutboundEncryption env)"
  unfolding enableOutboundEncryption_def by (intro keeps_small keeps_host keeps_make_cipher) (simp_all add: same_defs)

lemma keeps_finishKex: "keeps R (finishKex env ctx)"
  unfolding finishKex_def
  by (intro keeps_small keeps_frame plain keeps_enableOutbound) (simp_all add: same_defs kex_payload_def)

lemma keeps_confirmHostKey: "keeps R (confirmHostKey ctx fingerprint expected)"
  unfolding confirmHostKey_def by (intro keeps_phase keeps_small keeps_host) (simp_all add: same_defs)

lemma keeps_verifyHost: "keeps R (verifyHost env ctx)"
proof -
  have trust: "keeps R (case trust of Trusted \<Rightarrow> a | FirstSeen \<Rightarrow> b | Changed \<Rightarrow> c)"
    if "keeps R a" "keeps R b" "keeps R c" for trust and a b c :: "('a, unit) act"
    using that by (cases trust) auto
  show ?thesis unfolding verifyHost_def Let_def
    by (intro trust keeps_small keeps_reader keeps_finishKex keeps_confirmHostKey) simp
qed

lemma keeps_hostAnswered: "keeps R (hostAnswered env ctx accepted)"
  unfolding hostAnswered_def by (intro keeps_small keeps_reader keeps_finishKex) simp

lemma keeps_handleKex: "keeps R (handleKex env type payload)"
  unfolding handleKex_def
  by (intro keeps_reader keeps_small keeps_frame keeps_handleKexInit keeps_handleEcdhReply keeps_enableInbound)
    (simp_all add: same_defs)

lemma keeps_read_turn:
  assumes "\<And>payload type. keeps R (handleAuth env type payload)"
    and "\<And>payload type s. phase s \<in> {Pty, Shell, PhaseReady} \<Longrightarrow> R s (snd (handleChannel env feedThrows type payload s))"
  shows "keeps R (read_turn env feedThrows)"
  unfolding read_turn_def
  by (intro keeps_with_state)
    (auto split: reader.split intro!: keeps_reading keeps_return keeps_verifyHost keeps_hostAnswered keeps_inboundReady
      keeps_processPacket keeps_process_payload keeps_handlePacket keeps_handleKex assms)

end

text \<open>Terminal input.\<close>

locale input_free = session_relation +
  assumes input: "same_kex s t \<Longrightarrow> same_auth s t \<Longrightarrow> same_phase s t \<Longrightarrow> same_effects s t \<Longrightarrow> R s t"
begin

lemma keeps_queueInput: "keeps R (queueInput env data)"
proof -
  have "keeps R (modify (push_input d))" for d
    by (rule keeps_modify, rule input) (simp_all add: same_defs push_input_def)
  then show ?thesis unfolding queueInput_def Let_def by (intro keeps_small)
qed

end

locale browser_free = host_free + input_free
begin

lemma browser_event: "R s (after env (BrowserMessage m) s)"
  using keeps_client_message [OF keeps_queueInput keepsD [OF keeps_decision], THEN keeps_discard] by (simp add: after_def keeps_def)

end

text \<open>A relation that ignores all of it is kept by every event.\<close>

locale unconcerned = login_free + browser_free
begin

lemma every_event: "R s (after env e s)"
proof (cases "routine e")
  case True
  then show ?thesis by (rule routine_event)
next
  case False
  have "keeps R (read_turn env feedThrows)" for feedThrows
    by (intro keeps_read_turn keeps_handleAuth keepsD [OF keeps_handleChannel])
  then show ?thesis
    using False shell_timeout host_timeout browser_event by (cases e) (simp_all add: after_def keeps_def)
qed

end

end
