(* ===== verification/Session_Example.thy ===== *)
theory Session_Example
  imports Session_Runs
begin

text \<open>
  Concrete runs of a session, for the instances of the properties of runs: playing a list of events, and an
  environment whose cryptography is a stand-in with the right lengths.
\<close>

text \<open>Playing a list of events; an event that is not enabled stops the run.\<close>

fun play :: "'k session_env \<Rightarrow> 'k session \<Rightarrow> session_event list \<Rightarrow> 'k session option" where
  "play env s [] = Some s"
| "play env s (e # es) = (if enabled e s then play env (after env e s) es else None)"

lemma run_Cons: "session_run env (after env e s) es t \<Longrightarrow> enabled e s \<Longrightarrow> session_run env s (e # es) t"
proof (induction "after env e s" es t rule: session_run.induct)
  case run_Nil
  then show ?case using run_snoc [OF session_run.run_Nil, of e s env] by simp
next
  case (run_snoc es t e')
  then show ?case using session_run.run_snoc [of env s "e # es" t e'] by simp
qed

lemma play_run: "play env s es = Some t \<Longrightarrow> session_run env s es t"
  by (induction es arbitrary: s) (auto intro: session_run.run_Nil run_Cons split: if_splits)

definition example_subtle :: "unit subtle_crypto" where
  "example_subtle = \<lparr>importPkcs8 = (\<lambda>_ _. None), importRaw = (\<lambda>_ _. Some ()), subtleSign = (\<lambda>_ _ _. None),
     subtleVerify = (\<lambda>_ _ _ _. Some True)\<rparr>"

definition example_env :: "unit session_env" where
  "example_env = \<lparr>env_subtle = example_subtle, env_importJwk = (\<lambda>_ _ _. None), env_sha256 = (\<lambda>_. replicate 32 7),
     env_cookie = (\<lambda>_. 1), env_padding = (\<lambda>_ _. 0), env_publicKey = (\<lambda>_. replicate 32 9),
     env_derive = (\<lambda>_ _. Some (replicate 32 5)), env_gcmKey = (\<lambda>_. ()), env_gcmEncrypt = (\<lambda>_ _ _ d. d @ replicate 16 0),
     env_gcmDecrypt = (\<lambda>_ _ _ d. Some (take (length d - 16) d)), env_ctrKey = (\<lambda>_. ()), env_ctrEncrypt = (\<lambda>_ _ d. d),
     env_ctrDecrypt = (\<lambda>_ _ d. Some d), env_hmacKey = (\<lambda>_ _. ()), env_hmacSign = (\<lambda>_ _. replicate 32 0),
     env_hmacVerify = (\<lambda>_ _ _. True), env_lower = (\<lambda>t. t), env_writes = None\<rparr>"

lemma example_writes [simp]: "env_writes example_env = None"
  by (simp add: example_env_def)

definition example_config :: SSHConnectionConfig where
  "example_config = \<lparr>cfg_host = ''h'', cfg_port = 22, cfg_username = ''u'', cfg_authMethod = AuthPassword,
     cfg_password = Some ''pw'', cfg_privateKey = None, cfg_cols = 80, cfg_rows = 24, cfg_term = ''xterm'',
     cfg_expectedFingerprint = None\<rparr>"

end
