(* ===== verification/Session_Credentials.thy ===== *)
theory Session_Credentials
  imports Session_Frame Session_Example
begin

text \<open>
  What happens to the user's credentials during a run of a session: they are gone from memory once the user is
  logged in or the session has ended (\<open>Session_Limits\<close> bounds how often they are presented to the server).
\<close>

subsection \<open>Erasing\<close>

definition credentials_cleared :: "'k session \<Rightarrow> bool" where
  "credentials_cleared s \<longleftrightarrow> cfg_password (config s) = None \<and> cfg_privateKey (config s) = None"

definition stays_cleared :: "'k session \<Rightarrow> 'k session \<Rightarrow> bool" where
  "stays_cleared s t \<longleftrightarrow> (credentials_cleared s \<longrightarrow> credentials_cleared t)"

lemma same_config_cleared: "config t = config s \<Longrightarrow> stays_cleared s t"
  by (simp add: stays_cleared_def credentials_cleared_def)

lemma send_built_config: "config (snd (send_built env p mk s)) = config s"
  by (rule send_built_cases [of env p mk s]) (simp_all add: count_packet_def)

lemma sendPlain_config: "config (snd (sendPlain env p s)) = config s"
  using sendPlain_result [of env p s] by (auto simp: count_packet_def)

lemma close_clears: "phase s \<noteq> Closed \<Longrightarrow> credentials_cleared (snd (close b s))"
  by (simp add: close_result credentials_cleared_def)

lemma close_closed: "phase s = Closed \<Longrightarrow> snd (close b s) = s"
  by (simp add: close_def with_state_def return_def)

interpretation cleared_preorder: preorder_on_states stays_cleared
  by unfold_locales (auto simp: stays_cleared_def)

interpretation cleared: unconcerned stays_cleared env for env :: "'k session_env"
proof unfold_locales
  have send: "keeps stays_cleared (send_built env p mk)" for p and mk :: "'k session \<Rightarrow> CipherSpec \<Rightarrow> 'k cipher \<Rightarrow> 'k cipher \<times> bytes"
    by (simp add: keeps_def same_config_cleared send_built_config)
  show "keeps stays_cleared (send_built env p mk)" for p and mk :: "'k session \<Rightarrow> CipherSpec \<Rightarrow> 'k cipher \<Rightarrow> 'k cipher \<times> bytes"
    by (rule send)
  show "keeps stays_cleared (send_built env p mk)" for p and mk :: "'k session \<Rightarrow> CipherSpec \<Rightarrow> 'k cipher \<Rightarrow> 'k cipher \<times> bytes"
    by (rule send)
  show "keeps stays_cleared (sendPlain env p)" for p
    by (simp add: keeps_def same_config_cleared sendPlain_config)
  show "keeps stays_cleared (flushInput env)" "keeps stays_cleared (flush_resumed env)"
    by (rule cleared_preorder.keeps_flush; simp add: same_config_cleared same_auth_def send)+
  have "stays_cleared s (snd (close b s))" for s :: "'k session" and b
    using close_clears [of s b] close_closed [of s b] by (cases "phase s = Closed") (simp_all add: stays_cleared_def)
  then show "keeps stays_cleared (close b :: ('k, unit) act)" for b by (simp add: keeps_def)
qed (auto simp: same_defs same_config_cleared stays_cleared_def credentials_cleared_def weaker_config_def)

text \<open>The states after authentication: a later phase, or one of the requests and timers that only these phases start.\<close>

definition authenticated_stage :: "'k session \<Rightarrow> bool" where
  "authenticated_stage s \<longleftrightarrow>
     phase s \<in> {Pty, Shell, PhaseReady, Closed} \<or> shellTimer s \<or> pendingChannelRequest s \<noteq> None"

definition erased_in_time :: "'k session \<Rightarrow> bool" where
  "erased_in_time s \<longleftrightarrow> (authenticated_stage s \<longrightarrow> credentials_cleared s)"

definition stays_erased :: "'k session \<Rightarrow> 'k session \<Rightarrow> bool" where
  "stays_erased s t \<longleftrightarrow> (erased_in_time s \<longrightarrow> erased_in_time t)"

lemmas erased_defs = stays_erased_def erased_in_time_def authenticated_stage_def credentials_cleared_def

lemma same_stage_erased: "same_phase s t \<Longrightarrow> config t = config s \<Longrightarrow> stays_erased s t"
  by (simp add: erased_defs same_phase_def)

lemma send_built_stage: "same_phase s (snd (send_built env p mk s))"
  by (rule send_built_cases [of env p mk s]) (simp_all add: count_packet_def same_phase_def)

lemma sendPlain_stage: "same_phase s (snd (sendPlain env p s))"
  using sendPlain_result [of env p s] by (auto simp: count_packet_def same_phase_def)

interpretation erased_preorder: preorder_on_states stays_erased
  by unfold_locales (auto simp: stays_erased_def)

interpretation erased: browser_free stays_erased env for env :: "'k session_env"
proof unfold_locales
  have send: "keeps stays_erased (send_built env p mk)" for p and mk :: "'k session \<Rightarrow> CipherSpec \<Rightarrow> 'k cipher \<Rightarrow> 'k cipher \<times> bytes"
    by (simp add: keeps_def same_stage_erased send_built_config send_built_stage)
  then show "keeps stays_erased (send_built env p mk)" for p and mk :: "'k session \<Rightarrow> CipherSpec \<Rightarrow> 'k cipher \<Rightarrow> 'k cipher \<times> bytes" .
  show "keeps stays_erased (sendPlain env p)" for p
    by (simp add: keeps_def same_stage_erased sendPlain_config sendPlain_stage)
  show "keeps stays_erased (flushInput env)" "keeps stays_erased (flush_resumed env)"
    by (rule erased_preorder.keeps_flush; simp add: same_stage_erased same_auth_def send)+
  have "stays_erased s (snd (close b s))" for s :: "'k session" and b
    using close_clears [of s b] close_closed [of s b]
    by (cases "phase s = Closed") (simp_all add: stays_erased_def erased_in_time_def)
  then show "keeps stays_erased (close b :: ('k, unit) act)" for b by (simp add: keeps_def)
qed (auto simp: same_defs erased_defs)

text \<open>Handlers that run only after authentication cannot bring credentials back.\<close>

lemma late_action_erased:
  assumes "keeps stays_cleared m" "authenticated_stage s"
  shows "stays_erased s (snd (m s))"
  using keepsD [OF assms(1), of s] assms(2) by (simp add: stays_cleared_def stays_erased_def erased_in_time_def)

lemma weaker_erased:
  assumes "same_phase s t" "weaker_config (config s) (config t)"
  shows "stays_erased s t"
proof -
  have "authenticated_stage t = authenticated_stage s" using assms(1) by (simp add: same_phase_def authenticated_stage_def)
  moreover have "credentials_cleared s \<Longrightarrow> credentials_cleared t"
    using assms(2) by (auto simp: weaker_config_def credentials_cleared_def)
  ultimately show ?thesis by (simp add: stays_erased_def erased_in_time_def)
qed

interpretation erased_auth: auth_free stays_erased env for env :: "'k session_env"
proof unfold_locales
  show "keeps stays_erased (send_built env p mk)" for p and mk :: "'k session \<Rightarrow> CipherSpec \<Rightarrow> 'k cipher \<Rightarrow> 'k cipher \<times> bytes"
    by (simp add: keeps_def same_stage_erased send_built_config send_built_stage)
qed (rule weaker_erased)

lemma keeps_erased_success: "keeps stays_erased (authSucceeded env payload)"
proof -
  have "stays_erased s (snd (authSucceeded env payload s))" for s
  proof (cases "length payload = 1 \<and> authRequestSent s")
    case True
    obtain ch m where o: "buildOpenSession (channelObjects s 0) 0 = (ch, m)" by fastforce
    define t where "t = clear_credentials s"
    have "credentials_cleared t" by (simp add: t_def clear_credentials_def credentials_cleared_def)
    moreover have "keeps stays_cleared (act_block
       [status ''auth_success'' ''SSH authentication succeeded; opening terminal'',
        modify (\<lambda>s. s\<lparr>phase := Pty, keepaliveTimer := True, channelObjects := (channelObjects s)(0 := ch)\<rparr>),
        sendEncrypted env m])" (is "keeps _ ?rest")
      using o by (intro cleared.keeps_small cleared.keeps_phases cleared.keeps_send) (auto simp: same_defs dest: ordinary_builds)
    ultimately have "credentials_cleared (snd (?rest t))" using keepsD [of stays_cleared ?rest t] by (simp add: stays_cleared_def)
    moreover have "authSucceeded env payload s = ?rest t"
      using True o by (simp add: authSucceeded_def with_state_def act_bind_def modify_def t_def)
    ultimately show ?thesis by (simp add: stays_erased_def erased_in_time_def)
  next
    case False
    then have "snd (authSucceeded env payload s) = s" by (auto simp: authSucceeded_def with_state_def throw_def)
    then show ?thesis by (simp add: stays_erased_def)
  qed
  then show ?thesis by (simp add: keeps_def)
qed

lemma erased_step:
  assumes "enabled e s"
  shows "stays_erased s (after env e s)"
proof (cases "routine e")
  case True
  then show ?thesis by (rule erased.routine_event)
next
  case False
  have turn: "keeps stays_erased (read_turn env b)" for b
    by (intro erased.keeps_read_turn erased_auth.keeps_handleAuth_if keeps_erased_success
        late_action_erased cleared.keeps_handleChannel) (auto simp: authenticated_stage_def)
  have ready: "shellTimer s \<Longrightarrow> stays_erased s (after env ShellTimeout s)"
    using late_action_erased [OF cleared.keeps_markReady, of s] by (simp add: after_def authenticated_stage_def)
  show ?thesis using False
  proof (cases e)
    case (ReadTurn b)
    then show ?thesis using turn [of b] by (simp add: after_def keeps_def)
  qed (use assms ready erased.browser_event erased.host_timeout in auto)
qed

lemma erased_start: "erased_in_time (new_session cfg)"
  by (simp add: erased_in_time_def authenticated_stage_def new_session_def)

lemma erased_run:
  fixes env :: "'a session_env"
  assumes "session_run env (new_session cfg) es t"
  shows "erased_in_time t"
proof (rule run_invariant [where I = erased_in_time, OF assms erased_start])
  fix t :: "'a session" and e assume "erased_in_time t" "enabled e t"
  then show "erased_in_time (after env e t)" using erased_step [of e t env] by (simp add: stays_erased_def)
qed

text \<open>C3: In every run of a session, neither the password nor the private key is in memory any more once user
  authentication has succeeded and the terminal is being opened, while it is open, and after the session has
  been closed, whatever the server and the browser send and in whatever order timers fire.\<close>

theorem credentials_erased:
  assumes "session_run env (new_session cfg) es t" "phase t \<in> {Pty, Shell, PhaseReady, Closed}"
  shows "cfg_password (config t) = None \<and> cfg_privateKey (config t) = None"
  using erased_run [OF assms(1)] assms(2) by (auto simp: erased_defs)

theorem credentials_erased_witness:
  "cfg_password (config (new_session example_config :: unit session)) = Some ''pw''
   \<and> cfg_password (config (after example_env (CloseCall True) (new_session example_config))) = None"
proof -
  let ?s = "new_session example_config :: unit session"
  have "session_run example_env ?s [CloseCall True] (after example_env (CloseCall True) ?s)"
    by (rule play_run) simp
  moreover have "phase (after example_env (CloseCall True) ?s) = Closed"
    by (simp add: after_def close_result new_session_def)
  ultimately show ?thesis using credentials_erased [of example_env example_config]
    by (fastforce simp: new_session_def example_config_def)
qed

end
