(* ===== verification/Session_Trust.thy ===== *)
theory Session_Trust
  imports Session_Credentials
begin

text \<open>
  Nothing leaves the session under the negotiated keys before the server has proved possession of its host key in
  this very exchange and the key is the expected one or the one the user accepted.
\<close>

subsection \<open>Evidence\<close>

text \<open>The signed hash is that of an exchange with the client's own version, KEXINIT and one of its own public keys.\<close>

definition own_exchange :: "'k session_env \<Rightarrow> reply_context \<Rightarrow> bool" where
  "own_exchange env ctx \<longleftrightarrow>
     (\<exists>serverVersion serverKex n serverKey secret.
        ctx_hash ctx = computeExchangeHash (env_sha256 env) (localVersion new_SSHTransport) serverVersion
          (KEXInitBuilder_build (env_cookie env)) serverKex (ctx_hostKey ctx) (env_publicKey env n) serverKey secret)"

definition host_proved :: "'k session_env \<Rightarrow> reply_context \<Rightarrow> bool" where
  "host_proved env ctx \<longleftrightarrow> own_exchange env ctx \<and>
     (\<exists>algorithm. verifyHostSignature (env_subtle env) (env_importJwk env) algorithm (ctx_hostKey ctx) (ctx_signature ctx) (ctx_hash ctx)
        = Inr True)"

definition fingerprint_of :: "'k session_env \<Rightarrow> reply_context \<Rightarrow> string" where
  "fingerprint_of env ctx = host_fingerprint (env_sha256 env) (ctx_hostKey ctx)"

definition host_authenticated :: "'k session_env \<Rightarrow> SSHConnectionConfig \<Rightarrow> effect list \<Rightarrow> bool" where
  "host_authenticated env cfg es \<longleftrightarrow>
     (\<exists>ctx. host_proved env ctx \<and>
        (cfg_expectedFingerprint cfg = Some (fingerprint_of env ctx) \<or> HostDecision (fingerprint_of env ctx) True \<in> set es))"

lemma host_authenticated_mono: "host_authenticated env cfg es \<Longrightarrow> host_authenticated env cfg (es @ fs)"
  by (auto simp: host_authenticated_def)

definition guarded :: "'k session_env \<Rightarrow> SSHConnectionConfig \<Rightarrow> effect list \<Rightarrow> bool" where
  "guarded env cfg es \<longleftrightarrow>
     (\<forall>pre payload packet post. es = pre @ WireEncrypted payload packet # post \<longrightarrow> host_authenticated env cfg pre)
     \<and> (\<forall>payload packet. WirePlain payload packet \<in> set es \<longrightarrow> kex_payload env payload)"

fun harmless :: "'k session_env \<Rightarrow> effect \<Rightarrow> bool" where
  "harmless env (WirePlain payload _) = kex_payload env payload"
| "harmless env (WireEncrypted _ _) = False"
| "harmless env _ = True"

lemma quiet_harmless: "quiet e \<Longrightarrow> harmless env e"
  by (cases e) auto

lemma guarded_snoc:
  assumes "guarded env cfg es" "harmless env e \<or> (\<exists>p w. e = WireEncrypted p w) \<and> host_authenticated env cfg es"
  shows "guarded env cfg (es @ [e])"
  unfolding guarded_def
proof (intro conjI allI impI)
  fix pre p w post assume "es @ [e] = pre @ WireEncrypted p w # post"
  then show "host_authenticated env cfg pre"
    using assms by (cases post rule: rev_cases) (auto simp: guarded_def)
next
  fix p w assume "WirePlain p w \<in> set (es @ [e])"
  then show "kex_payload env p" using assms by (auto simp: guarded_def)
qed

lemma guarded_append: "guarded env cfg es \<Longrightarrow> list_all (harmless env) fs \<Longrightarrow> guarded env cfg (es @ fs)"
  by (induction fs rule: rev_induct) (auto simp: guarded_snoc append_assoc [symmetric] simp del: append_assoc)

subsection \<open>The invariant\<close>

fun reader_trusted :: "'k session_env \<Rightarrow> reader \<Rightarrow> string option \<Rightarrow> effect list \<Rightarrow> bool" where
  "reader_trusted env (VerifyingHost ctx) pending es = own_exchange env ctx"
| "reader_trusted env (ConfirmingHost ctx) pending es =
     (host_proved env ctx \<and> (pending = None \<or> pending = Some (fingerprint_of env ctx)))"
| "reader_trusted env (HostAnswered ctx accepted) pending es =
     (host_proved env ctx \<and> (accepted \<longrightarrow> HostDecision (fingerprint_of env ctx) True \<in> set es))"
| "reader_trusted env _ pending es = True"

lemma reader_trusted_mono: "reader_trusted env r p es \<Longrightarrow> reader_trusted env r p (es @ fs)"
  by (cases r) auto

text \<open>With \<open>a\<close>, the host is already authenticated.\<close>

definition trust_invariant :: "'k session_env \<Rightarrow> SSHConnectionConfig \<Rightarrow> bool \<Rightarrow> 'k session \<Rightarrow> bool" where
  "trust_invariant env cfg a s \<longleftrightarrow>
     (localKex s = None \<or> localKex s = Some (KEXInitBuilder_build (env_cookie env)))
     \<and> localVersion (transport s) = localVersion new_SSHTransport
     \<and> cfg_expectedFingerprint (config s) = cfg_expectedFingerprint cfg
     \<and> (clientPublic s = None \<or> (\<exists>n. clientPublic s = Some (env_publicKey env n)))
     \<and> reader_trusted env (readTask s) (pendingHostConfirmation s) (effects s)
     \<and> (a \<or> encryptor s \<noteq> None \<longrightarrow> host_authenticated env cfg (effects s))
     \<and> guarded env cfg (effects s)"

definition keeps_trust :: "'k session_env \<Rightarrow> SSHConnectionConfig \<Rightarrow> bool \<Rightarrow> 'k session \<Rightarrow> 'k session \<Rightarrow> bool" where
  "keeps_trust env cfg a s t \<longleftrightarrow> (trust_invariant env cfg a s \<longrightarrow> trust_invariant env cfg a t)"

text \<open>A step that leaves the key exchange alone and appends harmless effects keeps the invariant.\<close>

lemma keeps_trust_same:
  assumes "same_kex s t" "cfg_expectedFingerprint (config t) = cfg_expectedFingerprint (config s)"
    and "effects t = effects s @ fs" "list_all (harmless env) fs"
  shows "keeps_trust env cfg a s t"
  using assms guarded_append [of env cfg "effects s" fs]
  by (auto simp: keeps_trust_def trust_invariant_def same_kex_def host_authenticated_mono reader_trusted_mono)

lemma send_built_trust: "keeps_trust env cfg a s (snd (send_built env p mk s))"
proof (rule send_built_cases [of env p mk s])
  assume "snd (send_built env p mk s) = s"
  then show ?thesis by (simp add: keeps_trust_def)
next
  fix c c' assume "encryptor s = Some c" "snd (send_built env p mk s) = count_packet (s\<lparr>encryptor := Some c'\<rparr>)"
  then show ?thesis by (auto simp: keeps_trust_def trust_invariant_def count_packet_def)
next
  fix c c' w
  let ?t = "(count_packet (s\<lparr>encryptor := Some c'\<rparr>))\<lparr>effects := effects s @ [WireEncrypted p w]\<rparr>"
  assume c: "encryptor s = Some c" "snd (send_built env p mk s) = ?t"
  have "keeps_trust env cfg a s ?t"
    unfolding keeps_trust_def
  proof
    assume I: "trust_invariant env cfg a s"
    then have auth: "host_authenticated env cfg (effects s)" using c(1) by (simp add: trust_invariant_def)
    then have "guarded env cfg (effects s @ [WireEncrypted p w])" using I by (intro guarded_snoc) (auto simp: trust_invariant_def)
    then show "trust_invariant env cfg a ?t"
      using I auth by (simp add: trust_invariant_def count_packet_def host_authenticated_mono reader_trusted_mono)
  qed
  then show ?thesis using c(2) by simp
qed

lemma close_trust: "keeps_trust env cfg a s (snd (close b s))"
proof (cases "phase s = Closed")
  case True
  then show ?thesis by (simp add: close_closed keeps_trust_def)
next
  case False
  obtain calls where calls: "list_all quiet calls" "effects (snd (close b s)) = effects s @ calls @ [SocketClosed b]"
    using close_result(1) [OF False] by blast
  have h: "list_all (harmless env) (calls @ [SocketClosed b])"
    using calls(1) by (auto simp: list_all_iff quiet_harmless)
  show ?thesis unfolding keeps_trust_def
  proof
    assume I: "trust_invariant env cfg a s"
    then have "guarded env cfg (effects s @ calls @ [SocketClosed b])"
      using guarded_append [OF _ h] by (simp add: trust_invariant_def)
    moreover have "reader_trusted env (readTask (snd (close b s))) None (effects s @ calls @ [SocketClosed b])"
      using I by (cases "readTask s") (auto simp: close_result [OF False] trust_invariant_def answer_host_def)
    ultimately show "trust_invariant env cfg a (snd (close b s))"
      using I by (auto simp: trust_invariant_def close_result [OF False] calls(2) host_authenticated_mono)
  qed
qed

interpretation trust_preorder: preorder_on_states "keeps_trust env cfg a" for env :: "'k session_env" and cfg a
  by unfold_locales (auto simp: keeps_trust_def)

lemma sendPlain_trust: "kex_payload env p \<Longrightarrow> keeps_trust env cfg a s (snd (sendPlain env p s))"
proof -
  assume p: "kex_payload env p"
  obtain es where t: "snd (sendPlain env p s) = (count_packet s)\<lparr>effects := effects s @ es\<rparr>"
      "es = [] \<or> (\<exists>w. es = [WirePlain p w])"
    using sendPlain_result by blast
  have "list_all (harmless env) es" using t(2) p by auto
  then show ?thesis unfolding t(1)
    by (intro keeps_trust_same [where fs = es]) (simp_all add: same_kex_def count_packet_def)
qed

interpretation trust: login_free "keeps_trust env cfg a" env for env :: "'k session_env" and cfg a
proof unfold_locales
  fix s t :: "'k session" and e and p and line n ph r b
  note same = keeps_trust_same [where fs = "[]"]
  have send: "keeps (keeps_trust env cfg a) (send_built env p mk)" for p and mk :: "'k session \<Rightarrow> CipherSpec \<Rightarrow> 'k cipher \<Rightarrow> 'k cipher \<times> bytes"
    by (simp add: keeps_def send_built_trust)
  show "keeps_trust env cfg a s t" if "same_core s t" using that by (intro same) (simp_all add: same_defs)
  show "keeps_trust env cfg a s (s\<lparr>effects := effects s @ [e]\<rparr>)" if "quiet e"
    using that by (intro keeps_trust_same [where fs = "[e]"]) (simp_all add: same_defs quiet_harmless)
  show "keeps (keeps_trust env cfg a) (send_built env p mk)" for p and mk :: "'k session \<Rightarrow> CipherSpec \<Rightarrow> 'k cipher \<Rightarrow> 'k cipher \<times> bytes"
    by (rule send)
  show "keeps (keeps_trust env cfg a) (send_built env p mk)" for p and mk :: "'k session \<Rightarrow> CipherSpec \<Rightarrow> 'k cipher \<Rightarrow> 'k cipher \<times> bytes"
    by (rule send)
  show "keeps (keeps_trust env cfg a) (sendPlain env p)" if "kex_payload env p"
    using that by (simp add: keeps_def sendPlain_trust)
  show "keeps (keeps_trust env cfg a) (flushInput env)" "keeps (keeps_trust env cfg a) (flush_resumed env)"
    by (rule trust_preorder.keeps_flush; (rule send)?; rule same; simp add: same_auth_def same_effects_def)+
  show "keeps (keeps_trust env cfg a) (close b :: ('k, unit) act)" by (simp add: keeps_def close_trust)
  show "keeps_trust env cfg a s (s\<lparr>readTask := r\<rparr>)" if "r \<in> {Idle, Pumping, EnablingInbound} \<union> range Handling"
    using that by (auto simp: keeps_trust_def trust_invariant_def)
  show "keeps_trust env cfg a s (s\<lparr>localKex := Some (KEXInitBuilder_build (env_cookie env))\<rparr>)"
    by (simp add: keeps_trust_def trust_invariant_def)
  show "keeps_trust env cfg a s (s\<lparr>transport := setRemoteVersion (transport s) line\<rparr>)"
    by (simp add: keeps_trust_def trust_invariant_def setRemoteVersion_def)
  show "keeps_trust env cfg a s (s\<lparr>clientPublic := Some (env_publicKey env n)\<rparr>)"
    by (auto simp: keeps_trust_def trust_invariant_def)
  show "keeps_trust env cfg a s (s\<lparr>phase := ph\<rparr>)" by (rule same) (simp_all add: same_defs)
  show "keeps_trust env cfg a s t" if "same_kex s t" "same_auth s t" "same_effects s t"
    using that by (intro same) (simp_all add: same_defs)
  show "keeps_trust env cfg a s t" if "same_kex s t" "same_effects s t" "weaker_config (config s) (config t)"
    using that by (intro same) (simp_all add: same_defs weaker_config_def)
qed

interpretation trust_input: input_free "keeps_trust env cfg a" env for env :: "'k session_env" and cfg a
  by unfold_locales (rule keeps_trust_same [where fs = "[]"], simp_all add: same_defs)

subsection \<open>The steps that concern the host key\<close>

lemma received_reply_sound:
  assumes "received_reply env s payload = Inr ctx"
  shows "localKex s \<noteq> None" "clientPublic s \<noteq> None"
    and "\<exists>serverKey secret. ctx_hash ctx = exchange_hash env s (ctx_hostKey ctx) serverKey secret"
proof -
  show "localKex s \<noteq> None" "clientPublic s \<noteq> None"
    using assms by (auto simp: received_reply_def split: option.splits if_splits)
  obtain reply secret where "checked_reply env s reply secret = Inr ctx"
    using assms by (auto simp: received_reply_def and_then_Inr_iff split: option.splits if_splits)
  then show "\<exists>serverKey secret. ctx_hash ctx = exchange_hash env s (ctx_hostKey ctx) serverKey secret"
    by (auto simp: checked_reply_def Let_def split: if_splits) blast
qed

lemma handleEcdhReply_trust: "keeps (keeps_trust env cfg a) (handleEcdhReply env payload)"
proof -
  have "keeps_trust env cfg a s (snd (handleEcdhReply env payload s))" for s
  proof (cases "received_reply env s payload")
    case (Inl e)
    then show ?thesis by (simp add: handleEcdhReply_def with_state_def act_bind_def attempt_def keeps_trust_def)
  next
    case (Inr ctx)
    have t: "snd (handleEcdhReply env payload s) = s\<lparr>readTask := VerifyingHost ctx\<rparr>"
      using Inr by (simp add: handleEcdhReply_def with_state_def act_bind_def attempt_def modify_def)
    have "own_exchange env ctx" if "trust_invariant env cfg a s"
      using received_reply_sound [OF Inr] that unfolding own_exchange_def trust_invariant_def exchange_hash_def by fastforce
    then show ?thesis unfolding t by (auto simp: keeps_trust_def trust_invariant_def)
  qed
  then show ?thesis by (simp add: keeps_def)
qed

lemma handleKex_trust: "keeps (keeps_trust env cfg a) (handleKex env type payload)"
  unfolding handleKex_def
  by (intro trust.keeps_reader trust.keeps_small trust.keeps_frame trust.keeps_handleKexInit handleEcdhReply_trust
      trust.keeps_enableInbound) (simp_all add: same_defs)

text \<open>Once the host is authenticated, outbound encryption can be switched on.\<close>

lemma encryptor_trust: "keeps (keeps_trust env cfg True) (modify (\<lambda>s. s\<lparr>encryptor := Some c\<rparr>))"
  by (simp add: keeps_def modify_def keeps_trust_def trust_invariant_def)

lemma finishKex_trust: "keeps (keeps_trust env cfg True) (finishKex env ctx)"
proof -
  have "keeps (keeps_trust env cfg True) (enableOutboundEncryption env)"
    unfolding enableOutboundEncryption_def
    by (intro encryptor_trust trust.keeps_small trust.keeps_frame trust.keeps_make_cipher) (simp add: same_defs)
  then show ?thesis unfolding finishKex_def
    by (intro trust.keeps_small trust.keeps_frame trust.plain) (simp_all add: same_defs kex_payload_def)
qed

lemma confirmHostKey_trust:
  assumes "host_proved env ctx"
  shows "keeps (keeps_trust env cfg a) (confirmHostKey ctx (fingerprint_of env ctx) expected)"
proof -
  have "keeps (keeps_trust env cfg a)
      (modify (\<lambda>s. s\<lparr>pendingHostConfirmation := Some (fingerprint_of env ctx), readTask := ConfirmingHost ctx\<rparr>))"
    using assms by (auto simp: keeps_def modify_def keeps_trust_def trust_invariant_def)
  then show ?thesis unfolding confirmHostKey_def by (intro trust.keeps_phase trust.keeps_small) simp_all
qed

text \<open>An action that keeps the invariant of authenticated sessions keeps the invariant, from a state that is.\<close>

lemma authenticated_trust:
  assumes "keeps (keeps_trust env cfg True) m" "trust_invariant env cfg False s \<Longrightarrow> host_authenticated env cfg (effects s)"
  shows "keeps_trust env cfg False s (snd (m s))"
  using keepsD [OF assms(1), of s] assms(2) by (auto simp: keeps_trust_def trust_invariant_def)

lemma verifyHost_trust:
  assumes "readTask s = VerifyingHost ctx"
  shows "keeps_trust env cfg False s (snd (verifyHost env ctx s))"
proof (cases "verifyHostSignature (env_subtle env) (env_importJwk env) (hostKeyAlgorithm s)
                 (ctx_hostKey ctx) (ctx_signature ctx) (ctx_hash ctx) = Inr True \<and> trust_invariant env cfg False s")
  case False
  have "trust_invariant env cfg False s \<Longrightarrow> snd (verifyHost env ctx s) = s"
    using False by (auto simp: verifyHost_def with_state_def act_bind_def attempt_def throw_def Let_def split: sum.split)
  then show ?thesis by (simp add: keeps_trust_def)
next
  case True
  let ?fp = "fingerprint_of env ctx" and ?e = "cfg_expectedFingerprint (config s)"
  have proved: "host_proved env ctx" using True assms by (auto simp: host_proved_def trust_invariant_def)
  show ?thesis
  proof (cases "classifyHostKey ?e ?fp")
    case Trusted
    then have "?e = Some ?fp" by (auto simp: classifyHostKey_def split: option.splits if_splits)
    then have auth: "host_authenticated env cfg (effects s)"
      using True proved by (auto simp: host_authenticated_def trust_invariant_def)
    have "snd (verifyHost env ctx s) = snd (act_block
        [sendJson (HostKey ?fp (ctx_keyType ctx) True None), modify (\<lambda>s. s\<lparr>readTask := Pumping\<rparr>), finishKex env ctx] s)"
      using True Trusted by (simp add: verifyHost_def with_state_def act_bind_def attempt_def fingerprint_of_def Let_def del: act_block.simps)
    moreover have "keeps (keeps_trust env cfg True) (act_block
        [sendJson (HostKey ?fp (ctx_keyType ctx) True None), modify (\<lambda>s. s\<lparr>readTask := Pumping\<rparr>), finishKex env ctx])"
      by (intro trust.keeps_reader trust.keeps_small finishKex_trust) simp
    ultimately show ?thesis using authenticated_trust auth by metis
  next
    case FirstSeen
    then have "snd (verifyHost env ctx s) = snd (confirmHostKey ctx ?fp None s)"
      using True by (simp add: verifyHost_def with_state_def act_bind_def attempt_def fingerprint_of_def Let_def del: act_block.simps)
    then show ?thesis using keepsD [OF confirmHostKey_trust [OF proved]] by metis
  next
    case Changed
    then have "snd (verifyHost env ctx s) = snd (confirmHostKey ctx ?fp ?e s)"
      using True by (simp add: verifyHost_def with_state_def act_bind_def attempt_def fingerprint_of_def Let_def del: act_block.simps)
    then show ?thesis using keepsD [OF confirmHostKey_trust [OF proved]] by metis
  qed
qed

lemma hostAnswered_trust:
  assumes "readTask s = HostAnswered ctx accepted"
  shows "keeps_trust env cfg False s (snd (hostAnswered env ctx accepted s))"
proof (cases accepted)
  case True
  have "keeps (keeps_trust env cfg True) (hostAnswered env ctx accepted)"
    unfolding hostAnswered_def by (intro trust.keeps_reader trust.keeps_small finishKex_trust) simp
  then show ?thesis
    by (rule authenticated_trust) (use assms True in \<open>auto simp: trust_invariant_def host_authenticated_def\<close>)
next
  case False
  then show ?thesis by (simp add: hostAnswered_def throw_def keeps_trust_def)
qed

text \<open>The answer of the user is recorded before the reading task sees it.\<close>

lemma answer_trust:
  assumes "accepted \<Longrightarrow> \<exists>fp. pendingHostConfirmation s = Some fp \<and> HostDecision fp True \<in> set (effects s)"
  shows "keeps_trust env cfg a s (answer_host accepted s)"
proof (cases "\<exists>ctx. readTask s = ConfirmingHost ctx")
  case True
  then obtain ctx where "readTask s = ConfirmingHost ctx" by blast
  then show ?thesis using assms by (auto simp: keeps_trust_def trust_invariant_def answer_host_def)
next
  case False
  then have "answer_host accepted s = s\<lparr>pendingHostConfirmation := None\<rparr>"
    by (cases "readTask s") (simp_all add: answer_host_def)
  then show ?thesis using False by (cases "readTask s") (auto simp: keeps_trust_def trust_invariant_def)
qed

lemma decision_trust:
  assumes "pendingHostConfirmation s = Some fp"
  shows "keeps_trust env cfg a s (snd (act_block [emit (HostDecision fp accept), modify (answer_host accept)] s))"
proof -
  let ?s = "s\<lparr>effects := effects s @ [HostDecision fp accept]\<rparr>"
  have "keeps_trust env cfg a s ?s"
    by (rule keeps_trust_same [where fs = "[HostDecision fp accept]"]) (simp_all add: same_defs)
  moreover have "keeps_trust env cfg a ?s (answer_host accept ?s)" by (rule answer_trust) (simp add: assms)
  ultimately show ?thesis by (simp add: act_bind_def emit_def modify_def return_def keeps_trust_def)
qed

lemma trust_step: "keeps_trust env cfg False s (after env e s)"
proof (cases "routine e")
  case True
  then show ?thesis by (rule trust.routine_event)
next
  case False
  show ?thesis
  proof (cases e)
    case (ReadTurn feedThrows)
    have "keeps (keeps_trust env cfg False) (handlePacket env feedThrows payload)" for payload
      by (intro trust.keeps_handlePacket handleKex_trust trust.keeps_handleAuth keepsD trust.keeps_handleChannel)
    from trust.turn_at [OF this verifyHost_trust hostAnswered_trust]
    show ?thesis by (simp add: ReadTurn after_def)
  next
    case (BrowserMessage m)
    have "keeps (keeps_trust env cfg False) (handleClientMessage env m)"
      by (intro trust.keeps_client_message trust_input.keeps_queueInput decision_trust)
    from trust.keeps_discard [OF this] show ?thesis by (simp add: BrowserMessage after_def keeps_def)
  next
    case HostTimeout
    then show ?thesis using answer_trust [of False] by (simp add: after_def modify_def)
  next
    case ShellTimeout
    then show ?thesis using trust.shell_timeout by simp
  qed (use False in auto)
qed

lemma trust_start: "trust_invariant env cfg False (new_session cfg)"
  by (simp add: trust_invariant_def new_session_def guarded_def)

lemma trust_run:
  fixes env :: "'k session_env"
  assumes "session_run env (new_session cfg) es t"
  shows "trust_invariant env cfg False t"
proof (rule run_invariant [where I = "trust_invariant env cfg False", OF assms trust_start])
  fix t :: "'k session" and e
  assume "trust_invariant env cfg False t"
  then show "trust_invariant env cfg False (after env e t)" using trust_step [of env cfg t e] by (simp add: keeps_trust_def)
qed

text \<open>C1: In every run of a session, whatever the server, the browser and the timers do, every packet sent under the
  negotiated keys (so every credential and all terminal input) comes after the server has proved possession of a
  host key by a signature on the hash of an exchange that includes this client's version, KEXINIT and one of its
  own ephemeral public keys, and after that key was found to be the expected one or was accepted by the user; and
  nothing but the three key exchange messages is ever sent in the clear.\<close>

theorem host_trusted_before_secrets:
  assumes "session_run env (new_session cfg) es t"
  shows "guarded env cfg (effects t)"
  using trust_run [OF assms] by (simp add: trust_invariant_def)

text \<open>A run up to the first packet.\<close>

definition example_identification :: bytes where
  "example_identification = [0x53, 0x53, 0x48, 0x2D, 0x32, 0x2E, 0x30, 0x2D, 0x78, 0x0D, 0x0A]"

lemma example_scan: "scan_version example_identification = Identified ''SSH-2.0-x'' []"
  by code_simp

lemma example_merged: "[] @ example_identification = example_identification" "\<not> MAX_VERSION_BYTES < length example_identification"
  "example_identification \<noteq> []"
  by (simp_all add: example_identification_def MAX_VERSION_BYTES_def)

lemmas run_steps = after_def start_def with_state_def act_bind_def modify_def emit_def return_def status_def sendJson_def
  act_when_def reading_def act_catch_def consume_def socket_write_def startKex_def sendPlain_def count_packet_def Let_def

theorem host_trusted_before_secrets_witness:
  "\<exists>t packet. session_run example_env (new_session example_config) [Start, ServerData example_identification] t
     \<and> WirePlain (KEXInitBuilder_build (env_cookie example_env)) packet \<in> set (effects t)
     \<and> guarded example_env example_config (effects t)"
proof -
  let ?s = "new_session example_config :: unit session"
  let ?t = "after example_env (ServerData example_identification) (after example_env Start ?s)"
  have "play example_env ?s [Start, ServerData example_identification] = Some ?t"
    by (simp add: run_steps new_session_def example_merged)
  then have run: "session_run example_env ?s [Start, ServerData example_identification] ?t" by (rule play_run)
  have "\<exists>packet. WirePlain (KEXInitBuilder_build (env_cookie example_env)) packet \<in> set (effects ?t)"
    by (simp add: run_steps new_session_def example_merged example_scan)
  with run show ?thesis using host_trusted_before_secrets [OF run] by blast
qed

end
