(* ===== verification/Session_Input.thy ===== *)
theory Session_Input
  imports Session_Credentials
begin

text \<open>
  The terminal input of the browser reaches the server's shell complete and in order: what was sent on the shell
  channel followed by what is still to be sent is exactly the accepted input, and the queue is bounded. The bytes of a
  chunk whose sending is awaited stay in the queue, and count, until the flush goes on.
\<close>

subsection \<open>The abstract view\<close>

text \<open>The terminal input inside the packets that were sent: the data of the messages \<open>SSH_MSG_CHANNEL_DATA\<close>.\<close>

fun input_data :: "effect \<Rightarrow> bytes" where
  "input_data (WireEncrypted payload _) = (if payload \<noteq> [] \<and> hd payload = MSG_DATA then drop 9 payload else [])"
| "input_data _ = []"

definition sent_input :: "effect list \<Rightarrow> bytes" where
  "sent_input es = concat (map input_data es)"

definition pending_input :: "'k session \<Rightarrow> bytes" where
  "pending_input s = drop (queueHeadOffset s) (concat (inputQueue s))"

text \<open>How many of the queued bytes have been sent while the flush waits, and what is still to be sent.\<close>

definition in_flight :: "'k session \<Rightarrow> nat" where
  "in_flight s = (case flushTask s of Some (_, n, True) \<Rightarrow> n | _ \<Rightarrow> 0)"

definition unsent_input :: "'k session \<Rightarrow> bytes" where
  "unsent_input s = drop (in_flight s) (pending_input s)"

text \<open>The input that passed through the session.\<close>

definition input_view :: "'k session \<Rightarrow> bytes" where
  "input_view s = sent_input (effects s) @ unsent_input s"

definition ended :: "effect list \<Rightarrow> bool" where
  "ended es \<longleftrightarrow> (\<exists>b. SocketClosed b \<in> set es)"

text \<open>The queue holds no empty piece, the offset points into its first piece and the byte count is right; the flag is
  set exactly while a flush waits, for a chunk of the first piece.\<close>

fun offset_ok :: "bytes list \<Rightarrow> nat \<Rightarrow> bool" where
  "offset_ok [] k = (k = 0)"
| "offset_ok (head # q) k = (k < length head)"

fun chunk_ok :: "(nat \<times> nat \<times> bool) option \<Rightarrow> bytes list \<Rightarrow> nat \<Rightarrow> bool" where
  "chunk_ok (Some (l, n, _)) (head # q) k = (l = length head \<and> 0 < n \<and> k + n \<le> length head)"
| "chunk_ok (Some _) [] k = False"
| "chunk_ok None q k = True"

definition queue_core :: "'k session \<Rightarrow> bool" where
  "queue_core s \<longleftrightarrow> [] \<notin> set (inputQueue s) \<and> offset_ok (inputQueue s) (queueHeadOffset s)
     \<and> queuedBytes s = int (length (pending_input s)) \<and> length (pending_input s) \<le> MAX_QUEUED_INPUT"

definition awaits_chunk :: "'k session \<Rightarrow> bool" where
  "awaits_chunk s = chunk_ok (flushTask s) (inputQueue s) (queueHeadOffset s)"

lemma awaits_chunkE:
  assumes "awaits_chunk s" "flushTask s = Some (l, n, sent)"
  obtains head q where "inputQueue s = head # q" "l = length head" "0 < n" "queueHeadOffset s + n \<le> length head"
  using assms by (cases "inputQueue s") (auto simp: awaits_chunk_def)

definition queue_ok :: "'k session \<Rightarrow> bool" where
  "queue_ok s \<longleftrightarrow> queue_core s \<and> awaits_chunk s \<and> (flushingInput s \<longleftrightarrow> flushTask s \<noteq> None)"

definition keeps_input :: "'k session \<Rightarrow> 'k session \<Rightarrow> bool" where
  "keeps_input s t \<longleftrightarrow> (ended (effects s) \<longrightarrow> ended (effects t))
     \<and> (queue_ok s \<and> \<not> ended (effects t) \<longrightarrow> queue_ok t \<and> input_view t = input_view s)"

lemma sent_input_append [simp]: "sent_input (es @ fs) = sent_input es @ sent_input fs"
  by (simp add: sent_input_def)

lemma sent_input_simps [simp]: "sent_input [] = []" "sent_input (e # es) = input_data e @ sent_input es"
  by (simp_all add: sent_input_def)

lemma ended_append [simp]: "ended (es @ fs) \<longleftrightarrow> ended es \<or> ended fs"
  by (auto simp: ended_def)

lemma keeps_input_same:
  assumes "same_input s t" "effects t = effects s @ fs" "sent_input fs = []"
  shows "keeps_input s t"
  using assms
  by (simp add: keeps_input_def same_input_def queue_ok_def queue_core_def awaits_chunk_def pending_input_def
      unsent_input_def in_flight_def input_view_def)

lemma quiet_data: "quiet e \<Longrightarrow> input_data e = []"
  by (cases e) auto

lemma send_built_input:
  assumes "p \<noteq> []" "hd p \<noteq> MSG_DATA"
  shows "keeps_input s (snd (send_built env p mk s))"
proof (rule send_built_cases [of env p mk s])
  assume "snd (send_built env p mk s) = s"
  then show ?thesis by (simp add: keeps_input_def)
next
  fix c c' assume "snd (send_built env p mk s) = count_packet (s\<lparr>encryptor := Some c'\<rparr>)"
  then show ?thesis by (intro keeps_input_same [where fs = "[]"]) (simp_all add: same_input_def count_packet_def)
next
  fix c c' w
  assume t: "snd (send_built env p mk s) = (count_packet (s\<lparr>encryptor := Some c'\<rparr>))\<lparr>effects := effects s @ [WireEncrypted p w]\<rparr>"
  show ?thesis unfolding t
    by (rule keeps_input_same [where fs = "[WireEncrypted p w]"]) (simp_all add: assms same_input_def count_packet_def)
qed

lemma close_input: "keeps_input s (snd (close b s))"
proof (cases "phase s = Closed")
  case True
  then show ?thesis by (simp add: close_closed keeps_input_def)
next
  case False
  then have "ended (effects (snd (close b s)))" using close_result(1) [OF False, of b] by (auto simp: ended_def)
  then show ?thesis by (simp add: keeps_input_def)
qed

interpretation input_preorder: preorder_on_states keeps_input
  by unfold_locales (auto simp: keeps_input_def)

subsection \<open>Flushing\<close>

lemma pending_head: "inputQueue s = head # q \<Longrightarrow> queueHeadOffset s \<le> length head
    \<Longrightarrow> pending_input s = drop (queueHeadOffset s) head @ concat q"
  by (simp add: pending_input_def)

lemma advance_effects [simp]:
  "effects (advance_queue l n u) = effects u" "flushTask (advance_queue l n u) = flushTask u"
  "flushingInput (advance_queue l n u) = flushingInput u" "phase (advance_queue l n u) = phase u"
  by (simp_all add: advance_queue_def Let_def)

text \<open>Taking the first \<open>n\<close> bytes off the queue.\<close>

lemma advance_core:
  assumes core: "queue_core s" and q: "inputQueue s = head # q" and n: "queueHeadOffset s + n \<le> length head"
  shows "queue_core (advance_queue (length head) n s)" "pending_input (advance_queue (length head) n s) = drop n (pending_input s)"
    "n \<le> length (pending_input s)"
proof -
  let ?o = "queueHeadOffset s" and ?a = "advance_queue (length head) n s"
  show le: "n \<le> length (pending_input s)" using q n by (simp add: pending_input_def)
  show pend: "pending_input ?a = drop n (pending_input s)"
    using q n by (cases "?o + n = length head") (simp_all add: pending_input_def advance_queue_def Let_def add.commute)
  have bytes: "queuedBytes ?a = queuedBytes s - int n" by (simp add: advance_queue_def Let_def)
  have shape: "[] \<notin> set (inputQueue ?a)"
    "offset_ok (inputQueue ?a) (queueHeadOffset ?a)"
    using core q n by (cases q; auto simp: queue_core_def advance_queue_def Let_def)+
  show "queue_core ?a" unfolding queue_core_def using shape core le by (auto simp: pend bytes queue_core_def)
qed

text \<open>A turn of the loop: nothing is lost or sent twice, whatever becomes of the send.\<close>

definition resting :: "'k session \<Rightarrow> bool" where
  "resting s \<longleftrightarrow> queue_core s \<and> flushingInput s \<and> flushTask s = None"

lemma resting_stops: "resting s \<Longrightarrow> queue_ok (s\<lparr>flushingInput := False\<rparr>) \<and> input_view (s\<lparr>flushingInput := False\<rparr>) = input_view s"
  by (simp add: resting_def queue_ok_def queue_core_def awaits_chunk_def pending_input_def unsent_input_def in_flight_def input_view_def)

lemma store_channel_input:
  "inputQueue (store_channel i ch s) = inputQueue s" "queueHeadOffset (store_channel i ch s) = queueHeadOffset s"
  "effects (store_channel i ch s) = effects s" "phase (store_channel i ch s) = phase s"
  "resting (store_channel i ch s) = resting s" "input_view (store_channel i ch s) = input_view s"
  "pending_input (store_channel i ch s) = pending_input s"
  by (simp_all add: store_channel_def resting_def queue_core_def pending_input_def unsent_input_def in_flight_def input_view_def)

lemma suspended_view:
  assumes rest: "resting s" and q: "inputQueue s = head # q" and n: "0 < n" "queueHeadOffset s + n \<le> length head"
    and u: "same_input s u" "effects u = effects s @ es"
    and es: "sent_input es = (if sent then take n (drop (queueHeadOffset s) head) else [])"
  defines "t \<equiv> u\<lparr>flushTask := Some (length head, n, sent)\<rparr>"
  shows "queue_ok t \<and> input_view t = input_view s \<and> pending_input t = pending_input s"
proof -
  have p: "pending_input t = pending_input s" using u(1) by (simp add: t_def pending_input_def same_input_def)
  have "queue_ok t" using rest u(1) q n p
    by (simp add: queue_ok_def queue_core_def awaits_chunk_def resting_def t_def same_input_def)
  moreover have "input_view t = input_view s"
  proof (cases sent)
    case True
    have "pending_input s = take n (drop (queueHeadOffset s) head) @ drop n (pending_input s)"
      using q n append_take_drop_id [of n "drop (queueHeadOffset s) head"] by (simp add: pending_input_def add.commute)
    then show ?thesis using True es u(2) rest p
      by (simp add: input_view_def unsent_input_def in_flight_def t_def resting_def sent_input_def)
  next
    case False
    then show ?thesis using es u(2) rest p by (simp add: input_view_def unsent_input_def in_flight_def t_def resting_def)
  qed
  ultimately show ?thesis using p by blast
qed

lemma flush_turn_view:
  assumes "resting s"
  shows "queue_ok (snd (flush_turn env s)) \<and> input_view (snd (flush_turn env s)) = input_view s
    \<and> pending_input (snd (flush_turn env s)) = pending_input s"
proof (cases "inputQueue s = [] \<or> phase s \<noteq> PhaseReady")
  case True
  then show ?thesis using resting_stops [OF assms] by (simp add: flush_turn_idle pending_input_def)
next
  case False
  then obtain head q where q: "inputQueue s = head # q" and ready: "phase s = PhaseReady" by (cases "inputQueue s") auto
  show ?thesis
  proof (rule flush_turn_outcome [OF q ready, of env])
    fix ch assume "flush_turn env s = (Inr (), (store_channel 0 ch s)\<lparr>flushingInput := False\<rparr>)"
    then show ?thesis using resting_stops [of "store_channel 0 ch s"] assms store_channel_input(7) [of 0 ch s]
      by (simp add: store_channel_input pending_input_def)
  next
    fix ch n p and mk :: "'a session \<Rightarrow> CipherSpec \<Rightarrow> 'a cipher \<Rightarrow> 'a cipher \<times> bytes"
    assume c: "sends_chunk env s head ch n p mk"
    let ?s = "store_channel 0 ch s"
    have rest: "resting ?s" and q': "inputQueue ?s = head # q" using assms q by (simp_all add: store_channel_input)
    have n: "0 < n" "queueHeadOffset ?s + n \<le> length head" and pay: "p \<noteq> []" "hd p = MSG_DATA"
      "drop 9 p = take n (drop (queueHeadOffset s) head)" using c by (simp_all add: sends_chunk_def store_channel_input)
    obtain r u where b: "send_built env p mk ?s = (r, u)" by fastforce
    have t: "snd (flush_turn env s) = u\<lparr>flushTask := Some (length head, n, r = Inr ())\<rparr>" using c b by (simp add: sends_chunk_def)
    have "\<exists>es. same_input ?s u \<and> effects u = effects ?s @ es
      \<and> sent_input es = (if r = Inr () then take n (drop (queueHeadOffset ?s) head) else [])"
    proof (rule send_built_cases [of env p mk ?s])
      assume "snd (send_built env p mk ?s) = ?s" "fst (send_built env p mk ?s) \<noteq> Inr ()"
      then show ?thesis using b by (intro exI [of _ "[]"]) (simp add: same_input_def)
    next
      fix c c' assume "snd (send_built env p mk ?s) = count_packet (?s\<lparr>encryptor := Some c'\<rparr>)" "fst (send_built env p mk ?s) \<noteq> Inr ()"
      then show ?thesis using b by (intro exI [of _ "[]"]) (simp add: same_input_def count_packet_def)
    next
      fix c c' w
      assume "snd (send_built env p mk ?s) = (count_packet (?s\<lparr>encryptor := Some c'\<rparr>))\<lparr>effects := effects ?s @ [WireEncrypted p w]\<rparr>"
        "fst (send_built env p mk ?s) = Inr ()"
      then show ?thesis using b pay by (intro exI [of _ "[WireEncrypted p w]"]) (simp add: same_input_def count_packet_def store_channel_input)
    qed
    then obtain es where es: "same_input ?s u" "effects u = effects ?s @ es"
      "sent_input es = (if r = Inr () then take n (drop (queueHeadOffset ?s) head) else [])" by blast
    show ?thesis using suspended_view [OF rest q' n es] unfolding t by (simp add: store_channel_input)
  qed
qed

text \<open>Whatever the state, a flush only adds effects.\<close>

definition effects_grow :: "'k session \<Rightarrow> 'k session \<Rightarrow> bool" where
  "effects_grow s t \<longleftrightarrow> (\<exists>es. effects t = effects s @ es)"

interpretation effects_preorder: preorder_on_states effects_grow
  by unfold_locales (auto simp: effects_grow_def)

lemma send_built_grows: "keeps effects_grow (send_built env p mk)"
proof -
  have "effects_grow s (snd (send_built env p mk s))" for s
    by (rule send_built_cases [of env p mk s]) (auto simp: effects_grow_def count_packet_def)
  then show ?thesis by (simp add: keeps_def)
qed

lemma flush_grows: "keeps effects_grow (flushInput env)" "keeps effects_grow (flush_resumed env)"
  by (rule effects_preorder.keeps_flush; simp add: effects_grow_def same_effects_def send_built_grows)+

lemma keeps_inputI:
  "effects_grow s t \<Longrightarrow> (queue_ok s \<Longrightarrow> queue_ok t \<and> input_view t = input_view s) \<Longrightarrow> keeps_input s t"
  by (auto simp: keeps_input_def effects_grow_def)

lemma flushInput_view:
  assumes "queue_ok s"
  shows "queue_ok (snd (flushInput env s)) \<and> input_view (snd (flushInput env s)) = input_view s
    \<and> pending_input (snd (flushInput env s)) = pending_input s"
proof (cases "flushingInput s \<or> phase s \<noteq> PhaseReady")
  case True
  then show ?thesis using assms by (auto simp: flushInput_def with_state_def return_def)
next
  case False
  let ?s = "s\<lparr>flushingInput := True\<rparr>"
  have "flushTask s = None" using False assms by (cases "flushTask s") (auto simp: queue_ok_def)
  then have rest: "resting ?s" and view: "input_view ?s = input_view s" "pending_input ?s = pending_input s"
    using False assms by (auto simp: resting_def queue_ok_def queue_core_def pending_input_def input_view_def unsent_input_def in_flight_def)
  have "snd (flushInput env s) = snd (flush_turn env ?s)"
    using False by (simp add: flushInput_def with_state_def act_bind_def modify_def return_def split: prod.split sum.split)
  then show ?thesis using flush_turn_view [OF rest, of env] view by simp
qed

lemma resumed_sent:
  assumes ok: "queue_ok s" and w: "flushTask s = Some (l, n, True)"
  defines "a \<equiv> advance_queue l n (s\<lparr>flushTask := None\<rparr>)"
  shows "resting a" "input_view a = input_view s" "0 < n" "n \<le> length (pending_input s)"
    "pending_input a = drop n (pending_input s)" "snd (flush_resumed env s) = snd (flush_turn env a)"
proof -
  let ?s = "s\<lparr>flushTask := None\<rparr>"
  obtain head q where q: "inputQueue s = head # q" "l = length head" "0 < n" "queueHeadOffset s + n \<le> length head"
    using awaits_chunkE [OF _ w] ok by (auto simp: queue_ok_def)
  have core: "queue_core ?s" using ok by (simp add: queue_ok_def queue_core_def pending_input_def)
  have p: "pending_input ?s = pending_input s" by (simp add: pending_input_def)
  note adv = advance_core [OF core, of head q n, folded q(2)]
  show "0 < n" by (rule q(3))
  show "n \<le> length (pending_input s)" "pending_input a = drop n (pending_input s)" using adv q p by (simp_all add: a_def)
  show "resting a" using adv(1) q ok w by (simp add: resting_def a_def queue_ok_def)
  show "input_view a = input_view s" using adv(2) q w p by (simp add: input_view_def unsent_input_def in_flight_def a_def)
  show "snd (flush_resumed env s) = snd (flush_turn env a)"
    using w by (simp add: flush_resumed_def with_state_def act_bind_def modify_def return_def a_def split: prod.split sum.split)
qed

lemma resumed_failed:
  assumes ok: "queue_ok s" and w: "flushTask s = Some (l, n, False)"
  shows "snd (flush_resumed env s) = s\<lparr>flushTask := None, flushingInput := False\<rparr>"
    "queue_ok (snd (flush_resumed env s))" "input_view (snd (flush_resumed env s)) = input_view s"
    "pending_input (snd (flush_resumed env s)) = pending_input s"
proof -
  show e: "snd (flush_resumed env s) = s\<lparr>flushTask := None, flushingInput := False\<rparr>"
    using w by (simp add: flush_resumed_def with_state_def act_bind_def modify_def)
  show "queue_ok (snd (flush_resumed env s))" "input_view (snd (flush_resumed env s)) = input_view s"
    "pending_input (snd (flush_resumed env s)) = pending_input s"
    unfolding e using ok w by (simp_all add: queue_ok_def queue_core_def awaits_chunk_def pending_input_def input_view_def
        unsent_input_def in_flight_def)
qed

lemma flush_resumed_view:
  assumes "queue_ok s"
  shows "queue_ok (snd (flush_resumed env s)) \<and> input_view (snd (flush_resumed env s)) = input_view s"
proof (cases "flushTask s")
  case None
  then show ?thesis using assms by (simp add: flush_resumed_def with_state_def return_def)
next
  case (Some t)
  then obtain l n sent where t: "flushTask s = Some (l, n, sent)" by (cases t) auto
  show ?thesis
  proof (cases sent)
    case True
    with t have t: "flushTask s = Some (l, n, True)" by simp
    show ?thesis using flush_turn_view [OF resumed_sent(1) [OF assms t], of env]
      unfolding resumed_sent(6) [OF assms t] resumed_sent(2) [OF assms t] by blast
  next
    case False
    with t have "flushTask s = Some (l, n, False)" by simp
    then show ?thesis using resumed_failed [OF assms] by blast
  qed
qed

lemma flush_input: "keeps keeps_input (flushInput env)" "keeps keeps_input (flush_resumed env)"
  unfolding keeps_def
  using flushInput_view flush_resumed_view by (blast intro: keeps_inputI keepsD flush_grows)+

interpretation input: login_free keeps_input env for env :: "'k session_env"
proof unfold_locales
  fix s t :: "'k session" and e and p and line n ph r b
  note same = keeps_input_same [where fs = "[]"]
  show "keeps_input s t" if "same_core s t" using that by (intro same) (simp_all add: same_defs)
  show "keeps_input s (s\<lparr>effects := effects s @ [e]\<rparr>)" if "quiet e"
    using that by (intro keeps_input_same [where fs = "[e]"]) (simp_all add: same_defs quiet_data)
  show "keeps keeps_input (send_built env p mk)" if "ordinary p" for p and mk :: "'k session \<Rightarrow> CipherSpec \<Rightarrow> 'k cipher \<Rightarrow> 'k cipher \<times> bytes"
    using that by (simp add: keeps_def ordinary_def send_built_input)
  show "keeps keeps_input (send_built env p mk)" if "auth_payload p" for p and mk :: "'k session \<Rightarrow> CipherSpec \<Rightarrow> 'k cipher \<Rightarrow> 'k cipher \<times> bytes"
    using that by (auto simp: keeps_def auth_payload_def intro!: send_built_input)
  show "keeps keeps_input (sendPlain env p)"
  proof -
    have "keeps_input s (snd (sendPlain env p s))" for s
      using sendPlain_result [of env p s] keeps_input_same [of s _ "[WirePlain p _]"] keeps_input_same [of s _ "[]"]
      by (auto simp: same_defs count_packet_def)
    then show ?thesis by (simp add: keeps_def)
  qed
  show "keeps keeps_input (flushInput env)" "keeps keeps_input (flush_resumed env)" by (rule flush_input)+
  show "keeps keeps_input (close b :: ('k, unit) act)" by (simp add: keeps_def close_input)
qed (auto simp: same_defs intro!: keeps_input_same [where fs = "[]"])

interpretation input_host: host_free keeps_input env for env :: "'k session_env"
proof unfold_locales
  show "keeps_input s (s\<lparr>effects := effects s @ [HostDecision fp accept]\<rparr>)" for s :: "'k session" and fp accept
    by (rule keeps_input_same [where fs = "[HostDecision fp accept]"]) (simp_all add: same_defs)
qed (auto simp: same_defs intro!: keeps_input_same [where fs = "[]"])

subsection \<open>Accepting input\<close>

text \<open>The input that a message of the browser carries, after the limit on one message.\<close>

definition text_input :: "json \<Rightarrow> bytes" where
  "text_input v =
     (let type = json_field v ''type'' in
      if type = Some (JStr ''host_key_decision'') \<or> type = Some (JStr ''ping'') \<or> type = Some (JStr ''resize'')
         \<or> json_array_resize v \<noteq> None then []
      else case json_field v ''data'' of
             Some (JStr data) \<Rightarrow>
               if type = Some (JStr ''input'') \<or> type = None
               then utf8_encode (u16_take MAX_CLIENT_TEXT_INPUT_CHARS data) else []
           | _ \<Rightarrow> [])"

fun message_input :: "client_message \<Rightarrow> bytes" where
  "message_input (BinaryMessage data) = take MAX_CLIENT_BINARY_INPUT_BYTES data"
| "message_input (TextMessage None) = []"
| "message_input (TextMessage (Some v)) = (if is_object v then text_input v else [])"

text \<open>What of it fits in the queue.\<close>

definition accepted :: "'k session \<Rightarrow> bytes \<Rightarrow> bytes" where
  "accepted s data = (if phase s = Closed then [] else take (nat (int MAX_QUEUED_INPUT - queuedBytes s)) data)"

fun event_input :: "session_event \<Rightarrow> 'k session \<Rightarrow> bytes" where
  "event_input (BrowserMessage m) s = accepted s (message_input m)"
| "event_input _ s = []"

definition adds_input :: "bytes \<Rightarrow> 'k session \<Rightarrow> 'k session \<Rightarrow> bool" where
  "adds_input data s t \<longleftrightarrow> (ended (effects s) \<longrightarrow> ended (effects t))
     \<and> (queue_ok s \<and> \<not> ended (effects t) \<longrightarrow> queue_ok t \<and> input_view t = input_view s @ data)"

lemma adds_nothing: "adds_input [] s t \<longleftrightarrow> keeps_input s t"
  by (simp add: adds_input_def keeps_input_def)

lemma adds_then_keeps: "adds_input data s t \<Longrightarrow> keeps_input t u \<Longrightarrow> adds_input data s u"
  by (auto simp: adds_input_def keeps_input_def)

lemma keeps_then_adds: "keeps_input s t \<Longrightarrow> adds_input data t u \<Longrightarrow> adds_input data s u"
  by (auto simp: adds_input_def keeps_input_def)

lemma in_flight_pending:
  assumes "queue_ok s"
  shows "in_flight s \<le> length (pending_input s)"
proof (cases "flushTask s")
  case (Some t)
  then obtain l n sent where t: "flushTask s = Some (l, n, sent)" by (cases t) auto
  have "awaits_chunk s" using assms by (simp add: queue_ok_def)
  then obtain head q where "inputQueue s = head # q" "queueHeadOffset s + n \<le> length head"
    using t by (rule awaits_chunkE)
  then show ?thesis using t by (cases sent) (simp_all add: in_flight_def pending_input_def)
qed (simp add: in_flight_def)

lemma push_input_ok:
  assumes ok: "queue_ok s" and d: "data \<noteq> []" "queuedBytes s + int (length data) \<le> int MAX_QUEUED_INPUT"
  shows "queue_ok (push_input data s)" "input_view (push_input data s) = input_view s @ data"
proof -
  let ?t = "push_input data s"
  have f: "flushTask ?t = flushTask s" "flushingInput ?t = flushingInput s" "effects ?t = effects s" "in_flight ?t = in_flight s"
    by (simp_all add: push_input_def in_flight_def)
  have p: "pending_input ?t = pending_input s @ data" using ok
    by (cases "inputQueue s") (auto simp: queue_ok_def queue_core_def push_input_def pending_input_def)
  have "queue_core ?t" using ok d unfolding queue_ok_def queue_core_def p
    by (cases "inputQueue s") (auto simp: push_input_def)
  moreover have w: "awaits_chunk ?t" using ok
    by (cases "flushTask s"; cases "inputQueue s") (auto simp: queue_ok_def awaits_chunk_def push_input_def)
  ultimately show "queue_ok ?t" using ok f by (simp add: queue_ok_def)
  have "in_flight s \<le> length (pending_input s)" using ok
    by (rule in_flight_pending)
  then show "input_view ?t = input_view s @ data" by (simp add: input_view_def unsent_input_def p f)
qed

lemma push_input_adds:
  assumes "data \<noteq> []" "queuedBytes s + int (length data) \<le> int MAX_QUEUED_INPUT"
  shows "adds_input data s (push_input data s)"
  using push_input_ok [OF _ assms] by (auto simp: adds_input_def push_input_def)

lemma status_queue:
  obtains u where "status e m s = (Inr (), u)" "inputQueue u = inputQueue s" "queuedBytes u = queuedBytes s" "phase u = phase s"
    "keeps_input s u"
proof -
  have "keeps_input s (snd (status e m s))" by (rule keepsD) (rule input.keeps_status)
  then show thesis
    by (intro that [of "snd (status e m s)"])
      (simp_all add: status_def sendJson_def with_state_def act_when_def emit_def modify_def return_def)
qed

lemma push_flush_adds:
  assumes "data \<noteq> []" "queuedBytes s + int (length data) \<le> int MAX_QUEUED_INPUT"
  shows "adds_input data s (snd (act_block [modify (push_input data), flushInput env] s))"
proof -
  have "keeps_input (push_input data s) (snd (flushInput env (push_input data s)))" by (rule keepsD) (rule input.flush)
  with push_input_adds [OF assms] have "adds_input data s (snd (flushInput env (push_input data s)))" by (rule adds_then_keeps)
  moreover have "snd (act_block [modify (push_input data), flushInput env] s) = snd (flushInput env (push_input data s))"
    by (simp add: act_bind_def modify_def return_def split: prod.split sum.split)
  ultimately show ?thesis by simp
qed

lemma queueInput_adds: "adds_input (accepted s data) s (snd (queueInput env data s))"
proof (cases "length data = 0 \<or> phase s = Closed")
  case True
  then show ?thesis by (auto simp: queueInput_def with_state_def Let_def return_def accepted_def adds_nothing keeps_input_def)
next
  case open_session: False
  obtain u where u: "status ''input_truncated'' ''Terminal input queue is full; input was dropped'' s = (Inr (), u)"
    "queuedBytes u = queuedBytes s" "keeps_input s u" by (rule status_queue) blast
  show ?thesis
  proof (cases "int MAX_QUEUED_INPUT < queuedBytes s + int (length data)")
    case False
    have "queueInput env data s = act_block [modify (push_input data), flushInput env] s"
      using False open_session unfolding queueInput_def with_state_def Let_def by simp
    moreover have "accepted s data = data" using open_session False by (simp add: accepted_def)
    ultimately show ?thesis using push_flush_adds [of data s env] False open_session by simp
  next
    case over: True
    show ?thesis
    proof (cases "int MAX_QUEUED_INPUT - queuedBytes s \<le> 0")
      case True
      have "snd (queueInput env data s) = u"
        using over True open_session u(1) unfolding queueInput_def with_state_def Let_def by (simp add: act_bind_def return_def)
      then show ?thesis using u(3) True by (simp add: accepted_def adds_nothing)
    next
      case False
      let ?d = "take (nat (int MAX_QUEUED_INPUT - queuedBytes s)) data"
      have "adds_input ?d u (snd (act_block [modify (push_input ?d), flushInput env] u))"
        using False over open_session u(2) by (intro push_flush_adds) auto
      with u(3) have "adds_input ?d s (snd (act_block [modify (push_input ?d), flushInput env] u))" by (rule keeps_then_adds)
      moreover have "snd (queueInput env data s) = snd (act_block [modify (push_input ?d), flushInput env] u)"
        using over False open_session u(1) unfolding queueInput_def with_state_def Let_def
        by (simp add: act_bind_def return_def split: prod.split sum.split)
      ultimately show ?thesis using open_session by (simp add: accepted_def)
    qed
  qed
qed

lemma status_then_queue:
  "adds_input (accepted s data) s (snd (act_block [status e m, queueInput env data] s))"
proof -
  obtain u where u: "status e m s = (Inr (), u)" "queuedBytes u = queuedBytes s" "phase u = phase s" "keeps_input s u"
    by (rule status_queue) blast
  have "accepted u data = accepted s data" using u by (simp add: accepted_def)
  then have "adds_input (accepted s data) s (snd (queueInput env data u))"
    using keeps_then_adds [OF u(4) queueInput_adds, of data env] by simp
  moreover have "snd (act_block [status e m, queueInput env data] s) = snd (queueInput env data u)"
    using u(1) by (simp add: act_bind_def return_def split: prod.split sum.split)
  ultimately show ?thesis by simp
qed

lemma u16_take_all: "u16_length cs \<le> n \<Longrightarrow> u16_take n cs = cs"
  by (induction n cs rule: u16_take.induct) (auto simp: Let_def split: if_splits)

lemma kept_message: "keeps keeps_input m \<Longrightarrow> adds_input [] s (snd (m s))"
  by (simp add: adds_nothing keeps_def)

lemma kept_return: "adds_input [] s (snd (return () s))"
  by (simp add: adds_nothing keeps_input_def return_def)

lemma text_message_adds: "adds_input (accepted s (text_input v)) s (snd (handleTextMessage env v s))"
proof -
  let ?type = "json_field v ''type''" and ?data = "json_field v ''data''"
  have nil: "accepted s [] = []" by (simp add: accepted_def)
  show ?thesis
  proof (cases "?type = Some (JStr ''host_key_decision'') \<or> ?type = Some (JStr ''ping'') \<or> ?type = Some (JStr ''resize'')
      \<or> json_array_resize v \<noteq> None")
    case True
    have "keeps keeps_input (handleTextMessage env v)"
    proof -
      have dec: "keeps keeps_input (host_key_decision v)"
        by (intro input.keeps_host_key_decision keepsD input_host.keeps_decision)
      show ?thesis using True unfolding handleTextMessage_def Let_def
        by (auto intro!: dec input.keeps_json input.keeps_resize split: option.split)
    qed
    then show ?thesis using True nil by (auto simp: text_input_def intro: kept_message)
  next
    case False
    then have none: "json_array_resize v = None" by (metis option.exhaust)
    have h: "handleTextMessage env v s = (case ?data of
              Some (JStr data) \<Rightarrow>
                if ?type = Some (JStr ''input'') \<or> ?type = None then
                  if MAX_CLIENT_TEXT_INPUT_CHARS < u16_length data then act_block
                    [status ''input_truncated'' ''Oversized terminal input was truncated'',
                     queueInput env (utf8_encode (u16_take MAX_CLIENT_TEXT_INPUT_CHARS data))]
                  else queueInput env (utf8_encode data)
                else return ()
            | _ \<Rightarrow> return ()) s"
      and i: "text_input v = (case ?data of
              Some (JStr data) \<Rightarrow> if ?type = Some (JStr ''input'') \<or> ?type = None
                then utf8_encode (u16_take MAX_CLIENT_TEXT_INPUT_CHARS data) else []
            | _ \<Rightarrow> [])"
      using False by (simp_all add: handleTextMessage_def text_input_def Let_def none del: act_block.simps)
    show ?thesis
    proof (cases "(\<exists>data. ?data = Some (JStr data)) \<and> (?type = Some (JStr ''input'') \<or> ?type = None)")
      case True
      then obtain data where d: "?data = Some (JStr data)" by blast
      show ?thesis
      proof (cases "MAX_CLIENT_TEXT_INPUT_CHARS < u16_length data")
        case True
        then show ?thesis using \<open>_ \<and> _\<close> d unfolding h i by (simp add: status_then_queue del: act_block.simps)
      next
        case False
        then have "u16_take MAX_CLIENT_TEXT_INPUT_CHARS data = data" by (intro u16_take_all) simp
        then show ?thesis using False \<open>_ \<and> _\<close> d unfolding h i by (simp add: queueInput_adds)
      qed
    next
      case False
      then have "handleTextMessage env v s = return () s" "text_input v = []"
        unfolding h i by (auto split: option.split json.split)
      then show ?thesis using nil kept_return by simp
    qed
  qed
qed

lemma client_message_adds: "adds_input (accepted s (message_input m)) s (snd (handleClientMessage env m s))"
proof (cases "phase s = Closed")
  case True
  then show ?thesis using kept_return by (simp add: handleClientMessage_def with_state_def accepted_def)
next
  case False
  have nil: "accepted s [] = []" by (simp add: accepted_def)
  show ?thesis
  proof (cases m)
    case (BinaryMessage data)
    then show ?thesis using False
      by (simp add: handleClientMessage_def with_state_def status_then_queue queueInput_adds del: act_block.simps)
  next
    case (TextMessage v)
    then show ?thesis using False nil
      by (cases v) (simp_all add: handleClientMessage_def with_state_def text_message_adds kept_return)
  qed
qed

subsection \<open>Runs\<close>




lemma discard_state: "snd (discard m s) = snd (m s)"
  by (simp add: discard_def act_catch_def act_bind_def return_def split: prod.split sum.split)

lemma event_adds: "adds_input (event_input e s) s (after env e s)"
proof (cases "routine e")
  case True
  then have "event_input e s = []" by (cases e) simp_all
  then show ?thesis using input.routine_event [OF True] by (simp add: adds_nothing)
next
  case False
  show ?thesis
  proof (cases e)
    case (ReadTurn b)
    have "keeps keeps_input (read_turn env b)"
      by (intro input_host.keeps_read_turn input.keeps_handleAuth keepsD input.keeps_handleChannel)
    then show ?thesis using ReadTurn by (simp add: adds_nothing after_def keeps_def)
  next
    case (BrowserMessage m)
    then show ?thesis using client_message_adds by (simp add: after_def discard_state)
  next
    case HostTimeout
    then show ?thesis using input_host.host_timeout by (simp add: adds_nothing)
  next
    case ShellTimeout
    then show ?thesis using input.shell_timeout by (simp add: adds_nothing)
  qed (use False in auto)
qed






subsection \<open>Progress\<close>

text \<open>Able to send: encryption is set up, the cipher is known and the shell is ready.\<close>

definition can_send :: "'k session \<Rightarrow> bool" where
  "can_send s \<longleftrightarrow> encryptor s \<noteq> None \<and> (\<exists>spec. getCipherSpec (cipherC2S s) = Inr spec) \<and> phase s = PhaseReady"

definition window_closed :: "'k session \<Rightarrow> bool" where
  "window_closed s \<longleftrightarrow> remoteWindowSize (channelObjects s 0) = 0 \<or> remoteMaxPacketSize (channelObjects s 0) = 0"

text \<open>A flush that has ended because there is nothing left to send or no window to send it in; one that awaits a send
  which succeeds.\<close>

definition drained :: "'k session \<Rightarrow> bool" where
  "drained s \<longleftrightarrow> \<not> flushingInput s \<and> flushTask s = None \<and> (inputQueue s = [] \<or> window_closed s)"

definition waiting :: "'k session \<Rightarrow> bool" where
  "waiting s \<longleftrightarrow> (\<exists>l n. flushTask s = Some (l, n, True))"

lemma send_built_succeeds:
  assumes "encryptor s = Some c" "getCipherSpec (cipherC2S s) = Inr spec" "env_writes env = None"
  obtains c' w where "send_built env p mk s
      = (Inr (), (count_packet (s\<lparr>encryptor := Some c'\<rparr>))\<lparr>effects := effects s @ [WireEncrypted p w]\<rparr>)"
proof -
  have "fst (send_built env p mk s) = Inr ()"
    using assms by (simp add: send_built_def socket_write_def with_state_def act_bind_def attempt_def modify_def emit_def return_def
        split: prod.split)
  then show thesis using that by (rule_tac send_built_cases [of env p mk s]) (metis prod.collapse)+
qed

lemma flush_turn_progress:
  assumes rest: "resting s" and can: "can_send s" and writes: "env_writes env = None"
  defines "u \<equiv> snd (flush_turn env s)"
  shows "can_send u \<and> (drained u \<or> waiting u)"
proof (cases "inputQueue s = []")
  case True
  then have "u = s\<lparr>flushingInput := False\<rparr>" by (simp add: u_def flush_turn_idle)
  then show ?thesis using True rest can by (simp add: drained_def can_send_def resting_def)
next
  case False
  then obtain head q where q: "inputQueue s = head # q" by (cases "inputQueue s") auto
  have ready: "phase s = PhaseReady" using can by (simp add: can_send_def)
  show ?thesis
  proof (rule flush_turn_outcome [OF q ready, of env])
    fix ch assume r: "flush_turn env s = (Inr (), (store_channel 0 ch s)\<lparr>flushingInput := False\<rparr>)"
      "queueHeadOffset s < length head \<Longrightarrow> remoteWindowSize ch = 0 \<or> remoteMaxPacketSize ch = 0"
    have "queueHeadOffset s < length head" using rest q by (simp add: resting_def queue_core_def)
    then have "window_closed u" using r by (simp add: u_def window_closed_def store_channel_def)
    then show ?thesis using r(1) rest can by (simp add: u_def drained_def can_send_def resting_def store_channel_def)
  next
    fix ch n p and mk :: "'a session \<Rightarrow> CipherSpec \<Rightarrow> 'a cipher \<Rightarrow> 'a cipher \<times> bytes"
    assume c: "sends_chunk env s head ch n p mk"
    let ?s = "store_channel 0 ch s"
    obtain d spec where "encryptor ?s = Some d" "getCipherSpec (cipherC2S ?s) = Inr spec"
      using can by (auto simp: can_send_def store_channel_def)
    then obtain c' w where "send_built env p mk ?s
        = (Inr (), (count_packet (?s\<lparr>encryptor := Some c'\<rparr>))\<lparr>effects := effects ?s @ [WireEncrypted p w]\<rparr>)"
      using writes by (rule send_built_succeeds)
    then have "u = (count_packet (?s\<lparr>encryptor := Some c'\<rparr>))\<lparr>effects := effects ?s @ [WireEncrypted p w],
        flushTask := Some (length head, n, True)\<rparr>"
      using c by (simp add: u_def sends_chunk_def)
    then show ?thesis using can by (simp add: waiting_def can_send_def count_packet_def store_channel_def)
  qed
qed

lemma flush_resumed_progress:
  assumes ok: "queue_ok s" and w: "waiting s" and can: "can_send s" and writes: "env_writes env = None"
  defines "u \<equiv> snd (flush_resumed env s)"
  shows "queue_ok u \<and> can_send u \<and> (drained u \<or> waiting u) \<and> length (pending_input u) < length (pending_input s)"
proof -
  obtain l n where t: "flushTask s = Some (l, n, True)" using w by (auto simp: waiting_def)
  note r = resumed_sent [OF ok t]
  let ?a = "advance_queue l n (s\<lparr>flushTask := None\<rparr>)"
  have "can_send ?a" using can by (simp add: can_send_def advance_queue_def Let_def)
  then have "can_send u \<and> (drained u \<or> waiting u)" using flush_turn_progress [OF r(1) _ writes] by (simp add: u_def r(6))
  moreover have "queue_ok u \<and> pending_input u = drop n (pending_input s)"
    using flush_turn_view [OF r(1), of env] r(5) by (simp add: u_def r(6))
  ultimately show ?thesis using r(3,4) by simp
qed

lemma after_flush_turn: "after env FlushTurn s = snd (flush_resumed env s)"
  by (simp add: after_def)

lemma flush_drains:
  assumes "queue_ok s" "can_send s" "drained s \<or> waiting s" "env_writes env = None"
  shows "\<exists>k \<le> length (pending_input s). drained ((after env FlushTurn ^^ k) s)"
  using assms
proof (induction "length (pending_input s)" arbitrary: s rule: less_induct)
  case less
  show ?case
  proof (cases "drained s")
    case True
    then show ?thesis by (intro exI [of _ 0]) simp
  next
    case False
    let ?u = "after env FlushTurn s"
    have u: "queue_ok ?u" "can_send ?u" "drained ?u \<or> waiting ?u" "length (pending_input ?u) < length (pending_input s)"
      using flush_resumed_progress [OF less.prems(1) _ less.prems(2,4)] less.prems(3) False by (simp_all add: after_flush_turn)
    from less.hyps [OF u(4,1-3) less.prems(4)] obtain k where
      k: "k \<le> length (pending_input ?u)" "drained ((after env FlushTurn ^^ k) ?u)" by blast
    then have "drained ((after env FlushTurn ^^ Suc k) s)" by (simp only: funpow_Suc_right o_apply)
    then show ?thesis using k(1) u(4) by (intro exI [of _ "Suc k"]) simp
  qed
qed

lemma run_queue_ok:
  assumes "session_run env s es t" "queue_ok s" "\<not> ended (effects t)"
  shows "queue_ok t"
  using assms
proof (induction rule: session_run.induct)
  case (run_snoc s es t e)
  have "adds_input (event_input e t) t (after env e t)" by (rule event_adds)
  with run_snoc show ?case by (auto simp: adds_input_def)
qed simp

lemma flushInput_progress:
  assumes ok: "queue_ok t" and can: "can_send t" and "env_writes env = None" "\<forall>l n. flushTask t \<noteq> Some (l, n, False)"
  defines "u \<equiv> snd (flushInput env t)"
  shows "queue_ok u" "can_send u" "drained u \<or> waiting u" "pending_input u = pending_input t"
proof -
  show "queue_ok u" "pending_input u = pending_input t" using flushInput_view [OF ok, of env] by (simp_all add: u_def)
  have "can_send u \<and> (drained u \<or> waiting u)"
  proof (cases "flushTask t")
    case None
    let ?t = "t\<lparr>flushingInput := True\<rparr>"
    have "\<not> flushingInput t" "phase t = PhaseReady" using ok can None by (simp_all add: queue_ok_def can_send_def)
    then have "u = snd (flush_turn env ?t)"
      by (simp add: u_def flushInput_def with_state_def act_bind_def modify_def return_def split: prod.split sum.split)
    moreover have "resting ?t" "can_send ?t"
      using ok can None by (simp_all add: resting_def queue_ok_def queue_core_def pending_input_def can_send_def)
    ultimately show ?thesis using flush_turn_progress assms(3) by metis
  next
    case (Some w)
    then have "waiting t" using assms(4) by (cases w) (auto simp: waiting_def)
    moreover have "u = t" using ok Some by (simp add: u_def queue_ok_def flushInput_def with_state_def return_def)
    ultimately show ?thesis using can by simp
  qed
  then show "can_send u" "drained u \<or> waiting u" by blast+
qed

text \<open>C14: A flush of terminal input never stalls. In every run from a session with a well-formed queue (as a new one
  has) and until it is closed: the flag that keeps other calls out is set exactly while a flush awaits a send, so it
  is never left behind; when that send succeeds, its bytes leave the queue; when it fails, the flush ends and the bytes
  stay. And once the shell is ready, a call of \<open>flushInput\<close> (made for new input, when the shell gets ready and when the
  server widens its window) followed by the completion of the sends, at most one for each queued byte, ends with
  nothing left to send or with the server's window used up, as long as the socket takes the writes.\<close>

theorem flush_makes_progress:
  assumes "session_run env s es t" "queue_ok s" "\<not> ended (effects t)"
  shows "(flushingInput t \<longleftrightarrow> flushTask t \<noteq> None)
    \<and> (\<forall>l n. flushTask t = Some (l, n, True) \<longrightarrow> 0 < n
         \<and> length (pending_input (after env FlushTurn t)) + n = length (pending_input t))
    \<and> (\<forall>l n. flushTask t = Some (l, n, False) \<longrightarrow> \<not> flushingInput (after env FlushTurn t)
         \<and> pending_input (after env FlushTurn t) = pending_input t)
    \<and> (can_send t \<and> env_writes env = None \<and> (\<forall>l n. flushTask t \<noteq> Some (l, n, False)) \<longrightarrow>
         (\<exists>k \<le> length (pending_input t). drained ((after env FlushTurn ^^ k) (snd (flushInput env t)))))"
proof (intro conjI allI impI)
  have ok: "queue_ok t" by (rule run_queue_ok [OF assms])
  then show "flushingInput t \<longleftrightarrow> flushTask t \<noteq> None" by (simp add: queue_ok_def)
  {
    fix l n assume w: "flushTask t = Some (l, n, True)"
    note r = resumed_sent [OF ok w]
    show "0 < n" by (rule r(3))
    show "length (pending_input (after env FlushTurn t)) + n = length (pending_input t)"
      using flush_turn_view [OF r(1), of env] r(4,5) by (simp add: after_flush_turn r(6))
  }
  {
    fix l n assume w: "flushTask t = Some (l, n, False)"
    show "\<not> flushingInput (after env FlushTurn t)" "pending_input (after env FlushTurn t) = pending_input t"
      using resumed_failed [OF ok w, of env] by (simp_all add: after_flush_turn)
  }
  assume "can_send t \<and> env_writes env = None \<and> (\<forall>l n. flushTask t \<noteq> Some (l, n, False))"
  then show "\<exists>k \<le> length (pending_input t). drained ((after env FlushTurn ^^ k) (snd (flushInput env t)))"
    using flush_drains flushInput_progress [OF ok] by metis
qed

definition example_ready :: "unit session" where
  "example_ready = (new_session example_config)\<lparr>phase := PhaseReady, inputQueue := [[0x6C, 0x73], [0x0A]], queuedBytes := 3,
     channelObjects := (\<lambda>_. new_SSHChannel\<lparr>remoteWindowSize := 100, remoteMaxPacketSize := 100\<rparr>),
     encryptor := Some (CtrCipher \<lparr>ctr_key = Some (), ctr_counter = zeros 16, ctr_rawKey = []\<rparr>)\<rparr>"

theorem flush_makes_progress_witness:
  "can_send example_ready \<and> \<not> window_closed example_ready \<and> pending_input example_ready = [0x6C, 0x73, 0x0A]
   \<and> (\<exists>k \<le> 3. drained ((after example_env FlushTurn ^^ k) (snd (flushInput example_env example_ready))))"
proof -
  have "getCipherSpec ''aes128-gcm@openssh.com'' \<noteq> Inl e" for e by code_simp
  then obtain spec where "getCipherSpec ''aes128-gcm@openssh.com'' = Inr spec" by (cases "getCipherSpec ''aes128-gcm@openssh.com''") auto
  then have can: "can_send example_ready" by (simp add: can_send_def example_ready_def new_session_def)
  have p: "pending_input example_ready = [0x6C, 0x73, 0x0A]" "\<not> ended (effects example_ready)" "flushTask example_ready = None"
    "\<not> window_closed example_ready"
    by (simp_all add: example_ready_def new_session_def pending_input_def ended_def window_closed_def)
  have ok: "queue_ok example_ready"
    by (simp add: queue_ok_def queue_core_def awaits_chunk_def p(1)) (simp add: example_ready_def new_session_def MAX_QUEUED_INPUT_def)
  have pre: "can_send example_ready \<and> env_writes example_env = None \<and> (\<forall>l n. flushTask example_ready \<noteq> Some (l, n, False))"
    using can p(3) by simp
  have l: "length (pending_input example_ready) = 3" by (simp add: p(1))
  have "\<exists>k \<le> length (pending_input example_ready). drained ((after example_env FlushTurn ^^ k) (snd (flushInput example_env example_ready)))"
    using flush_makes_progress [OF run_Nil ok p(2), of example_env] pre by blast
  then show ?thesis unfolding l using can p(1,4) by blast
qed

end
