(* ===== verification/Session_Limits.thy ===== *)
theory Session_Limits
  imports Session_Credentials
begin

text \<open>
  How often the credentials are presented during a session: at most two authentication requests, at most sixteen
  keyboard-interactive responses, and at most one of these carries answers.
\<close>

fun auth_message :: "byte \<Rightarrow> effect \<Rightarrow> bool" where
  "auth_message type (WireEncrypted payload _) = (payload \<noteq> [] \<and> hd payload = type)"
| "auth_message type _ = False"

text \<open>A response with at least one answer.\<close>

fun answering :: "effect \<Rightarrow> bool" where
  "answering (WireEncrypted payload _) = (payload \<noteq> [] \<and> hd payload = 61 \<and> readUint32 payload 1 \<noteq> 0)"
| "answering _ = False"

definition count_of :: "(effect \<Rightarrow> bool) \<Rightarrow> effect list \<Rightarrow> nat" where
  "count_of P es = length (filter P es)"

lemma count_of_simps [simp]:
  "count_of P [] = 0" "count_of P (es @ fs) = count_of P es + count_of P fs"
  "count_of P (e # es) = (if P e then 1 else 0) + count_of P es"
  by (simp_all add: count_of_def)

definition within_limits :: "'k session \<Rightarrow> bool" where
  "within_limits s \<longleftrightarrow>
     count_of (auth_message 50) (effects s) \<le> (if authRequestSent s then 1 else 0)
        + (if passwordAuthMethod s = KeyboardInteractiveMethod then 1 else 0)
     \<and> (passwordAuthMethod s = KeyboardInteractiveMethod \<longrightarrow> authRequestSent s)
     \<and> count_of (auth_message 61) (effects s) \<le> min 16 (keyboardInteractiveRounds s)
     \<and> count_of answering (effects s) \<le> (if keyboardInteractivePasswordSent s then 1 else 0)"

definition keeps_limits :: "'k session \<Rightarrow> 'k session \<Rightarrow> bool" where
  "keeps_limits s t \<longleftrightarrow> (within_limits s \<longrightarrow> within_limits t)"

text \<open>Same authentication state, and no authentication message.\<close>

definition same_attempts :: "'k session \<Rightarrow> 'k session \<Rightarrow> bool" where
  "same_attempts s t \<longleftrightarrow> authRequestSent t = authRequestSent s \<and> passwordAuthMethod t = passwordAuthMethod s
     \<and> keyboardInteractiveRounds t = keyboardInteractiveRounds s
     \<and> keyboardInteractivePasswordSent t = keyboardInteractivePasswordSent s"

lemma keeps_limits_same:
  assumes "same_attempts s t" "effects t = effects s @ fs"
    "list_all (\<lambda>e. \<not> auth_message 50 e \<and> \<not> auth_message 61 e \<and> \<not> answering e) fs"
  shows "keeps_limits s t"
proof -
  have "count_of (auth_message 50) fs = 0" "count_of (auth_message 61) fs = 0" "count_of answering fs = 0"
    using assms(3) by (simp_all add: count_of_def list_all_iff filter_empty_conv)
  then show ?thesis using assms(1,2) by (simp add: keeps_limits_def within_limits_def same_attempts_def)
qed

lemma quiet_limits: "quiet e \<Longrightarrow> \<not> auth_message ty e \<and> \<not> answering e"
  by (cases e) auto

interpretation limits_preorder: preorder_on_states keeps_limits
  by unfold_locales (auto simp: keeps_limits_def)

lemma send_built_limits:
  assumes "p \<noteq> []" "hd p \<notin> {50, 61}"
  shows "keeps_limits s (snd (send_built env p mk s))"
proof (rule send_built_cases [of env p mk s])
  assume "snd (send_built env p mk s) = s"
  then show ?thesis by (simp add: keeps_limits_def)
next
  fix c c' assume "snd (send_built env p mk s) = count_packet (s\<lparr>encryptor := Some c'\<rparr>)"
  then show ?thesis by (intro keeps_limits_same [where fs = "[]"]) (simp_all add: same_attempts_def count_packet_def)
next
  fix c c' w
  assume t: "snd (send_built env p mk s) = (count_packet (s\<lparr>encryptor := Some c'\<rparr>))\<lparr>effects := effects s @ [WireEncrypted p w]\<rparr>"
  show ?thesis unfolding t
    using assms by (intro keeps_limits_same [where fs = "[WireEncrypted p w]"]) (simp_all add: same_attempts_def count_packet_def)
qed

lemma close_limits: "keeps_limits s (snd (close b s))"
proof (cases "phase s = Closed")
  case True
  then show ?thesis by (simp add: close_closed keeps_limits_def)
next
  case False
  obtain calls where "list_all quiet calls" "effects (snd (close b s)) = effects s @ calls @ [SocketClosed b]"
    using close_result(1) [OF False] by blast
  then show ?thesis
    by (intro keeps_limits_same [where fs = "calls @ [SocketClosed b]"])
      (auto simp: same_attempts_def close_result [OF False] list_all_iff quiet_limits)
qed

interpretation limits: phase_free keeps_limits env for env :: "'k session_env"
proof unfold_locales
  fix s t :: "'k session" and e and p and line n ph r b
  note same = keeps_limits_same [where fs = "[]"]
  show "keeps_limits s t" if "same_core s t" using that by (intro same) (simp_all add: same_defs same_attempts_def)
  show "keeps_limits s (s\<lparr>effects := effects s @ [e]\<rparr>)" if "quiet e"
    using that by (intro keeps_limits_same [where fs = "[e]"]) (simp_all add: same_attempts_def quiet_limits)
  show "keeps keeps_limits (send_built env p mk)" if "ordinary p" for p and mk :: "'k session \<Rightarrow> CipherSpec \<Rightarrow> 'k cipher \<Rightarrow> 'k cipher \<times> bytes"
    using that by (auto simp: keeps_def ordinary_def intro!: send_built_limits)
  show "keeps keeps_limits (sendPlain env p)"
  proof -
    have "keeps_limits s (snd (sendPlain env p s))" for s
      using sendPlain_result [of env p s] keeps_limits_same [of s _ "[WirePlain p _]"] keeps_limits_same [of s _ "[]"]
      by (auto simp: same_attempts_def count_packet_def)
    then show ?thesis by (simp add: keeps_def)
  qed
  show "keeps keeps_limits (flushInput env)" "keeps keeps_limits (flush_resumed env)"
    by (rule limits_preorder.keeps_flush;
        auto intro!: same simp: same_attempts_def same_auth_def same_effects_def keeps_def send_built_limits)+
  show "keeps keeps_limits (close b :: ('k, unit) act)" by (simp add: keeps_def close_limits)
qed (auto simp: same_defs same_attempts_def intro!: keeps_limits_same [where fs = "[]"])

interpretation limits_browser: browser_free keeps_limits env for env :: "'k session_env"
proof unfold_locales
  show "keeps_limits s (s\<lparr>effects := effects s @ [HostDecision fp accept]\<rparr>)" for s :: "'k session" and fp accept
    by (rule keeps_limits_same [where fs = "[HostDecision fp accept]"]) (simp_all add: same_attempts_def)
qed (auto simp: same_defs same_attempts_def intro!: keeps_limits_same [where fs = "[]"])

subsection \<open>The steps of user authentication\<close>

definition reaches :: "('k, 'a) act \<Rightarrow> ('k session \<Rightarrow> bool) \<Rightarrow> 'k session \<Rightarrow> bool" where
  "reaches m Q s = Q (snd (m s))"

lemma reaches_wp: "reaches m Q s = wp m (\<lambda>_. Q) s"
  by (simp add: reaches_def wp_def split: prod.split)

lemma wp_sendEncrypted:
  assumes "\<And>e. Q (Inl e) s" "\<And>e c. Q (Inl e) (count_packet (s\<lparr>encryptor := c\<rparr>))"
    "\<And>c w. Q (Inr ()) ((count_packet (s\<lparr>encryptor := c\<rparr>))\<lparr>effects := effects s @ [WireEncrypted p w]\<rparr>)"
  shows "wp (sendEncrypted env p) Q s"
proof -
  have "wp (send_built env p mk) Q s" for mk
  proof (cases "send_built env p mk s")
    case (Pair r t)
    then show ?thesis using send_built_cases [of env p mk s "Q r t"] assms by (cases r) (auto simp: wp_def)
  qed
  then show ?thesis by (simp add: sendEncrypted_def)
qed

lemma response_message:
  "buildKeyboardInteractiveResponse rs \<noteq> []" "hd (buildKeyboardInteractiveResponse rs) = 61"
  "readUint32 (buildKeyboardInteractiveResponse []) (Suc 0) = 0"
  by (simp_all add: buildKeyboardInteractiveResponse_def concat_arrays_concat) code_simp

lemma request_message:
  "buildPasswordAuthRequest u pw \<noteq> []" "hd (buildPasswordAuthRequest u pw) = 50"
  "buildKeyboardInteractiveAuthRequest u \<noteq> []" "hd (buildKeyboardInteractiveAuthRequest u) = 50"
  by (simp_all add: buildPasswordAuthRequest_def buildKeyboardInteractiveAuthRequest_def concat_arrays_concat)

lemma key_request_message: "buildPublicKeyAuthRequest subtle u pem i algs = Inr p \<Longrightarrow> p \<noteq> [] \<and> hd p = 50"
  by (auto simp: buildPublicKeyAuthRequest_def concat_arrays_concat and_then_def Let_def split: sum.splits)

lemma auth_request_message: "auth_request env s u = (Inr p, t) \<Longrightarrow> t = u \<and> p \<noteq> [] \<and> hd p = 50"
  by (auto simp: auth_request_def throw_def fail_with_def attempt_def return_def request_message rethrow_def
      split: auth_method.splits option.splits sum.splits dest: key_request_message)

lemma auth_request_state: "snd (auth_request env s u) = u"
  by (simp add: auth_request_def throw_def attempt_def return_def split: auth_method.split option.split)

lemma sent_request:
  assumes "within_limits s" "\<not> authRequestSent s" "p \<noteq> []" "hd p = 50"
  shows "wp (act_block
          [modify (\<lambda>s. s\<lparr>authRequestSent := True\<rparr>),
            act_when c (modify (\<lambda>s. s\<lparr>config := (config s)\<lparr>cfg_privateKey := None\<rparr>\<rparr>)),
            sendEncrypted env p]) (\<lambda>_. within_limits) s"
  using assms
  by (auto simp: wp_simps within_limits_def count_packet_def intro!: wp_sendEncrypted)

lemma serviceAccepted_limits: "keeps_limits s (snd (serviceAccepted env payload s))"
  unfolding keeps_limits_def
proof
  assume I: "within_limits s"
  have "wp (serviceAccepted env payload) (\<lambda>_. within_limits) s"
  proof (cases "authRequestSent s")
    case True
    then show ?thesis using I by (auto simp: serviceAccepted_def wp_simps split: sum.split)
  next
    case False
    have "wp (act_bind (auth_request env s) (\<lambda>request. act_block
          [modify (\<lambda>s. s\<lparr>authRequestSent := True\<rparr>),
            act_when c (modify (\<lambda>s. s\<lparr>config := (config s)\<lparr>cfg_privateKey := None\<rparr>\<rparr>)),
            sendEncrypted env request])) (\<lambda>_. within_limits) s" for c
    proof (cases "auth_request env s s")
      case (Pair r t)
      then show ?thesis
      proof (cases r)
        case (Inl e)
        then have "t = s" using Pair auth_request_state [of env s s] by simp
        then show ?thesis using Inl Pair I by (simp add: wp_def act_bind_def)
      next
        case (Inr p)
        then have "t = s" "p \<noteq> []" "hd p = 50" using Pair auth_request_message by blast+
        then show ?thesis using Inr Pair sent_request [OF I False, of p c env]
          by (simp add: wp_def act_bind_def del: act_block.simps)
      qed
    qed
    then show ?thesis using I False by (auto simp: serviceAccepted_def wp_simps simp del: act_block.simps split: sum.split)
  qed
  then show "within_limits (snd (serviceAccepted env payload s))" by (simp add: reaches_wp [symmetric] reaches_def)
qed

lemma sent_response:
  assumes "within_limits s" "keyboardInteractiveRounds s < 16" "rs = [] \<or> \<not> keyboardInteractivePasswordSent s"
  shows "wp (act_block
         [act_when (0 < length rs)
            (modify (\<lambda>s. s\<lparr>keyboardInteractivePasswordSent := True, config := (config s)\<lparr>cfg_password := None\<rparr>\<rparr>)),
          sendEncrypted env (buildKeyboardInteractiveResponse rs)]) (\<lambda>_. within_limits)
     (s\<lparr>keyboardInteractiveRounds := keyboardInteractiveRounds s + 1\<rparr>)"
  using assms
  by (auto simp: wp_simps within_limits_def count_packet_def response_message intro!: wp_sendEncrypted)

lemma counted_round: "within_limits s \<Longrightarrow> within_limits (s\<lparr>keyboardInteractiveRounds := keyboardInteractiveRounds s + 1\<rparr>)"
  by (auto simp: within_limits_def)

lemma infoRequested_limits: "keeps_limits s (snd (infoRequested env payload s))"
  unfolding keeps_limits_def
proof
  assume I: "within_limits s"
  have "wp (infoRequested env payload) (\<lambda>_. within_limits) s"
    using I counted_round [OF I] sent_response [OF I] sent_response [OF I, of "[]" env]
    by (auto simp: infoRequested_def wp_simps simp del: act_block.simps wp_block split: sum.split)
  then show "within_limits (snd (infoRequested env payload s))" by (simp add: reaches_wp [symmetric] reaches_def)
qed

lemma authFailed_limits: "keeps_limits s (snd (authFailed env payload s))"
  unfolding keeps_limits_def
proof
  assume I: "within_limits s"
  have "wp (authFailed env payload) (\<lambda>_. within_limits) s"
    using I
    by (auto simp: authFailed_def wp_simps within_limits_def request_message count_packet_def intro!: wp_sendEncrypted split: sum.split)
  then show "within_limits (snd (authFailed env payload s))" by (simp add: reaches_wp [symmetric] reaches_def)
qed

lemma authSucceeded_limits: "keeps_limits s (snd (authSucceeded env payload s))"
proof -
  have "keeps keeps_limits (authSucceeded env payload)"
  proof -
    have same: "keeps keeps_limits (modify f)" if "\<And>s. same_attempts s (f s) \<and> effects (f s) = effects s"
      for f :: "'k session \<Rightarrow> 'k session"
      using that by (intro limits_preorder.keeps_modify keeps_limits_same [where fs = "[]"]) simp_all
    have "keeps keeps_limits (modify clear_credentials)"
      by (rule same) (simp add: same_attempts_def clear_credentials_def)
    moreover have "keeps keeps_limits (modify (\<lambda>s. s\<lparr>phase := Pty, keepaliveTimer := True, channelObjects := (channelObjects s)(0 := ch)\<rparr>))" for ch
      by (rule same) (simp add: same_attempts_def)
    ultimately show ?thesis unfolding authSucceeded_def
      by (intro limits.keeps_small limits.keeps_send) (auto dest: ordinary_builds)
  qed
  then show ?thesis by (simp add: keeps_def)
qed

lemma handleAuth_limits: "keeps keeps_limits (handleAuth env type payload)"
  using serviceAccepted_limits infoRequested_limits authFailed_limits authSucceeded_limits
  by (auto simp: keeps_def handleAuth_def return_def limits_preorder.refl)

lemma limits_step: "keeps_limits s (after env e s)"
proof (cases "routine e")
  case True
  then show ?thesis by (rule limits.routine_event)
next
  case False
  have "keeps keeps_limits (read_turn env feedThrows)" for feedThrows
    by (intro limits_browser.keeps_read_turn handleAuth_limits keepsD [OF limits.keeps_handleChannel])
  then show ?thesis
    using False limits.shell_timeout limits_browser.host_timeout limits_browser.browser_event
    by (cases e) (simp_all add: after_def keeps_def)
qed

lemma limits_run:
  fixes env :: "'k session_env"
  assumes "session_run env (new_session cfg) es t"
  shows "within_limits t"
proof (rule run_invariant [where I = within_limits, OF assms])
  show "within_limits (new_session cfg :: 'k session)" by (simp add: within_limits_def new_session_def)
  fix t :: "'k session" and e
  assume "within_limits t"
  then show "within_limits (after env e t)" using limits_step [of t env e] by (simp add: keeps_limits_def)
qed

text \<open>C8: However the server behaves, a session sends at most two requests for user authentication (the second one only
  to fall back from password to keyboard-interactive), at most sixteen keyboard-interactive responses, and at most
  one of those carries an answer, so the password is never offered to a challenge twice.\<close>

theorem credentials_presented_bounded:
  assumes "session_run env (new_session cfg) es t"
  shows "count_of (auth_message 50) (effects t) \<le> 2 \<and> count_of (auth_message 61) (effects t) \<le> 16
    \<and> count_of answering (effects t) \<le> 1"
  using limits_run [OF assms] by (auto simp: within_limits_def split: if_splits)

theorem credentials_presented_bounded_witness:
  "\<exists>t. session_run example_env (new_session example_config) [Start, CloseCall True] t
     \<and> count_of (auth_message 50) (effects t) \<le> 2 \<and> SocketClosed True \<in> set (effects t)"
proof -
  let ?s = "new_session example_config :: unit session"
  let ?t = "after example_env (CloseCall True) (after example_env Start ?s)"
  have open_phase: "phase (after example_env Start ?s) \<noteq> Closed"
    by (simp add: after_def start_def with_state_def act_bind_def modify_def emit_def return_def status_def sendJson_def
        act_when_def new_session_def reading_def act_catch_def discard_def socket_write_def)
  have run: "session_run example_env ?s [Start, CloseCall True] ?t" by (rule play_run) simp
  have "SocketClosed True \<in> set (effects ?t)"
    using close_result(1) [OF open_phase, of True] by (auto simp: after_def)
  with run credentials_presented_bounded [OF run] show ?thesis by blast
qed

end
