(* ===== verification/Target_Address.thy ===== *)
theory Target_Address
  imports Js_Text
begin

text \<open>
  Which targets a terminal session may connect to (\<open>isPrivateAddress\<close>, \<open>resolvePublicAddresses\<close>,
  \<open>assertPublicTarget\<close> of \<^verbatim>\<open>worker/src/webssh/backend/security.ts\<close>). The URL parser and the DNS-over-HTTPS
  service are arguments: \<open>url\<close> is the host name of \<open>new URL('http://[' + s + ']')\<close>, \<open>None\<close> when that throws;
  \<open>other\<close> is \<open>toLowerCase\<close> on texts with characters outside ASCII.
\<close>

subsection \<open>Text\<close>

definition upper_char :: "char \<Rightarrow> bool" where
  "upper_char c \<longleftrightarrow> 65 \<le> (of_char c :: nat) \<and> (of_char c :: nat) \<le> 90"

definition lower_char :: "char \<Rightarrow> char" where
  "lower_char c = (if upper_char c then char_of ((of_char c :: nat) + 32) else c)"

definition js_lower :: "(string \<Rightarrow> string) \<Rightarrow> string \<Rightarrow> string" where
  "js_lower other s = (if ascii s then map lower_char s else other s)"

text \<open>\<open>replace(/^\[|\]$/g, '')\<close>.\<close>

definition strip_brackets :: "string \<Rightarrow> string" where
  "strip_brackets s =
     (let s = (if starts_with ''['' s then tl s else s) in
      if s \<noteq> [] \<and> last s = CHR '']'' then butlast s else s)"

subsection \<open>IPv4\<close>

text \<open>\<open>/^(?:\d{1,3}\.){3}\d{1,3}$/\<close>.\<close>

definition ipv4_shape :: "string \<Rightarrow> bool" where
  "ipv4_shape s \<longleftrightarrow>
     (let parts = split_on (CHR ''.'') s in
      length parts = 4 \<and> list_all (\<lambda>p. 1 \<le> length p \<and> length p \<le> 3 \<and> list_all digit_char p) parts)"

definition octets_ok :: "string \<Rightarrow> bool" where
  "octets_ok s \<longleftrightarrow>
     list_all (\<lambda>p. decimal_value p \<le> 255 \<and> (p = ''0'' \<or> \<not> starts_with ''0'' p)) (split_on (CHR ''.'') s)"

definition isIPv4 :: "string \<Rightarrow> bool" where
  "isIPv4 host \<longleftrightarrow> ipv4_shape host \<and> octets_ok host"

definition private_octets :: "nat \<Rightarrow> nat \<Rightarrow> nat \<Rightarrow> bool" where
  "private_octets a b c \<longleftrightarrow>
     a = 0 \<or> a = 10 \<or> a = 127
     \<or> (a = 100 \<and> 64 \<le> b \<and> b \<le> 127)
     \<or> (a = 169 \<and> b = 254)
     \<or> (a = 172 \<and> 16 \<le> b \<and> b \<le> 31)
     \<or> (a = 192 \<and> b = 0 \<and> c = 0)
     \<or> (a = 192 \<and> b = 0 \<and> c = 2)
     \<or> (a = 192 \<and> b = 88 \<and> c = 99)
     \<or> (a = 192 \<and> b = 168)
     \<or> (a = 198 \<and> (b = 18 \<or> b = 19))
     \<or> (a = 198 \<and> b = 51 \<and> c = 100)
     \<or> (a = 203 \<and> b = 0 \<and> c = 113)
     \<or> 224 \<le> a"

definition private_ipv4 :: "string \<Rightarrow> bool" where
  "private_ipv4 value =
     (let parts = map decimal_value (split_on (CHR ''.'') value) in private_octets (parts ! 0) (parts ! 1) (parts ! 2))"

text \<open>The dotted form of a 32-bit number.\<close>

definition dotted :: "nat \<Rightarrow> string" where
  "dotted n = join_with ''.'' [show_nat (n div 2 ^ 24), show_nat (n div 2 ^ 16 mod 256), show_nat (n div 2 ^ 8 mod 256),
     show_nat (n mod 256)]"

lemma show_nat_head: "show_nat k = ''0'' \<or> \<not> starts_with ''0'' (show_nat k)"
proof (induction k rule: show_nat.induct)
  case (1 k)
  show ?case
  proof (cases "k < 10")
    case True
    then have "k \<in> {0, 1, 2, 3, 4, 5, 6, 7, 8, 9}" by auto
    then show ?thesis by (subst (1 2) show_nat.simps) (auto simp: starts_with_def char_of_def)
  next
    case False
    have "show_nat (k div 10) \<noteq> ''0''"
    proof
      assume "show_nat (k div 10) = ''0''"
      then have "k div 10 = decimal_value ''0''" using decimal_value_show [of "k div 10"] by simp
      then show False using False by (simp add: decimal_value_def div_eq_0_iff)
    qed
    then show ?thesis using 1 False show_nat_digits(2) [of "k div 10"]
      by (subst (1 2) show_nat.simps) (auto simp: starts_with_def neq_Nil_conv)
  qed
qed

lemma zero_char: "char_of (48 :: nat) = CHR ''0''"
  by code_simp

lemma show_decimal:
  "list_all digit_char p \<Longrightarrow> p \<noteq> [] \<Longrightarrow> p = ''0'' \<or> \<not> starts_with ''0'' p \<Longrightarrow> show_nat (decimal_value p) = p"
proof (induction p rule: rev_induct)
  case (snoc c q)
  have c: "of_char c - 48 < (10 :: nat)" "char_of (48 + (of_char c - 48) :: nat) = c"
    using snoc(2) by (auto simp: digit_char_def)
  show ?case
  proof (cases "q = []")
    case True
    then show ?thesis using c by (simp add: decimal_value_def show_nat.simps)
  next
    case False
    have "show_nat (decimal_value q) = q"
      using snoc False by (cases q) (auto simp: starts_with_def)
    moreover have "decimal_value q \<noteq> 0"
    proof
      assume "decimal_value q = 0"
      then have "q = ''0''" using \<open>show_nat (decimal_value q) = q\<close> by (simp add: show_nat.simps zero_char)
      then show False using snoc(4) by (auto simp: starts_with_def)
    qed
    ultimately show ?thesis using c
      by (subst show_nat.simps) (simp add: decimal_value_def decimal_acc_append)
  qed
qed simp

lemma octet_text:
  "1 \<le> length p \<and> length p \<le> 3 \<and> list_all digit_char p \<and> decimal_value p \<le> 255 \<and> (p = ''0'' \<or> \<not> starts_with ''0'' p)
     \<longleftrightarrow> (\<exists>k<256. p = show_nat k)" (is "?l \<longleftrightarrow> ?r")
proof
  assume ?l
  then have "show_nat (decimal_value p) = p" by (intro show_decimal) auto
  moreover have "decimal_value p < 256" using \<open>?l\<close> by simp
  ultimately show ?r by metis
next
  assume ?r
  then obtain k where k: "k < 256" "p = show_nat k" by blast
  have "length (show_nat k) \<le> 3"
    using k(1) by (subst show_nat.simps, subst show_nat.simps, subst show_nat.simps) simp
  moreover have "1 \<le> length (show_nat k)" using show_nat_digits(2) [of k] by (simp add: Suc_le_eq)
  ultimately show ?l using k show_nat_digits(1) [of k] decimal_value_show [of k] show_nat_head [of k] by simp
qed

lemma dot_free: "CHR ''.'' \<notin> set (show_nat k)"
  using show_nat_digits(1) [of k] by (auto simp: list_all_iff digit_char_def)

lemma split_dotted:
  "split_on (CHR ''.'') (dotted n) = [show_nat (n div 2 ^ 24), show_nat (n div 2 ^ 16 mod 256), show_nat (n div 2 ^ 8 mod 256),
     show_nat (n mod 256)]"
  unfolding dotted_def by (rule split_on_join_with) (simp_all add: dot_free)

lemma join_split: "join_with [c] (split_on c s) = s"
proof (induction s)
  case (Cons x s)
  then show ?case by (cases "split_on c s" rule: list.exhaust; cases "tl (split_on c s)") (auto split: list.splits)
qed simp

lemma address_parts:
  fixes a b c d :: nat
  assumes "b < 256" "c < 256" "d < 256"
  defines "n \<equiv> a * 2 ^ 24 + b * 2 ^ 16 + c * 2 ^ 8 + d"
  shows "n div 2 ^ 24 = a" "n div 2 ^ 16 = a * 256 + b" "n div 2 ^ 8 = a * 65536 + b * 256 + c" "n mod 256 = d"
    "n div 2 ^ 16 mod 256 = b" "n div 2 ^ 8 mod 256 = c"
proof -
  have n: "n = ((a * 256 + b) * 256 + c) * 256 + d" by (simp add: n_def)
  have digit: "(x * 256 + y) div 256 = x" "(x * 256 + y) mod 256 = y" if "y < 256" for x y :: nat using that by simp_all
  have 8: "n div 256 = (a * 256 + b) * 256 + c" "n mod 256 = d" unfolding n by (rule digit [OF assms(3)])+
  then have 16: "n div 256 div 256 = a * 256 + b" using assms by simp
  then have "n div 256 div 256 div 256 = a" using assms by simp
  then show "n div 2 ^ 24 = a" by (simp add: div_mult2_eq [symmetric])
  show "n div 2 ^ 16 = a * 256 + b" using 16 by (simp add: div_mult2_eq [symmetric])
  show "n div 2 ^ 8 = a * 65536 + b * 256 + c" "n mod 256 = d" using 8 by simp_all
  have "n div 2 ^ 16 = n div 256 div 256" "n div 2 ^ 8 = n div 256" by (simp_all add: div_mult2_eq [symmetric])
  then show "n div 2 ^ 16 mod 256 = b" "n div 2 ^ 8 mod 256 = c"
    unfolding 16 unfolding 8 by (simp_all only: digit [OF assms(1)] digit [OF assms(2)])
qed

lemma div_block: "0 < k \<Longrightarrow> m div k = q \<longleftrightarrow> q * k \<le> m \<and> m < (q + 1) * k" for m k q :: nat
proof -
  assume k: "0 < k"
  have "m div k = q \<longleftrightarrow> q \<le> m div k \<and> m div k < q + 1" by auto
  then show ?thesis unfolding less_eq_div_iff_mult_less_eq [OF k] div_less_iff_less_mult [OF k] .
qed

lemma pair_unique:
  fixes a b :: nat
  assumes "b < 256" "b' < 256"
  shows "a * 256 + b = a' * 256 + b' \<longleftrightarrow> a = a' \<and> b = b'"
proof
  assume e: "a * 256 + b = a' * 256 + b'"
  have digit: "(x * 256 + y) div 256 = x" "(x * 256 + y) mod 256 = y" if "y < 256" for x y :: nat using that by simp_all
  show "a = a' \<and> b = b'" using digit [OF assms(1)] digit [OF assms(2)] e by metis
qed simp

lemma octets_unique:
  fixes a b c :: nat
  assumes "b < 256" "c < 256" "b' < 256" "c' < 256"
  shows "a * 65536 + b * 256 + c = a' * 65536 + b' * 256 + c' \<longleftrightarrow> a = a' \<and> b = b' \<and> c = c'" (is "?m = ?n \<longleftrightarrow> _")
proof
  assume e: "?m = ?n"
  have "?m = (a * 256 + b) * 256 + c" "?n = (a' * 256 + b') * 256 + c'" by simp_all
  with e have "(a * 256 + b) * 256 + c = (a' * 256 + b') * 256 + c'" by simp
  then show "a = a' \<and> b = b' \<and> c = c'" using pair_unique assms by metis
qed simp

text \<open>The test accepts exactly the dotted forms of the 32-bit numbers.\<close>

lemma isIPv4_dotted: "isIPv4 host \<longleftrightarrow> (\<exists>n<2 ^ 32. host = dotted n)"
proof
  assume "isIPv4 host"
  then have parts: "length (split_on (CHR ''.'') host) = 4"
    "\<forall>p \<in> set (split_on (CHR ''.'') host). \<exists>k<256. p = show_nat k"
    unfolding octet_text [symmetric] by (auto simp: isIPv4_def ipv4_shape_def octets_ok_def Let_def list_all_iff)
  then obtain p q r s where s: "split_on (CHR ''.'') host = [p, q, r, s]" by (auto simp: numeral_eq_Suc length_Suc_conv)
  then obtain a b c d where o: "p = show_nat a" "q = show_nat b" "r = show_nat c" "s = show_nat d"
    "a < 256" "b < 256" "c < 256" "d < 256" using parts(2) by auto
  let ?n = "a * 2 ^ 24 + b * 2 ^ 16 + c * 2 ^ 8 + d"
  have "?n div 2 ^ 24 = a" "?n div 2 ^ 16 mod 256 = b" "?n div 2 ^ 8 mod 256 = c" "?n mod 256 = d" "?n < 2 ^ 32"
    using o address_parts [OF o(6-8), of a] by simp_all
  moreover have "host = join_with ''.'' [p, q, r, s]" using join_split [of "CHR ''.''" host] s by simp
  ultimately show "\<exists>n<2 ^ 32. host = dotted n" using o unfolding dotted_def by metis
next
  assume "\<exists>n<2 ^ 32. host = dotted n"
  then obtain n where n: "n < 2 ^ 32" "host = dotted n" by blast
  have "n div 2 ^ 24 < 256" using n(1) by (simp add: div_less_iff_less_mult)
  then have "\<forall>p \<in> set (split_on (CHR ''.'') host). \<exists>k<256. p = show_nat k"
    unfolding n(2) split_dotted using exI [of "\<lambda>k. k < 256 \<and> show_nat m = show_nat k" m for m] by fastforce
  then show "isIPv4 host" unfolding octet_text [symmetric]
    by (auto simp: isIPv4_def ipv4_shape_def octets_ok_def Let_def list_all_iff n(2) split_dotted)
qed

subsection \<open>The reserved blocks\<close>

text \<open>The blocks of the IANA registry that the code names, as first address and prefix length.\<close>

definition RESERVED_BLOCKS :: "(nat \<times> nat) list" where
  "RESERVED_BLOCKS =
     [(0, 8), (10 * 2 ^ 24, 8), (127 * 2 ^ 24, 8), (100 * 2 ^ 24 + 64 * 2 ^ 16, 10), (169 * 2 ^ 24 + 254 * 2 ^ 16, 16),
      (172 * 2 ^ 24 + 16 * 2 ^ 16, 12), (192 * 2 ^ 24, 24), (192 * 2 ^ 24 + 2 * 2 ^ 8, 24),
      (192 * 2 ^ 24 + 88 * 2 ^ 16 + 99 * 2 ^ 8, 24), (192 * 2 ^ 24 + 168 * 2 ^ 16, 16), (198 * 2 ^ 24 + 18 * 2 ^ 16, 15),
      (198 * 2 ^ 24 + 51 * 2 ^ 16 + 100 * 2 ^ 8, 24), (203 * 2 ^ 24 + 113 * 2 ^ 8, 24), (224 * 2 ^ 24, 3)]"

definition in_block :: "nat \<Rightarrow> nat \<times> nat \<Rightarrow> bool" where
  "in_block n = (\<lambda>(first, len). n div 2 ^ (32 - len) = first div 2 ^ (32 - len))"

definition reserved :: "nat \<Rightarrow> bool" where
  "reserved n \<longleftrightarrow> list_ex (in_block n) RESERVED_BLOCKS"

lemma reserved_cases:
  "reserved n \<longleftrightarrow> n div 2 ^ 24 = 0 \<or> n div 2 ^ 24 = 10 \<or> n div 2 ^ 24 = 127 \<or> n div 2 ^ 22 = 401 \<or> n div 2 ^ 16 = 43518
     \<or> n div 2 ^ 20 = 2753 \<or> n div 2 ^ 8 = 12582912 \<or> n div 2 ^ 8 = 12582914 \<or> n div 2 ^ 8 = 12605539
     \<or> n div 2 ^ 16 = 49320 \<or> n div 2 ^ 17 = 25353 \<or> n div 2 ^ 8 = 12989284 \<or> n div 2 ^ 8 = 13303921 \<or> n div 2 ^ 29 = 7"
  by (simp add: reserved_def RESERVED_BLOCKS_def in_block_def)

lemma octets_reserved:
  assumes "a < 256" "b < 256" "c < 256" "d < 256"
  shows "private_octets a b c \<longleftrightarrow> reserved (a * 2 ^ 24 + b * 2 ^ 16 + c * 2 ^ 8 + d)"
proof -
  let ?n = "a * 2 ^ 24 + b * 2 ^ 16 + c * 2 ^ 8 + d"
  have q: "?n div 2 ^ 24 = a" "?n div 2 ^ 16 = a * 256 + b" "?n div 2 ^ 8 = a * 65536 + b * 256 + c"
    using address_parts [OF assms(2-4), of a] by simp_all
  have "m div 2 ^ 22 = m div 2 ^ 16 div 2 ^ 6" "m div 2 ^ 20 = m div 2 ^ 16 div 2 ^ 4" "m div 2 ^ 17 = m div 2 ^ 16 div 2"
    "m div 2 ^ 29 = m div 2 ^ 24 div 2 ^ 5" for m :: nat by (simp_all add: div_mult2_eq [symmetric])
  from this [of ?n] have d: "?n div 2 ^ 22 = (a * 256 + b) div 2 ^ 6" "?n div 2 ^ 20 = (a * 256 + b) div 2 ^ 4"
    "?n div 2 ^ 17 = (a * 256 + b) div 2" "?n div 2 ^ 29 = a div 2 ^ 5"
    unfolding q by blast+
  have e1: "a = 100 \<and> 64 \<le> b \<and> b \<le> 127 \<longleftrightarrow> (a * 256 + b) div 64 = 401"
    using assms(2) by (subst div_block) (simp, arith)
  have e2: "a = 169 \<and> b = 254 \<longleftrightarrow> a * 256 + b = 43518"
    using pair_unique [OF assms(2), of 254 a 169] by simp
  have e3: "a = 172 \<and> 16 \<le> b \<and> b \<le> 31 \<longleftrightarrow> (a * 256 + b) div 16 = 2753"
    using assms(2) by (subst div_block) (simp, arith)
  have e4: "a = 192 \<and> b = 0 \<and> c = 0 \<longleftrightarrow> a * 65536 + b * 256 + c = 12582912"
    using octets_unique [OF assms(2,3), of 0 0 a 192] by simp
  have e5: "a = 192 \<and> b = 0 \<and> c = 2 \<longleftrightarrow> a * 65536 + b * 256 + c = 12582914"
    using octets_unique [OF assms(2,3), of 0 2 a 192] by simp
  have e6: "a = 192 \<and> b = 88 \<and> c = 99 \<longleftrightarrow> a * 65536 + b * 256 + c = 12605539"
    using octets_unique [OF assms(2,3), of 88 99 a 192] by simp
  have e7: "a = 192 \<and> b = 168 \<longleftrightarrow> a * 256 + b = 49320"
    using pair_unique [OF assms(2), of 168 a 192] by simp
  have e8: "a = 198 \<and> (b = 18 \<or> b = 19) \<longleftrightarrow> (a * 256 + b) div 2 = 25353"
    using assms(2) by (subst div_block) (simp, arith)
  have e9: "a = 198 \<and> b = 51 \<and> c = 100 \<longleftrightarrow> a * 65536 + b * 256 + c = 12989284"
    using octets_unique [OF assms(2,3), of 51 100 a 198] by simp
  have e10: "a = 203 \<and> b = 0 \<and> c = 113 \<longleftrightarrow> a * 65536 + b * 256 + c = 13303921"
    using octets_unique [OF assms(2,3), of 0 113 a 203] by simp
  have e11: "224 \<le> a \<longleftrightarrow> a div 32 = 7"
    using assms(1) by (subst div_block) (simp, arith)
  show ?thesis
    unfolding private_octets_def reserved_cases q d e1 e2 e3 e4 e5 e6 e7 e8 e9 e10 e11 by simp
qed

subsection \<open>Private addresses\<close>

definition normalizeIPv6 :: "(string \<Rightarrow> string) \<Rightarrow> (string \<Rightarrow> string option) \<Rightarrow> string \<Rightarrow> string" where
  "normalizeIPv6 other url host =
     (case url host of
        Some hostname \<Rightarrow> js_lower other (strip_brackets hostname)
      | None \<Rightarrow> js_lower other host)"

text \<open>\<open>/^[0-9a-f]{1,4}$/\<close> and \<open>Number.parseInt(part, 16)\<close>.\<close>

definition hex_char :: "char \<Rightarrow> bool" where
  "hex_char c \<longleftrightarrow> digit_char c \<or> (97 \<le> (of_char c :: nat) \<and> (of_char c :: nat) \<le> 102)"

definition hex_group :: "string \<Rightarrow> bool" where
  "hex_group p \<longleftrightarrow> 1 \<le> length p \<and> length p \<le> 4 \<and> list_all hex_char p"

definition hex_digit :: "char \<Rightarrow> nat" where
  "hex_digit c = (if digit_char c then of_char c - 48 else of_char c - 87)"

definition hex_value :: "string \<Rightarrow> nat" where
  "hex_value p = foldl (\<lambda>n c. 16 * n + hex_digit c) 0 p"

definition reserved_name :: "string \<Rightarrow> bool" where
  "reserved_name value \<longleftrightarrow>
     value = ''localhost'' \<or> ends_with ''.localhost'' value \<or> value = ''0.0.0.0''
     \<or> value = ''metadata.google.internal'' \<or> ends_with ''.internal'' value"

text \<open>\<open>::\<close>, \<open>::1\<close>, \<open>/^f[cd]/\<close>, \<open>/^fe[89ab]/\<close>, \<open>2001:db8:\<close>, \<open>ff\<close>.\<close>

definition reserved_ipv6 :: "string \<Rightarrow> bool" where
  "reserved_ipv6 ipv6 \<longleftrightarrow>
     ipv6 = ''::'' \<or> ipv6 = ''::1'' \<or> starts_with ''fc'' ipv6 \<or> starts_with ''fd'' ipv6
     \<or> starts_with ''fe8'' ipv6 \<or> starts_with ''fe9'' ipv6 \<or> starts_with ''fea'' ipv6 \<or> starts_with ''feb'' ipv6
     \<or> starts_with ''2001:db8:'' ipv6 \<or> starts_with ''ff'' ipv6"

definition bare_address :: "(string \<Rightarrow> string) \<Rightarrow> string \<Rightarrow> string" where
  "bare_address other host = strip_brackets (js_lower other host)"

lemma dotted_chars: "list_all (\<lambda>c. digit_char c \<or> c = CHR ''.'') (dotted n)"
proof -
  have "list_all (\<lambda>c. digit_char c \<or> c = CHR ''.'') (show_nat k)" for k
    using show_nat_digits(1) [of k] by (auto simp: list_all_iff)
  then show ?thesis by (simp add: dotted_def)
qed

lemma bare_dotted: "bare_address other (dotted n) = dotted n"
proof -
  have c: "digit_char c \<or> c = CHR ''.''" if "c \<in> set (dotted n)" for c
    using dotted_chars [of n] that by (auto simp: list_all_iff)
  have ne: "dotted n \<noteq> []" using show_nat_digits(2) by (simp add: dotted_def)
  have plain: "ascii (dotted n)" "map lower_char (dotted n) = dotted n"
    using c by (force simp: ascii_def list_all_iff digit_char_def, intro map_idI) (force simp: lower_char_def upper_char_def digit_char_def)
  have "hd (dotted n) \<noteq> CHR ''[''" "last (dotted n) \<noteq> CHR '']''"
    using c [OF hd_in_set [OF ne]] c [OF last_in_set [OF ne]] by (auto simp: digit_char_def)
  then have "strip_brackets (dotted n) = dotted n"
    using ne by (cases "dotted n") (auto simp: strip_brackets_def starts_with_def)
  then show ?thesis using plain by (simp add: bare_address_def js_lower_def)
qed

lemma bare_isIPv4: "isIPv4 host \<Longrightarrow> bare_address other host = host"
  using bare_dotted by (auto simp: isIPv4_dotted)

lemma hex_group_value: "hex_group p \<Longrightarrow> hex_value p < 2 ^ 16"
proof -
  have digit: "hex_char c \<Longrightarrow> hex_digit c < 16" for c by (auto simp: hex_char_def hex_digit_def digit_char_def)
  have "list_all hex_char q \<Longrightarrow> hex_value q < 16 ^ length q" for q
  proof (induction q rule: rev_induct)
    case (snoc c q)
    then have "hex_value q < 16 ^ length q" "hex_digit c < 16" using digit by simp_all
    then show ?case by (simp add: hex_value_def)
  qed (simp add: hex_value_def)
  moreover assume "hex_group p"
  ultimately have "hex_value p < 16 ^ length p" "length p \<le> 4" by (simp_all add: hex_group_def)
  then show ?thesis using power_increasing [of "length p" 4 "16 :: nat"] by simp
qed

lemma isIPv4_numeric: "hex_group p \<Longrightarrow> hex_group q \<Longrightarrow> isIPv4 (dotted (hex_value p * 2 ^ 16 + hex_value q))"
  using hex_group_value [of p] hex_group_value [of q] unfolding isIPv4_dotted by (intro exI conjI) auto

text \<open>The calls on the IPv4 address inside an IPv4-mapped one do not call again.\<close>

function isPrivateAddress :: "(string \<Rightarrow> string) \<Rightarrow> (string \<Rightarrow> string option) \<Rightarrow> string \<Rightarrow> bool" where
  "isPrivateAddress other url host =
     (let value = bare_address other host in
      if reserved_name value then True
      else if isIPv4 value then private_ipv4 value
      else if CHR '':'' \<notin> set value then False
      else
        let ipv6 = normalizeIPv6 other url value in
        if reserved_ipv6 ipv6 then True
        else if starts_with ''::ffff:'' ipv6 then
          let mapped = drop 7 ipv6 in
          if isIPv4 mapped then isPrivateAddress other url mapped
          else
            let halves = split_on (CHR '':'') mapped in
            if length halves = 2 \<and> list_all hex_group halves
            then isPrivateAddress other url (dotted (hex_value (halves ! 0) * 2 ^ 16 + hex_value (halves ! 1)))
            else True
        else False)"
  by pat_completeness auto
termination
proof (relation "measure (\<lambda>(other, url, host). if isIPv4 host then 0 else 1)")
  fix other :: "string \<Rightarrow> string" and url :: "string \<Rightarrow> string option" and host v ipv6 mapped :: string
  assume "v = bare_address other host" "\<not> isIPv4 v"
  then have "\<not> isIPv4 host" using bare_isIPv4 by auto
  moreover assume "isIPv4 mapped"
  ultimately show "((other, url, mapped), other, url, host) \<in> measure (\<lambda>(other, url, host). if isIPv4 host then 0 else 1)"
    by simp
next
  fix other :: "string \<Rightarrow> string" and url :: "string \<Rightarrow> string option" and host v ipv6 mapped :: string and halves
  assume "v = bare_address other host" "\<not> isIPv4 v" and h: "length halves = 2 \<and> list_all hex_group halves"
  then have "\<not> isIPv4 host" using bare_isIPv4 by auto
  moreover have "isIPv4 (dotted (hex_value (halves ! 0) * 2 ^ 16 + hex_value (halves ! 1)))"
    using h by (intro isIPv4_numeric) (auto simp: numeral_eq_Suc length_Suc_conv)
  ultimately show "((other, url, dotted (hex_value (halves ! 0) * 2 ^ 16 + hex_value (halves ! 1))), other, url, host)
      \<in> measure (\<lambda>(other, url, host). if isIPv4 host then 0 else 1)" by simp
qed simp

declare isPrivateAddress.simps [simp del]

lemma name_dotted: "reserved_name (dotted n) \<Longrightarrow> dotted n = ''0.0.0.0''"
proof -
  have l: "CHR ''l'' \<notin> set (dotted n)" using dotted_chars [of n] by (auto simp: list_all_iff digit_char_def)
  have no: "CHR ''l'' \<in> set t \<Longrightarrow> \<not> ends_with t (dotted n)" for t
    using l by (metis ends_with_def starts_with_def in_set_takeD set_rev)
  show "reserved_name (dotted n) \<Longrightarrow> dotted n = ''0.0.0.0''"
    using l no [of "''.localhost''"] no [of "''.internal''"] by (auto simp: reserved_name_def)
qed

lemma private_zero: "private_ipv4 ''0.0.0.0''"
  by code_simp

lemma private_dotted:
  assumes "n < 2 ^ 32"
  shows "isPrivateAddress other url (dotted n) \<longleftrightarrow> reserved n"
proof -
  let ?a = "n div 2 ^ 24" and ?b = "n div 2 ^ 16 mod 256" and ?c = "n div 2 ^ 8 mod 256" and ?d = "n mod 256"
  have "?a < 256" using assms by (simp add: div_less_iff_less_mult)
  have horner: "x = y * 256 + d \<Longrightarrow> y = z * 256 + c \<Longrightarrow> z = a * 256 + b \<Longrightarrow> a * 2 ^ 24 + b * 2 ^ 16 + c * 2 ^ 8 + d = x"
    for x y z a b c d :: nat by simp
  have step: "m div 2 ^ 16 = m div 2 ^ 24 * 256 + m div 2 ^ 16 mod 256" "m div 2 ^ 8 = m div 2 ^ 16 * 256 + m div 2 ^ 8 mod 256"
    "m = m div 2 ^ 8 * 256 + m mod 256" for m :: nat
    using div_mult_mod_eq [of m 256] div_mult_mod_eq [of "m div 2 ^ 8" 256] div_mult_mod_eq [of "m div 2 ^ 16" 256]
    by (simp_all add: div_mult2_eq [symmetric])
  have n: "?a * 2 ^ 24 + ?b * 2 ^ 16 + ?c * 2 ^ 8 + ?d = n"
    by (rule horner [OF step(3) step(2) step(1)])
  have "private_ipv4 (dotted n) \<longleftrightarrow> private_octets ?a ?b ?c"
    unfolding private_ipv4_def split_dotted by (simp add: decimal_value_show)
  also have "\<dots> \<longleftrightarrow> reserved n"
    using octets_reserved [OF \<open>?a < 256\<close>, of ?b ?c ?d] n by simp
  finally have p: "private_ipv4 (dotted n) \<longleftrightarrow> reserved n" .
  have ip: "isIPv4 (dotted n)" using assms by (auto simp: isIPv4_dotted)
  show ?thesis using p ip private_zero name_dotted [of n] by (subst isPrivateAddress.simps) (auto simp: Let_def bare_dotted)
qed

text \<open>The IPv4 address that an IPv6 text embeds (\<open>::ffff:a.b.c.d\<close> or, as the parser writes it, \<open>::ffff:hhhh:hhhh\<close>).\<close>

definition mapped_ipv4 :: "string \<Rightarrow> nat \<Rightarrow> bool" where
  "mapped_ipv4 ipv6 n \<longleftrightarrow> n < 2 ^ 32 \<and>
     (ipv6 = ''::ffff:'' @ dotted n
      \<or> (\<exists>p q. hex_group p \<and> hex_group q \<and> ipv6 = ''::ffff:'' @ p @ '':'' @ q \<and> n = hex_value p * 2 ^ 16 + hex_value q))"

lemma hex_no_separator: "hex_group p \<Longrightarrow> CHR '':'' \<notin> set p \<and> CHR ''.'' \<notin> set p"
  by (auto simp: hex_group_def list_all_iff hex_char_def digit_char_def)

lemma colon_not_ipv4: "CHR '':'' \<in> set v \<Longrightarrow> \<not> isIPv4 v"
proof -
  have "\<not> digit_char (CHR '':'')" by code_simp
  then show "CHR '':'' \<in> set v \<Longrightarrow> \<not> isIPv4 v"
    using dotted_chars by (fastforce simp: isIPv4_dotted list_all_iff)
qed

lemma starts_with_append: "starts_with p (p @ s)"
  by (simp add: starts_with_def)

lemma private_mapped:
  assumes v: "CHR '':'' \<in> set (bare_address other host)" "\<not> reserved_name (bare_address other host)"
    and n: "mapped_ipv4 (normalizeIPv6 other url (bare_address other host)) n"
  shows "isPrivateAddress other url host \<longleftrightarrow> reserved n"
proof -
  let ?v = "bare_address other host"
  let ?ipv6 = "normalizeIPv6 other url ?v"
  have "n < 2 ^ 32" using n by (simp add: mapped_ipv4_def)
  note d = private_dotted [OF this, of other url]
  have mapped: "starts_with ''::ffff:'' ?ipv6" using n by (auto simp: mapped_ipv4_def starts_with_def)
  then have pre: "\<exists>m. ?ipv6 = ''::ffff:'' @ m" by (metis append_take_drop_id starts_with_def)
  have long: "drop 7 ?ipv6 \<noteq> []"
    using n show_nat_digits(2) by (auto simp: mapped_ipv4_def dotted_def)
  have plain: "\<not> reserved_ipv6 ?ipv6"
    using pre long by (auto simp: reserved_ipv6_def starts_with_def)
  show ?thesis
  proof (cases "isIPv4 (drop 7 ?ipv6)")
    case True
    have "drop 7 ?ipv6 = dotted n"
    proof -
      have "\<not> isIPv4 (p @ '':'' @ q)" for p q by (rule colon_not_ipv4) simp
      then show ?thesis using n True by (auto simp: mapped_ipv4_def)
    qed
    then show ?thesis using True v plain mapped colon_not_ipv4 [OF v(1)] d
      by (subst isPrivateAddress.simps) (simp add: Let_def)
  next
    case False
    have "?ipv6 \<noteq> ''::ffff:'' @ dotted n" using False \<open>n < 2 ^ 32\<close> by (auto simp: isIPv4_dotted)
    then obtain p q where pq: "hex_group p" "hex_group q" "?ipv6 = ''::ffff:'' @ p @ '':'' @ q" "n = hex_value p * 2 ^ 16 + hex_value q"
      using n by (auto simp: mapped_ipv4_def)
    have "split_on (CHR '':'') (drop 7 ?ipv6) = [p, q]"
      using hex_no_separator [OF pq(1)] hex_no_separator [OF pq(2)] pq(3) by (simp add: split_on_append_sep split_on_no_sep)
    then show ?thesis using False v plain mapped colon_not_ipv4 [OF v(1)] d pq
      by (subst isPrivateAddress.simps) (simp add: Let_def)
  qed
qed

subsection \<open>Resolution\<close>

text \<open>An answer of the resolver: \<open>ok\<close>, origin and path of the URL of the response (\<open>None\<close> when it does not parse),
  the content type, and the decoded body (\<open>None\<close> when it is not JSON).\<close>

record dns_body =
  dns_Status :: int
  dns_Answer :: "(int \<times> string) list"

record dns_response =
  dns_ok :: bool
  dns_url :: "(string \<times> string) option"
  dns_contentType :: "string option"
  dns_body :: "dns_body option"

text \<open>The services: lower-casing outside ASCII, the URL parser, and \<open>fetch\<close> of the query for a host and a record type
  (\<open>None\<close> when it rejects or times out).\<close>

record target_env =
  tgt_lower :: "string \<Rightarrow> string"
  tgt_url :: "string \<Rightarrow> string option"
  tgt_fetch :: "string \<Rightarrow> string \<Rightarrow> dns_response option"

definition answer_addresses :: "target_env \<Rightarrow> int \<times> string \<Rightarrow> string list" where
  "answer_addresses env answer =
     (case answer of (type, data) \<Rightarrow>
        (if type = 1 \<and> isIPv4 data then [data] else [])
        @ (if type = 28 \<and> CHR '':'' \<in> set data
           then let normalized = normalizeIPv6 (tgt_lower env) (tgt_url env) data in
                if CHR ''%'' \<notin> set normalized \<and> CHR '':'' \<in> set normalized then [normalized] else []
           else []))"

definition response_addresses :: "target_env \<Rightarrow> dns_response \<Rightarrow> (string, string list) result" where
  "response_addresses env response =
     (if \<not> dns_ok response then Inl ''Unable to verify the target DNS records''
      else case dns_url response of
        None \<Rightarrow> Inl ''Invalid URL''
      | Some (origin, path) \<Rightarrow>
          if origin \<noteq> ''https://cloudflare-dns.com'' \<or> \<not> starts_with ''/dns-query'' path
             \<or> (case dns_contentType response of
                  None \<Rightarrow> True
                | Some t \<Rightarrow> \<not> starts_with ''application/dns-json'' (js_lower (tgt_lower env) t))
          then Inl ''Unexpected DNS resolver response''
          else case dns_body response of
            None \<Rightarrow> Inl ''Invalid JSON''
          | Some result \<Rightarrow>
              if dns_Status result \<noteq> 0 \<and> dns_Status result \<noteq> 3 then Inl ''Unable to verify the target DNS records''
              else if 64 < length (dns_Answer result) then Inl ''Target DNS response has too many records''
              else Inr (concat (map (answer_addresses env) (dns_Answer result))))"

fun collect_addresses :: "target_env \<Rightarrow> dns_response list \<Rightarrow> (string, string list) result" where
  "collect_addresses env [] = Inr []"
| "collect_addresses env (r # rs) =
     and_then (response_addresses env r) (\<lambda>as. and_then (collect_addresses env rs) (\<lambda>bs. Inr (as @ bs)))"

definition resolvePublicAddresses :: "target_env \<Rightarrow> string \<Rightarrow> (string, string list) result" where
  "resolvePublicAddresses env host =
     (if CHR '':'' \<in> set host \<or> isIPv4 host then Inr [host]
      else case (tgt_fetch env host ''A'', tgt_fetch env host ''AAAA'') of
             (Some a, Some b) \<Rightarrow> collect_addresses env [a, b]
           | _ \<Rightarrow> Inl ''fetch failed'')"

text \<open>\<open>[...new Set(xs)]\<close>: the first occurrences, in order.\<close>

definition unique_values :: "'a list \<Rightarrow> 'a list" where
  "unique_values xs = rev (remdups (rev xs))"

definition assertPublicTarget :: "target_env \<Rightarrow> string \<Rightarrow> (string, string list) result" where
  "assertPublicTarget env host =
     (if isPrivateAddress (tgt_lower env) (tgt_url env) host then Inl ''Private and reserved SSH targets are disabled''
      else and_then (resolvePublicAddresses env host) (\<lambda>addresses.
        if length addresses = 0 then Inl ''SSH target did not resolve to an address''
        else if list_ex (isPrivateAddress (tgt_lower env) (tgt_url env)) addresses
        then Inl ''Target DNS resolves to a private or reserved address''
        else
          let unique = unique_values (map (js_lower (tgt_lower env)) addresses) in
          if 16 < length unique then Inl ''SSH target resolves to too many addresses'' else Inr unique))"

definition toSocketHostname :: "string \<Rightarrow> string" where
  "toSocketHostname address =
     (if CHR '':'' \<in> set address \<and> \<not> starts_with ''['' address then ''['' @ address @ '']'' else address)"

subsection \<open>The addresses that are connected to\<close>

text \<open>An address in a block that the code names: an IPv4 address in its dotted form or inside an IPv6 address, or an IPv6
  address with a reserved beginning.\<close>

definition reserved_address :: "target_env \<Rightarrow> string \<Rightarrow> bool" where
  "reserved_address env x \<longleftrightarrow>
     (\<exists>n<2 ^ 32. x = dotted n \<and> reserved n)
     \<or> (CHR '':'' \<in> set (bare_address (tgt_lower env) x) \<and>
        (let ipv6 = normalizeIPv6 (tgt_lower env) (tgt_url env) (bare_address (tgt_lower env) x) in
         reserved_ipv6 ipv6 \<or> (\<exists>n. mapped_ipv4 ipv6 n \<and> reserved n)))"

lemma reserved_private: "reserved_address env x \<Longrightarrow> isPrivateAddress (tgt_lower env) (tgt_url env) x"
proof -
  let ?o = "tgt_lower env" and ?u = "tgt_url env" let ?v = "bare_address ?o x"
  assume "reserved_address env x"
  then consider n where "n < 2 ^ 32" "x = dotted n" "reserved n"
    | "CHR '':'' \<in> set ?v" "reserved_ipv6 (normalizeIPv6 ?o ?u ?v)"
    | n where "CHR '':'' \<in> set ?v" "mapped_ipv4 (normalizeIPv6 ?o ?u ?v) n" "reserved n"
    unfolding reserved_address_def Let_def by blast
  then show ?thesis
  proof cases
    case 1
    then show ?thesis by (simp add: private_dotted)
  next
    case 2
    then show ?thesis using colon_not_ipv4 [OF 2(1)] by (subst isPrivateAddress.simps) (simp add: Let_def)
  next
    case 3
    then show ?thesis using private_mapped [OF 3(1) _ 3(2)]
      by (cases "reserved_name ?v") (simp_all add: isPrivateAddress.simps [of ?o ?u x] Let_def)
  qed
qed

lemma collect_addresses_form:
  "collect_addresses env rs = Inr as \<Longrightarrow> x \<in> set as \<Longrightarrow> isIPv4 x \<or> CHR '':'' \<in> set x"
proof (induction rs arbitrary: as)
  case (Cons r rs)
  have "response_addresses env r = Inr bs \<Longrightarrow> x \<in> set bs \<Longrightarrow> isIPv4 x \<or> CHR '':'' \<in> set x" for bs
    by (auto simp: response_addresses_def answer_addresses_def Let_def split: if_splits option.splits prod.splits)
  with Cons show ?case by (auto simp: and_then_Inr_iff)
qed simp

lemma resolved_form: "resolvePublicAddresses env host = Inr as \<Longrightarrow> x \<in> set as \<Longrightarrow> isIPv4 x \<or> CHR '':'' \<in> set x"
  by (auto simp: resolvePublicAddresses_def simp del: collect_addresses.simps split: if_splits option.splits
      dest: collect_addresses_form)

text \<open>C10: An IPv4 address is refused as a target exactly when it lies in one of the reserved blocks: for each of the
  \<open>2\<^sup>3\<^sup>2\<close> addresses, in its dotted form and embedded in an IPv6 address in either notation; and the texts that count as
  IPv4 addresses are exactly the dotted forms.\<close>

theorem private_address_exact:
  "(isIPv4 host \<longleftrightarrow> (\<exists>n<2 ^ 32. host = dotted n))
   \<and> (n < 2 ^ 32 \<longrightarrow> (isPrivateAddress other url (dotted n) \<longleftrightarrow> reserved n))
   \<and> (CHR '':'' \<in> set (bare_address other host) \<and> \<not> reserved_name (bare_address other host)
        \<and> mapped_ipv4 (normalizeIPv6 other url (bare_address other host)) n
      \<longrightarrow> (isPrivateAddress other url host \<longleftrightarrow> reserved n))"
  using isIPv4_dotted private_dotted private_mapped by blast

text \<open>C9: The addresses that a target is resolved to and then connected to are at least one and at most sixteen
  different ones, none is in a reserved range, and each is an IPv4 address or an IPv6 text; whatever the resolver
  answers, and also when the target is given as an address.\<close>

theorem connected_addresses_public:
  assumes "assertPublicTarget env host = Inr addresses"
  shows "addresses \<noteq> [] \<and> length addresses \<le> 16 \<and> distinct addresses
    \<and> (\<forall>a \<in> set addresses. \<exists>x. a = js_lower (tgt_lower env) x \<and> (isIPv4 x \<or> CHR '':'' \<in> set x) \<and> \<not> reserved_address env x)"
proof -
  obtain as where as: "resolvePublicAddresses env host = Inr as" "as \<noteq> []"
    "\<not> list_ex (isPrivateAddress (tgt_lower env) (tgt_url env)) as"
    "addresses = unique_values (map (js_lower (tgt_lower env)) as)" "length addresses \<le> 16"
    using assms by (auto simp: assertPublicTarget_def and_then_Inr_iff Let_def split: if_splits)
  have "set addresses = js_lower (tgt_lower env) ` set as" "distinct addresses"
    by (simp_all add: as(4) unique_values_def)
  moreover have "\<not> reserved_address env x" "isIPv4 x \<or> CHR '':'' \<in> set x" if "x \<in> set as" for x
    using as(3) reserved_private resolved_form [OF as(1) that] that by (auto simp: list_ex_iff)
  ultimately show ?thesis using as(2,5) by fastforce
qed

text \<open>An environment whose URL parser knows one address, and whose resolver answers with a public one.\<close>

definition example_target_env :: target_env where
  "example_target_env = \<lparr>tgt_lower = (\<lambda>s. s),
     tgt_url = (\<lambda>s. if s = ''::FFFF:10.1.2.3'' \<or> s = ''::ffff:10.1.2.3'' then Some ''[::ffff:a01:203]'' else None),
     tgt_fetch = (\<lambda>host type. Some \<lparr>dns_ok = True, dns_url = Some (''https://cloudflare-dns.com'', ''/dns-query''),
       dns_contentType = Some ''application/dns-json'',
       dns_body = Some \<lparr>dns_Status = 0, dns_Answer = (if type = ''A'' then [(1, ''1.1.1.1'')] else [])\<rparr>\<rparr>)\<rparr>"

theorem private_address_exact_witness:
  "isPrivateAddress (tgt_lower example_target_env) (tgt_url example_target_env) ''::FFFF:10.1.2.3''"
proof -
  let ?o = "tgt_lower example_target_env" and ?u = "tgt_url example_target_env" and ?h = "''::FFFF:10.1.2.3''"
  have v: "bare_address ?o ?h = ''::ffff:10.1.2.3''" by code_simp
  have n: "normalizeIPv6 ?o ?u ''::ffff:10.1.2.3'' = ''::ffff:'' @ ''a01'' @ '':'' @ ''203''" by code_simp
  have "hex_group ''a01'' \<and> hex_group ''203''" by code_simp
  moreover have x: "hex_value ''a01'' * 2 ^ 16 + hex_value ''203'' = 10 * 2 ^ 24 + 66051"
    by (simp add: hex_value_def hex_digit_def digit_char_def)
  ultimately have "mapped_ipv4 (normalizeIPv6 ?o ?u ''::ffff:10.1.2.3'') (10 * 2 ^ 24 + 66051)"
    unfolding mapped_ipv4_def n by (intro conjI disjI2 exI [of _ "''a01''"] exI [of _ "''203''"]) auto
  moreover have "\<not> reserved_name ''::ffff:10.1.2.3''" by code_simp
  moreover have "reserved (10 * 2 ^ 24 + 66051)" unfolding reserved_cases by simp
  ultimately show ?thesis
    using private_address_exact [of ?h "10 * 2 ^ 24 + 66051" ?o ?u] unfolding v by simp
qed

theorem connected_addresses_public_witness:
  "\<exists>as. assertPublicTarget example_target_env ''example.org'' = Inr as \<and> distinct as \<and> length as \<le> 16 \<and> as \<noteq> []"
proof -
  have "isPrivateAddress (tgt_lower example_target_env) (tgt_url example_target_env) ''example.org'' = False"
    by (subst isPrivateAddress.simps) code_simp
  moreover have "resolvePublicAddresses example_target_env ''example.org'' = Inr [''1.1.1.1'']" by code_simp
  moreover have "isPrivateAddress (tgt_lower example_target_env) (tgt_url example_target_env) ''1.1.1.1'' = False"
    by (subst isPrivateAddress.simps) code_simp
  ultimately have r: "assertPublicTarget example_target_env ''example.org'' = Inr (unique_values (map (js_lower (tgt_lower example_target_env)) [''1.1.1.1'']))"
    by (simp add: assertPublicTarget_def unique_values_def)
  from connected_addresses_public [OF r] r show ?thesis by blast
qed

end
