(* ===== verification/Connect_Message.thy ===== *)
theory Connect_Message
  imports Target_Address Js_Json Session_State
begin

text \<open>
  The first message of a terminal session (\<open>parseConnectMessage\<close>, \<open>isValidHost\<close>, \<open>normalizeTerminalSize\<close> of
  \<^verbatim>\<open>worker/src/webssh/types.ts\<close>): everything that the rest of the session relies on is checked here. The URL
  parser is the argument \<open>url\<close>, as in \<open>Target_Address\<close>.
\<close>

subsection \<open>Character classes\<close>

definition alnum_char :: "char \<Rightarrow> bool" where
  "alnum_char c \<longleftrightarrow>
     (let n = (of_char c :: nat) in (65 \<le> n \<and> n \<le> 90) \<or> (97 \<le> n \<and> n \<le> 122) \<or> (48 \<le> n \<and> n \<le> 57))"

text \<open>\<open>[a-z\d](?:[a-z\d-]{0,61}[a-z\d])?\<close>, without regard to case.\<close>

definition host_label :: "string \<Rightarrow> bool" where
  "host_label p \<longleftrightarrow>
     p \<noteq> [] \<and> length p \<le> 63 \<and> alnum_char (hd p) \<and> alnum_char (last p)
     \<and> list_all (\<lambda>c. alnum_char c \<or> c = CHR ''-'') p"

definition HOST_RE :: "string \<Rightarrow> bool" where
  "HOST_RE s \<longleftrightarrow> 1 \<le> length s \<and> length s \<le> 253 \<and> list_all host_label (split_on (CHR ''.'') s)"

text \<open>\<open>/^SHA256:[A-Za-z0-9+/]{43}$/\<close> and \<open>/^[A-Za-z0-9._+-]{1,64}$/\<close>.\<close>

definition fingerprint_text :: "string \<Rightarrow> bool" where
  "fingerprint_text s \<longleftrightarrow>
     starts_with ''SHA256:'' s \<and> length s = 50
     \<and> list_all (\<lambda>c. alnum_char c \<or> c = CHR ''+'' \<or> c = CHR ''/'') (drop 7 s)"

definition term_text :: "string \<Rightarrow> bool" where
  "term_text s \<longleftrightarrow>
     1 \<le> length s \<and> length s \<le> 64
     \<and> list_all (\<lambda>c. alnum_char c \<or> c = CHR ''.'' \<or> c = CHR ''_'' \<or> c = CHR ''+'' \<or> c = CHR ''-'') s"

fun includes_text :: "'a list \<Rightarrow> 'a list \<Rightarrow> bool" where
  "includes_text t [] = (t = [])"
| "includes_text t (c # cs) = (starts_with t (c # cs) \<or> includes_text t cs)"

subsection \<open>Checks\<close>

definition isValidHost :: "(string \<Rightarrow> string option) \<Rightarrow> string \<Rightarrow> bool" where
  "isValidHost url host =
     (let bare = (if starts_with ''['' host \<and> ends_with '']'' host then butlast (tl host) else host) in
      if CHR '':'' \<in> set bare then (case url bare of Some hostname \<Rightarrow> 2 < length hostname | None \<Rightarrow> False)
      else if bare \<noteq> [] \<and> list_all (\<lambda>c. digit_char c \<or> c = CHR ''.'') bare
      then ipv4_shape bare \<and> octets_ok bare
      else HOST_RE bare)"

definition normalizeTerminalSize :: "json \<Rightarrow> json \<Rightarrow> (nat \<times> nat) option" where
  "normalizeTerminalSize cols rows =
     (case (cols, rows) of
        (JNum (Finite c), JNum (Finite r)) \<Rightarrow>
          if 10 \<le> \<lfloor>c\<rfloor> \<and> \<lfloor>c\<rfloor> \<le> 1000 \<and> 5 \<le> \<lfloor>r\<rfloor> \<and> \<lfloor>r\<rfloor> \<le> 1000 then Some (nat \<lfloor>c\<rfloor>, nat \<lfloor>r\<rfloor>) else None
      | _ \<Rightarrow> None)"

text \<open>\<open>typeof x === 'string' ? x : undefined\<close> and \<open>x ?? d\<close>.\<close>

definition text_field :: "json \<Rightarrow> string \<Rightarrow> string option" where
  "text_field raw name = (case json_field raw name of Some (JStr s) \<Rightarrow> Some s | _ \<Rightarrow> None)"

definition number_field :: "json \<Rightarrow> string \<Rightarrow> rat \<Rightarrow> json" where
  "number_field raw name d =
     (case json_field raw name of None \<Rightarrow> JNum (Finite d) | Some JNull \<Rightarrow> JNum (Finite d) | Some v \<Rightarrow> v)"

definition allowedFields :: "string list" where
  "allowedFields = [''type'', ''host'', ''port'', ''username'', ''authMethod'', ''password'', ''privateKey'', ''cols'', ''rows'',
     ''term'', ''expectedFingerprint'']"

fun json_keys :: "json \<Rightarrow> string list" where
  "json_keys (JObj fs) = map fst fs"
| "json_keys _ = []"

fun check :: "bool \<Rightarrow> string \<Rightarrow> (string, unit) result" where
  "check ok message = (if ok then Inr () else Inl message)"

definition valid_username :: "string \<Rightarrow> bool" where
  "valid_username s \<longleftrightarrow>
     \<not> u16_length s < 1 \<and> \<not> 128 < u16_length s
     \<and> list_all (\<lambda>c. c \<noteq> CHR 0x00 \<and> c \<noteq> CHR 0x0D \<and> c \<noteq> CHR 0x0A) s"

text \<open>The only credential, for the authentication method.\<close>

definition valid_password :: "string option \<Rightarrow> string option \<Rightarrow> bool" where
  "valid_password password privateKey \<longleftrightarrow>
     (case password of None \<Rightarrow> False | Some p \<Rightarrow> \<not> 4096 < u16_length p) \<and> privateKey = None"

definition valid_key :: "string option \<Rightarrow> string option \<Rightarrow> bool" where
  "valid_key password privateKey \<longleftrightarrow>
     (case privateKey of
        None \<Rightarrow> False
      | Some k \<Rightarrow> k \<noteq> [] \<and> \<not> 128 * 1024 < u16_length k \<and> includes_text ''BEGIN OPENSSH PRIVATE KEY'' k)
     \<and> password = None"

definition auth_field :: "json \<Rightarrow> auth_method option" where
  "auth_field raw =
     (if json_field raw ''authMethod'' = Some (JStr ''password'') then Some AuthPassword
      else if json_field raw ''authMethod'' = Some (JStr ''publickey'') then Some AuthPublicKey
      else None)"

definition port_field :: "json \<Rightarrow> nat option" where
  "port_field raw =
     (case json_integer (json_field raw ''port'') of
        Some p \<Rightarrow> if p < 1 \<or> 65535 < p then None else Some (nat p)
      | None \<Rightarrow> None)"

definition fingerprint_field :: "json \<Rightarrow> bool" where
  "fingerprint_field raw =
     (case json_field raw ''expectedFingerprint'' of None \<Rightarrow> True | Some (JStr f) \<Rightarrow> fingerprint_text f | _ \<Rightarrow> False)"

definition term_field :: "json \<Rightarrow> string" where
  "term_field raw =
     (case text_field raw ''term'' of Some t \<Rightarrow> if term_text t then t else ''xterm-256color'' | None \<Rightarrow> ''xterm-256color'')"

definition parseConnectMessage :: "(string \<Rightarrow> string option) \<Rightarrow> json \<Rightarrow> (string, SSHConnectionConfig) result" where
  "parseConnectMessage url raw =
     (let password = text_field raw ''password''; privateKey = text_field raw ''privateKey'' in
      and_then (check (is_object raw) ''Invalid connect message'') (\<lambda>_.
      and_then (check (json_field raw ''type'' = Some (JStr ''connect'')) ''The first message must be type \"connect\"'') (\<lambda>_.
      case text_field raw ''host'' of None \<Rightarrow> Inl ''Invalid SSH host'' | Some host \<Rightarrow>
      and_then (check (isValidHost url (js_trim host)) ''Invalid SSH host'') (\<lambda>_.
      case port_field raw of None \<Rightarrow> Inl ''Invalid SSH port'' | Some port \<Rightarrow>
      (case text_field raw ''username'' of None \<Rightarrow> Inl ''Invalid SSH username'' | Some username \<Rightarrow>
      and_then (check (valid_username username) ''Invalid SSH username'') (\<lambda>_.
      case auth_field raw of None \<Rightarrow> Inl ''Invalid authentication method'' | Some authMethod \<Rightarrow>
      and_then (check (list_all (\<lambda>k. k \<in> set allowedFields) (json_keys raw)) ''Unsupported connection field'') (\<lambda>_.
      case normalizeTerminalSize (number_field raw ''cols'' 120) (number_field raw ''rows'' 40) of
        None \<Rightarrow> Inl ''Invalid terminal size''
      | Some (cols, rows) \<Rightarrow>
      and_then (check (authMethod = AuthPassword \<longrightarrow> valid_password password privateKey)
        ''Password is required and must be the only credential'') (\<lambda>_.
      and_then (check (authMethod = AuthPublicKey \<longrightarrow> valid_key password privateKey)
        ''An unencrypted OpenSSH private key is required and must be the only credential'') (\<lambda>_.
      and_then (check (fingerprint_field raw) ''Invalid host key fingerprint'') (\<lambda>_.
      Inr \<lparr>cfg_host = strip_brackets (js_trim host), cfg_port = port, cfg_username = username, cfg_authMethod = authMethod,
           cfg_password = password, cfg_privateKey = privateKey, cfg_cols = cols, cfg_rows = rows,
           cfg_term = term_field raw,
           cfg_expectedFingerprint = text_field raw ''expectedFingerprint''\<rparr>))))))))))"

subsection \<open>What an accepted message guarantees\<close>

definition well_formed_host :: "string \<Rightarrow> bool" where
  "well_formed_host host \<longleftrightarrow> CHR '':'' \<in> set host \<or> isIPv4 host \<or> HOST_RE host"

definition well_formed_config :: "SSHConnectionConfig \<Rightarrow> bool" where
  "well_formed_config cfg \<longleftrightarrow>
     well_formed_host (cfg_host cfg)
     \<and> 1 \<le> cfg_port cfg \<and> cfg_port cfg \<le> 65535
     \<and> cfg_username cfg \<noteq> [] \<and> u16_length (cfg_username cfg) \<le> 128 \<and> CHR 0x0A \<notin> set (cfg_username cfg)
     \<and> (case cfg_authMethod cfg of
          AuthPassword \<Rightarrow> (\<exists>p. cfg_password cfg = Some p \<and> u16_length p \<le> 4096) \<and> cfg_privateKey cfg = None
        | AuthPublicKey \<Rightarrow> (\<exists>k. cfg_privateKey cfg = Some k \<and> u16_length k \<le> 131072) \<and> cfg_password cfg = None)
     \<and> 10 \<le> cfg_cols cfg \<and> cfg_cols cfg \<le> 1000 \<and> 5 \<le> cfg_rows cfg \<and> cfg_rows cfg \<le> 1000
     \<and> term_text (cfg_term cfg)
     \<and> (\<forall>f. cfg_expectedFingerprint cfg = Some f \<longrightarrow> fingerprint_text f)"

lemma default_term: "term_text ''xterm-256color''"
  by code_simp

lemma strip_plain: "s \<noteq> [] \<Longrightarrow> hd s \<noteq> CHR ''['' \<Longrightarrow> last s \<noteq> CHR '']'' \<Longrightarrow> strip_brackets s = s"
  by (cases s) (auto simp: strip_brackets_def starts_with_def)

lemma strip_bare:
  assumes "starts_with ''['' host" "ends_with '']'' host"
  shows "strip_brackets host = butlast (tl host)"
proof -
  obtain t where t: "host = CHR ''['' # t" using assms(1) by (cases host) (auto simp: starts_with_def)
  have "t \<noteq> []" "last t = CHR '']''"
  proof -
    have "last host = CHR '']''" using assms(2) by (cases host rule: rev_cases) (auto simp: ends_with_def starts_with_def)
    then show "t \<noteq> []" "last t = CHR '']''" using t by (auto split: if_splits)
  qed
  then show ?thesis by (simp add: strip_brackets_def starts_with_def t)
qed

lemma host_char_ends:
  assumes "s \<noteq> []" "list_all (\<lambda>c. alnum_char c \<or> c = CHR ''-'' \<or> c = CHR ''.'') s"
  shows "strip_brackets s = s"
proof -
  have "\<not> alnum_char (CHR ''['')" "\<not> alnum_char (CHR '']'')" by code_simp+
  then have "\<forall>c \<in> set s. c \<noteq> CHR ''['' \<and> c \<noteq> CHR '']''" using assms(2) by (auto simp: list_all_iff)
  then show ?thesis using hd_in_set [OF assms(1)] last_in_set [OF assms(1)] by (intro strip_plain assms(1)) blast+
qed

lemma split_on_set: "set s \<subseteq> {c} \<union> \<Union> (set ` set (split_on c s))"
proof (induction s)
  case (Cons x s)
  then show ?case by (cases "split_on c s") auto
qed simp

lemma accepted_host:
  assumes "isValidHost url host"
  shows "well_formed_host (strip_brackets host)"
proof -
  let ?bare = "if starts_with ''['' host \<and> ends_with '']'' host then butlast (tl host) else host"
  have keep: "CHR '':'' \<in> set host \<Longrightarrow> CHR '':'' \<in> set (strip_brackets host)"
  proof -
    assume c: "CHR '':'' \<in> set host"
    let ?t = "if starts_with ''['' host then tl host else host"
    have t: "CHR '':'' \<in> set ?t" using c by (cases host) (auto simp: starts_with_def)
    then show "CHR '':'' \<in> set (strip_brackets host)"
      by (cases ?t rule: rev_cases) (auto simp: strip_brackets_def Let_def split: if_splits)
  qed
  show ?thesis
  proof (cases "CHR '':'' \<in> set ?bare")
    case True
    moreover have "set ?bare \<subseteq> set host" by (cases host) (auto dest: in_set_butlastD)
    ultimately have "CHR '':'' \<in> set host" by blast
    then show ?thesis using keep by (simp add: well_formed_host_def)
  next
    case False
    then have v: "isIPv4 ?bare \<or> HOST_RE ?bare"
      using assms by (auto simp: isValidHost_def Let_def isIPv4_def split: if_splits)
    have "strip_brackets host = ?bare"
    proof (cases "starts_with ''['' host \<and> ends_with '']'' host")
      case True
      then show ?thesis using strip_bare by simp
    next
      case plain: False
      have "strip_brackets host = host"
        using v plain
      proof (elim disjE)
        assume "isIPv4 ?bare"
        then have "isIPv4 host" using plain by simp
        then obtain n where "host = dotted n" by (auto simp: isIPv4_dotted)
        then have "host \<noteq> []" "list_all (\<lambda>c. digit_char c \<or> c = CHR ''.'') host"
          using dotted_chars show_nat_digits(2) by (simp_all add: dotted_def)
        then show ?thesis by (intro host_char_ends) (auto simp: list_all_iff alnum_char_def digit_char_def Let_def)
      next
        assume "HOST_RE ?bare"
        then have h: "HOST_RE host" using plain by simp
        have "set host \<subseteq> {CHR ''.''} \<union> \<Union> (set ` set (split_on (CHR ''.'') host))" by (rule split_on_set)
        moreover have "\<forall>p \<in> set (split_on (CHR ''.'') host). \<forall>c \<in> set p. alnum_char c \<or> c = CHR ''-''"
          using h by (auto simp: HOST_RE_def host_label_def list_all_iff)
        ultimately have "list_all (\<lambda>c. alnum_char c \<or> c = CHR ''-'' \<or> c = CHR ''.'') host" by (auto simp: list_all_iff)
        moreover have "host \<noteq> []" using h by (auto simp: HOST_RE_def)
        ultimately show ?thesis by (intro host_char_ends)
      qed
      then show ?thesis using plain by auto
    qed
    then show ?thesis using v by (simp add: well_formed_host_def)
  qed
qed

lemma accepted_steps:
  "and_then (check c m) f = Inr y \<longleftrightarrow> c \<and> f () = Inr y"
  "(case x of None \<Rightarrow> Inl e | Some v \<Rightarrow> g v) = Inr y \<longleftrightarrow> (\<exists>v. x = Some v \<and> g v = Inr y)"
  by (auto split: option.split)

text \<open>C15: A connect message that is accepted yields a well-formed configuration: the host is a host name, an IPv4
  address or an IPv6 text, without brackets; the port is a port number; the user name is neither empty nor too long
  and holds no line end; there is exactly one credential, the one of the authentication method, of bounded length; the
  terminal size is in range; the terminal name and the expected fingerprint, if any, have their formats.\<close>

theorem accepted_message_well_formed:
  assumes "parseConnectMessage url raw = Inr cfg"
  shows "well_formed_config cfg"
proof -
  obtain host port username auth size
    where h: "isValidHost url (js_trim host)" "port_field raw = Some port" "valid_username username"
    "normalizeTerminalSize (number_field raw ''cols'' 120) (number_field raw ''rows'' 40) = Some size"
    "auth = AuthPassword \<longrightarrow> valid_password (text_field raw ''password'') (text_field raw ''privateKey'')"
    "auth = AuthPublicKey \<longrightarrow> valid_key (text_field raw ''password'') (text_field raw ''privateKey'')"
    "fingerprint_field raw"
    and cfg: "\<lparr>cfg_host = strip_brackets (js_trim host), cfg_port = port, cfg_username = username, cfg_authMethod = auth,
           cfg_password = text_field raw ''password'', cfg_privateKey = text_field raw ''privateKey'', cfg_cols = fst size,
           cfg_rows = snd size, cfg_term = term_field raw,
           cfg_expectedFingerprint = text_field raw ''expectedFingerprint''\<rparr> = cfg"
  proof -
    from assms show thesis
      unfolding parseConnectMessage_def Let_def accepted_steps case_prod_unfold sum.inject
      by (elim exE conjE) (rule that; assumption)
  qed
  have "well_formed_host (cfg_host cfg)" using accepted_host [OF h(1)] by (simp flip: cfg)
  moreover have "1 \<le> port \<and> port \<le> 65535" using h(2) by (auto simp: port_field_def split: option.splits if_splits)
  moreover have "username \<noteq> [] \<and> u16_length username \<le> 128 \<and> CHR 0x0A \<notin> set username"
  proof (intro conjI notI)
    show "username = [] \<Longrightarrow> False" using h(3) by (simp add: valid_username_def)
    show "u16_length username \<le> 128" using h(3) by (simp add: valid_username_def)
    assume "CHR 0x0A \<in> set username"
    moreover have "\<forall>c \<in> set username. c \<noteq> CHR 0x0A" using h(3) unfolding valid_username_def list_all_iff by blast
    ultimately show False by blast
  qed
  moreover have "10 \<le> fst size \<and> fst size \<le> 1000 \<and> 5 \<le> snd size \<and> snd size \<le> 1000"
    using h(4) by (auto simp: normalizeTerminalSize_def le_nat_iff nat_le_iff split: json.splits js_num.splits if_splits)
  moreover have "case auth of
          AuthPassword \<Rightarrow> (\<exists>p. text_field raw ''password'' = Some p \<and> u16_length p \<le> 4096) \<and> text_field raw ''privateKey'' = None
        | AuthPublicKey \<Rightarrow> (\<exists>k. text_field raw ''privateKey'' = Some k \<and> u16_length k \<le> 131072) \<and> text_field raw ''password'' = None"
    using h(5,6) by (cases auth) (auto simp: valid_password_def valid_key_def split: option.splits)
  moreover have "term_text (cfg_term cfg)" using default_term by (simp flip: cfg add: term_field_def split: option.split)
  moreover have "fingerprint_text f" if "text_field raw ''expectedFingerprint'' = Some f" for f
    using h(7) that by (auto simp: text_field_def fingerprint_field_def split: option.splits json.splits)
  ultimately show ?thesis unfolding well_formed_config_def by (cases auth) (simp_all flip: cfg)
qed

definition example_connect :: json where
  "example_connect = JObj [(''type'', JStr ''connect''), (''host'', JStr ''[1.2.3.4]''), (''port'', JNum (Finite 22)),
     (''username'', JStr ''root''), (''authMethod'', JStr ''password''), (''password'', JStr ''pw'')]"

lemma example_host: "isValidHost url (js_trim ''[1.2.3.4]'')"
proof -
  have t: "js_trim ''[1.2.3.4]'' = ''[1.2.3.4]''" by (rule js_trim_id) (simp_all add: ws_encodings_def)
  have b: "starts_with ''['' ''[1.2.3.4]''" "ends_with '']'' ''[1.2.3.4]''" by code_simp+
  have "ipv4_shape ''1.2.3.4''" "octets_ok ''1.2.3.4''" by code_simp+
  moreover have "list_all (\<lambda>c. digit_char c \<or> c = CHR ''.'') ''1.2.3.4''" by code_simp
  ultimately show ?thesis unfolding t isValidHost_def Let_def using b by simp
qed

theorem accepted_message_well_formed_witness:
  "\<exists>cfg. parseConnectMessage (\<lambda>s. None) example_connect = Inr cfg \<and> well_formed_config cfg"
proof -
  have f: "json_field example_connect ''type'' = Some (JStr ''connect'')" "json_field example_connect ''host'' = Some (JStr ''[1.2.3.4]'')"
    "json_field example_connect ''port'' = Some (JNum (Finite 22))" "json_field example_connect ''username'' = Some (JStr ''root'')"
    "json_field example_connect ''authMethod'' = Some (JStr ''password'')" "json_field example_connect ''password'' = Some (JStr ''pw'')"
    "json_field example_connect ''privateKey'' = None" "json_field example_connect ''cols'' = None"
    "json_field example_connect ''rows'' = None" "json_field example_connect ''expectedFingerprint'' = None"
    by (simp_all add: example_connect_def)
  have k: "list_all (\<lambda>k. k \<in> set allowedFields) (json_keys example_connect)" "is_object example_connect"
    by (simp_all add: example_connect_def allowedFields_def)
  have "\<exists>cfg. parseConnectMessage (\<lambda>s. None) example_connect = Inr cfg"
    unfolding parseConnectMessage_def Let_def
    using k example_host [of "\<lambda>s. None"]
    by (simp add: f text_field_def port_field_def json_integer_def auth_field_def valid_username_def number_field_def
        normalizeTerminalSize_def valid_password_def fingerprint_field_def Let_def)
  then obtain cfg where c: "parseConnectMessage (\<lambda>s. None) example_connect = Inr cfg" by blast
  from accepted_message_well_formed [OF c] c show ?thesis by blast
qed

end
