(* ===== verification/Spec2Isabelle.thy ===== *)
theory Spec2Isabelle
  imports Sftp_Runs Rate_Limit Session_Trust Session_Input Session_Limits Connect_Message
begin

text \<open>
  A verification of the web terminal of CF VPS Monitor (CF-Workers-VPSmonitor).

  \<^bold>\<open>The program.\<close> The repository is a monitoring panel for servers: a Cloudflare Worker with Durable Objects
  (\<^verbatim>\<open>worker/\<close>), browser applications (\<^verbatim>\<open>frontend/\<close>, \<^verbatim>\<open>webssh/\<close>), an agent in Go
  and a Postgres schema. Its core logic of its own is the web terminal, a complete SSH 2 client
  written in TypeScript that runs inside a Durable Object (\<^verbatim>\<open>worker/src/webssh/\<close>): the browser sends a connect
  message over a WebSocket, the object resolves the target, opens a TCP connection, and runs the SSH transport,
  key exchange, authentication and connection protocols over it, with a shell, a process monitor and an SFTP
  client as channels. This development models that client, and the rate limiter that guards the HTTP
  interface (\<^verbatim>\<open>worker/src/do/rate-limit.ts\<close>). All paths below are under \<^verbatim>\<open>worker/src/\<close>.

  \<^bold>\<open>Theories and what they model.\<close>

  Shared vocabulary:
  \<^item> \<open>Prelude\<close>: bytes, big-endian numbers, UTF-8, results, generic lemmas on lists, words and maps.
  \<^item> \<open>Js_Text\<close>, \<open>Js_Json\<close>, \<open>Text_Decoder\<close>, \<open>Base64\<close>: what the sources use of the platform:
    strings as UTF-16 code units, JSON values, streaming \<open>TextDecoder\<close>, \<open>atob\<close> and \<open>btoa\<close>.

  The packet layer:
  \<^item> \<open>Ssh_Utils\<close> is \<^verbatim>\<open>webssh/ssh/utils.ts\<close>.
  \<^item> \<open>Ssh_Packet\<close> is \<^verbatim>\<open>webssh/ssh/packet.ts\<close>. The fields of \<open>SSHPacketParser\<close> are the record \<open>parser\<close>
    (chunks, chunk index, offset); \<open>nextPacket\<close> is parametrised by the cipher, as the method is by its callbacks.
    The locale \<open>byte_queue\<close> shows that the chunk list is a byte queue, \<open>nextPacket_refines\<close> that framing
    does not depend on how the bytes were cut, and the locale \<open>record_layer\<close> gives the round trip of a stream of
    packets from what a cipher promises.
  \<^item> \<open>Ssh_Crypto\<close> is \<^verbatim>\<open>webssh/ssh/crypto.ts\<close>: the nonce and block counters with their wrap-around, and the proofs
    that AES-GCM and AES-CTR with HMAC meet \<open>record_layer\<close>.

  Key exchange:
  \<^item> \<open>Ssh_Kex\<close> is \<^verbatim>\<open>algorithms.ts\<close>, \<^verbatim>\<open>kex.ts\<close>, \<^verbatim>\<open>keys.ts\<close> and \<^verbatim>\<open>transport.ts\<close>
    of \<^verbatim>\<open>webssh/ssh/\<close>: KEXINIT and EXT_INFO with their signed 32-bit reads, negotiation, key derivation.
  \<^item> \<open>Ssh_Exchange\<close> is \<^verbatim>\<open>kex-curve25519.ts\<close>, \<^verbatim>\<open>kex-ecdh.ts\<close> and \<^verbatim>\<open>host-key.ts\<close>: the
    reply parsers and the exchange hash.

  Authentication:
  \<^item> \<open>Ssh_Password\<close> is \<^verbatim>\<open>webssh/ssh/auth-password.ts\<close>: the requests, and the rule that says which
    keyboard-interactive prompts may receive the password.
  \<^item> \<open>Ssh_Der\<close> and \<open>Ssh_Auth\<close> are \<^verbatim>\<open>webssh/ssh/auth.ts\<close>: mpint and DER encodings, OpenSSH private key files,
    their consistency checks, the signed request.

  Channels and SFTP:
  \<^item> \<open>Ssh_Channel\<close> is \<^verbatim>\<open>webssh/ssh/channel.ts\<close>: windows, data, requests and the end of a stream.
  \<^item> \<open>Sftp_Codec\<close> and \<open>Sftp_Client\<close> are \<^verbatim>\<open>sftp-types.ts\<close> and \<^verbatim>\<open>sftp.ts\<close>; \<open>Sftp_Runs\<close> is the step relation over
    them: calls, server data, timers and failed sends in any order. A promise is the pair of events that opens and
    settles it.

  The session (class \<open>SSHSession\<close>, \<^verbatim>\<open>webssh/backend/session.ts\<close>):
  \<^item> \<open>Target_Address\<close> is the address part of \<^verbatim>\<open>webssh/backend/security.ts\<close>, \<open>Connect_Message\<close> the check of the first
    message in \<^verbatim>\<open>webssh/types.ts\<close>.
  \<^item> \<open>Session_Host\<close>: host signatures and the stateless checks of transport messages.
  \<^item> \<open>Session_State\<close>: the fields of the class in three stages \<open>kex_state\<close>, \<open>auth_state\<close> and \<open>session\<close>, and
    the list \<open>effects\<close> of everything that leaves the session. The writer of the socket and the chains of promises that
    order sends and SFTP work have no field, nor has the count of queued SFTP uploads. \<open>Session_Actions\<close>: actions,
    exceptions, sending, closing.
  \<^item> \<open>Session_Handshake\<close>: version exchange, key exchange, confirmation of the host key, login.
    \<open>Session_Channels\<close>: shell, input queue, messages of the browser. \<open>Process_Framing\<close> and \<open>Session_Aux\<close>: the process
    monitor (also \<^verbatim>\<open>process-framing.ts\<close>), kill and SFTP channels. \<open>Session_Dispatch\<close>: packets, channel
    messages, keepalive.
  \<^item> \<open>Session_Runs\<close>: the events of a session, when each can occur, and the runs they make. \<open>Session_Frame\<close> holds the
    locales through which a relation between states is lifted from the primitive steps to every operation.
    \<open>Session_Example\<close>: an environment and concrete runs for the instances of the properties.

  The rate limiter: \<open>Rate_Limit\<close> (class \<open>RateLimitDO\<close>), with the storage of the Durable Object behind the locale
  \<open>durable_storage\<close>, interpreted on association lists.

  \<^bold>\<open>What is shown.\<close>

  \<^item> Secrets. In every run nothing is sent under the negotiated keys before the server has signed this exchange
    with a host key that was expected or accepted by the user (\<open>Session_Trust\<close>); credentials are erased once the user
    is logged in or the session is closed (\<open>Session_Credentials\<close>), and are presented a bounded number of times
    (\<open>Session_Limits\<close>); the password goes only to prompts that ask for one (\<open>Ssh_Password\<close>); an accepted private
    key has passed all its consistency checks (\<open>Ssh_Auth\<close>).
  \<^item> Targets. \<open>isPrivateAddress\<close> decides the reserved IPv4 blocks exactly, and only public addresses of the
    target are connected to (\<open>Target_Address\<close>); an accepted connect message meets the bounds that the session relies
    on (\<open>Connect_Message\<close>).
  \<^item> Data. Terminal input is sent in order, none of it lost or repeated, also while a flush is suspended or a send fails, and
    a flush makes progress whenever the window and the socket allow it (\<open>Session_Input\<close>); packet streams, channel data, SFTP attributes, KEXINIT and key files survive the round
    trip; windows are accounted exactly; snapshots and SFTP packets do not depend on the cutting of the stream.
  \<^item> Accounting. Each SFTP promise is settled once and request identifiers are never those of a pending request
    (\<open>Sftp_Runs\<close>); GCM nonces do not repeat (\<open>Ssh_Crypto\<close>); a window of the rate limiter admits at most its quota
    (\<open>Rate_Limit\<close>).

  \<^bold>\<open>Modelling decisions.\<close>

  \<^item> \<open>crypto.subtle\<close>, the digests and ciphers, random bytes, generated key pairs, the URL parser, the DNS service, the
    storage of a Durable Object and \<open>toLowerCase\<close> outside ASCII are arguments: functions whose result is \<open>None\<close> where
    the platform rejects or throws. What is assumed of them is a named hypothesis (\<open>gcm_laws\<close>, \<open>ctr_laws\<close>,
    \<open>hmac_laws\<close>, \<open>durable_storage\<close>) and each has an instance.
  \<^item> An exception is the left side of a sum type; the state keeps the assignments made before it. The text of an
    exception that is caught and replaced is not kept.
  \<^item> \<open>await\<close>: an operation runs as one action up to an await at which another event can change what follows. The
    reading task stores the rest of its work in \<open>readTask\<close> and continues in a later event \<open>ReadTurn\<close>, so closing,
    timers and messages come between its turns; taking a packet and handling it are two turns (\<open>Handling\<close>). A flush of
    the input queue is suspended at the await of each send (\<open>flushTask\<close>, \<open>flushingInput\<close>) and continues in the event
    \<open>FlushTurn\<close>. \<open>serialSend\<close> keeps sends in the order of the calls, so a send is one action. It can fail: the
    environment says how many writes the socket takes (\<open>env_writes\<close>), and the actions of the sender see the exception.
  \<^item> Objects that are shared and changed in place (channels) are in a store indexed by their local identifier.
  \<^item> Numbers: wire integers are words or naturals below \<open>2^32\<close>; offsets that JavaScript reads with signed operators are
    integers; counters that wrap are taken modulo their width. Strings are \<open>string\<close>s holding
    their UTF-8 encoding, and sequences of UTF-16 code units (\<open>utf16\<close>) where the sources measure or cut them.
  \<^item> Loops are structural or have a \<open>termination\<close> proof; there is no fuel. The process monitor reports the text
    that is handed to \<open>parseTopSnapshot\<close>. The SFTP handler's work is a list of recorded calls, and whether
    its \<open>feed\<close> throws is an argument, so that both cases are covered.

  \<^bold>\<open>Not modelled.\<close> The parser of \<^verbatim>\<open>top\<close> output, the SFTP handler (long promise chains over the client, which is
  modelled), the signed tickets of \<^verbatim>\<open>security.ts\<close>, the Durable Object that accepts the terminal's sockets, the HTTP
  routes, the live data object, the database layer, authentication of the panel, the browser applications, the
  agent and the SQL: they are I/O over external services, user interface, or another language.
\<close>

end
